(* ===== verification/Prelude.thy ===== *)
theory Prelude
  imports Main "HOL-Library.Word" "HOL-Library.State_Monad"
begin

unbundle bit_operations_syntax

text \<open>
  Shared vocabulary of the development: the machine integer types of the C sources, the
  arithmetic facts that turn their bitwise guards into statements about natural numbers, the
  disjointness test for half-open intervals, and a weakest-precondition calculus for the state
  monad in which the stateful components are written.
\<close>

section \<open>Machine integers\<close>

type_synonym u8 = "8 word"
type_synonym u16 = "16 word"
type_synonym u32 = "32 word"
type_synonym u64 = "64 word"

named_theorems c_arith \<open>C guards on unsigned words as facts about natural numbers\<close>

lemma unat_ucast_up:
  assumes "LENGTH('a) \<le> LENGTH('b)"
  shows "unat (ucast (x :: 'a::len word) :: 'b::len word) = unat x"
proof -
  have "unat x < 2 ^ LENGTH('a)" by simp
  also have "\<dots> \<le> 2 ^ LENGTH('b)" using assms by simp
  finally have "unat x < 2 ^ LENGTH('b)" .
  then show ?thesis by (simp add: unsigned_ucast_eq take_bit_nat_eq_self_iff)
qed

lemma unat_u32_u64 [simp, c_arith]: "unat (ucast (x :: u32) :: u64) = unat x"
  by (rule unat_ucast_up) simp

lemma unat_u16_u64 [simp, c_arith]: "unat (ucast (x :: u16) :: u64) = unat x"
  by (rule unat_ucast_up) simp

lemma unat_u8_u64 [simp, c_arith]: "unat (ucast (x :: u8) :: u64) = unat x"
  by (rule unat_ucast_up) simp

lemma u64_bound: "unat (x :: u64) < 18446744073709551616"
  using unsigned_less [of x, where 'a = nat] by simp

lemma u32_bound: "unat (x :: u32) < 4294967296"
  using unsigned_less [of x, where 'a = nat] by simp

lemma u8_bound: "unat (x :: u8) < 256"
  using unsigned_less [of x, where 'a = nat] by simp

lemmas word_nat [c_arith] = word_le_nat_alt word_less_nat_alt word_unat_eq_iff unat_mod_distrib unat_div_distrib

lemma unat_add_le [c_arith]:
  "unat a + unat b < 2 ^ LENGTH('a) \<Longrightarrow> unat (a + b) = unat a + unat (b :: 'a::len word)"
  by (simp add: unat_add_lem)

lemma unat_sub_le [c_arith]:
  "unat b \<le> unat a \<Longrightarrow> unat (a - b) = unat a - unat (b :: 'a::len word)"
  by (simp add: unat_sub word_le_nat_alt)

lemma unat_mult_le [c_arith]:
  "unat a * unat b < 2 ^ LENGTH('a) \<Longrightarrow> unat (a * b) = unat a * unat (b :: 'a::len word)"
  by (simp add: unat_mult_lem)

text \<open>The page test \<open>x & 4095\<close> and the 2 MiB granule mask are remainders.\<close>

lemma and_mask_zero_iff:
  "(x :: 'a::len word) AND mask n = 0 \<longleftrightarrow> unat x mod 2 ^ n = 0"
  by (simp add: and_mask_dvd_nat [symmetric] dvd_eq_mod_eq_0)

lemma and_4095_zero [c_arith]: "(x :: u64) AND 4095 = 0 \<longleftrightarrow> unat x mod 4096 = 0"
  using and_mask_zero_iff [of x 12] by (simp add: mask_numeral)

lemma and_not_mask_unat:
  "unat ((x :: 'a::len word) AND NOT (mask n)) = unat x - unat x mod 2 ^ n"
proof -
  have "push_bit n (drop_bit n x) = x AND NOT (mask n)"
    by (rule bit_eqI) (auto simp: bit_simps)
  then have split: "x = (x AND mask n) + (x AND NOT (mask n))"
    using bits_ident [of n x] by (simp add: take_bit_eq_mask add.commute)
  have low: "unat (x AND mask n) = unat x mod 2 ^ n"
    by (simp add: take_bit_eq_mask [symmetric] unsigned_take_bit_eq take_bit_eq_mod [of n "unat x"])
  have "x AND NOT (mask n) = x - (x AND mask n)"
    using split by (metis add_diff_cancel_left')
  moreover have "x AND mask n \<le> x"
    by (simp add: word_and_le2)
  ultimately show ?thesis using low by (simp add: unat_sub)
qed

text \<open>\<open>x & (x - 1) == 0\<close> is the power-of-two test of a nonzero word.\<close>

lemma nat_and_pred_zero_iff: "0 < n \<Longrightarrow> n AND (n - 1) = 0 \<longleftrightarrow> (\<exists>k. n = (2::nat) ^ k)"
proof (induction n rule: less_induct)
  case (less n)
  show ?case
  proof (cases "even n")
    case True
    then obtain m where n: "n = 2 * m" by (auto elim: evenE)
    with less.prems have m: "0 < m" "m < n" by auto
    have d: "(n - 1) div 2 = m - 1" using n m by presburger
    have "n AND (n - 1) = 2 * (m AND (m - 1))"
      using n d m by (subst and_rec) simp
    moreover have "(\<exists>k. n = 2 ^ k) \<longleftrightarrow> (\<exists>k. m = 2 ^ k)"
    proof
      assume "\<exists>k. n = 2 ^ k"
      then obtain k where k: "n = 2 ^ k" ..
      with n obtain j where "k = Suc j" by (cases k) auto
      with k n have "m = 2 ^ j" by simp
      then show "\<exists>k. m = 2 ^ k" ..
    next
      assume "\<exists>k. m = 2 ^ k"
      then obtain k where "m = 2 ^ k" ..
      with n have "n = 2 ^ Suc k" by simp
      then show "\<exists>k. n = 2 ^ k" ..
    qed
    ultimately show ?thesis using less.IH [of m] m by simp
  next
    case False
    then obtain m where n: "n = Suc (2 * m)" by (auto elim: oddE)
    have "n AND (n - 1) = 2 * (m AND m)"
      using n by (subst and_rec) simp
    then have low: "n AND (n - 1) = 0 \<longleftrightarrow> m = 0" by simp
    show ?thesis
    proof
      assume "n AND (n - 1) = 0"
      with low n have "n = 2 ^ 0" by simp
      then show "\<exists>k. n = 2 ^ k" ..
    next
      assume "\<exists>k. n = 2 ^ k"
      then obtain k where "n = 2 ^ k" ..
      with False have "k = 0" by (cases k) auto
      with \<open>n = 2 ^ k\<close> n low show "n AND (n - 1) = 0" by simp
    qed
  qed
qed

lemma and_pred_zero_iff:
  assumes "(x :: 'a::len word) \<noteq> 0"
  shows "x AND (x - 1) = 0 \<longleftrightarrow> (\<exists>k. unat x = 2 ^ k)"
proof -
  have pos: "0 < unat x" using assms by (simp add: unat_gt_0)
  have "x AND (x - 1) = 0 \<longleftrightarrow> unat (x AND (x - 1)) = 0"
    by (simp add: unat_eq_0)
  also have "unat (x AND (x - 1)) = unat x AND (unat x - 1)"
    using assms by (simp add: unsigned_and_eq unat_minus_one)
  finally show ?thesis using nat_and_pred_zero_iff [OF pos] by simp
qed

lemma pow2_le_iff: "(2::nat) ^ a \<le> 2 ^ b \<longleftrightarrow> a \<le> b"
  by (simp add: power_increasing_iff)

text \<open>A power of two that is at least \<open>2 ^ j\<close> is a multiple of it.\<close>

lemma pow2_ge_dvd: "n = (2::nat) ^ k \<Longrightarrow> 2 ^ j \<le> n \<Longrightarrow> 2 ^ j dvd n"
  by (simp add: le_imp_power_dvd)

section \<open>Half-open intervals\<close>

text \<open>
  The C code tests two extents for overlap by comparing each start with the other end; the
  test is exact for nonempty extents.
\<close>

lemma interval_overlap_iff:
  fixes a b c d :: nat
  assumes "a < b" and "c < d"
  shows "(a < d \<and> c < b) \<longleftrightarrow> {a..<b} \<inter> {c..<d} \<noteq> {}"
proof
  assume "a < d \<and> c < b"
  with assms have "max a c \<in> {a..<b} \<inter> {c..<d}" by simp
  then show "{a..<b} \<inter> {c..<d} \<noteq> {}" by blast
next
  assume "{a..<b} \<inter> {c..<d} \<noteq> {}"
  then obtain x where "x \<in> {a..<b}" "x \<in> {c..<d}" by blast
  then have "a \<le> x" "x < b" "c \<le> x" "x < d" by simp_all
  then show "a < d \<and> c < b" by linarith
qed

section \<open>Weakest preconditions for the state monad\<close>

text \<open>
  \<open>wp m Q s\<close>: running \<open>m\<close> from \<open>s\<close> ends in a result and state that satisfy \<open>Q\<close>.
  State monad programs are total functions, so this is total correctness.
\<close>

definition wp :: "('s, 'a) state \<Rightarrow> ('a \<Rightarrow> 's \<Rightarrow> bool) \<Rightarrow> 's \<Rightarrow> bool" where
  "wp m Q s \<longleftrightarrow> (case run_state m s of (r, t) \<Rightarrow> Q r t)"

named_theorems wp_rules \<open>weakest preconditions of the program constructors\<close>

lemma wp_return [wp_rules]: "wp (State_Monad.return x) Q = Q x"
  by (simp add: wp_def fun_eq_iff)

lemma wp_bind [wp_rules]: "wp (State_Monad.bind m f) Q = wp m (\<lambda>r. wp (f r) Q)"
  by (simp add: wp_def fun_eq_iff split: prod.splits)

lemma wp_get [wp_rules]: "wp State_Monad.get Q = (\<lambda>s. Q s s)"
  by (simp add: wp_def fun_eq_iff)

lemma wp_set [wp_rules]: "wp (State_Monad.set t) Q = (\<lambda>s. Q () t)"
  by (simp add: wp_def fun_eq_iff)

lemma wp_update [wp_rules]: "wp (State_Monad.update f) Q = (\<lambda>s. Q () (f s))"
  by (simp add: State_Monad.update_def wp_rules)

lemma wp_if [wp_rules]: "wp (if b then m else n) Q = (\<lambda>s. if b then wp m Q s else wp n Q s)"
  by (simp add: fun_eq_iff)

lemma wp_case_option [wp_rules]:
  "wp (case x of None \<Rightarrow> m | Some y \<Rightarrow> f y) Q =
     (\<lambda>s. case x of None \<Rightarrow> wp m Q s | Some y \<Rightarrow> wp (f y) Q s)"
  by (simp add: fun_eq_iff split: option.split)

lemma wp_case_prod [wp_rules]:
  "wp (case x of (a, b) \<Rightarrow> f a b) Q = (\<lambda>s. case x of (a, b) \<Rightarrow> wp (f a b) Q s)"
  by (simp add: fun_eq_iff split: prod.split)

lemma wp_mono: "wp m Q s \<Longrightarrow> (\<And>r t. Q r t \<Longrightarrow> Q' r t) \<Longrightarrow> wp m Q' s"
  by (auto simp: wp_def split: prod.splits)

lemma wp_conj: "wp m Q s \<Longrightarrow> wp m Q' s \<Longrightarrow> wp m (\<lambda>r t. Q r t \<and> Q' r t) s"
  by (auto simp: wp_def split: prod.splits)

lemma wp_runI: "(\<And>r t. run_state m s = (r, t) \<Longrightarrow> Q r t) \<Longrightarrow> wp m Q s"
  by (auto simp: wp_def split: prod.splits)

lemma wp_runD: "wp m Q s \<Longrightarrow> run_state m s = (r, t) \<Longrightarrow> Q r t"
  by (simp add: wp_def)

section \<open>Loops with early return\<close>

text \<open>
  \<open>for_each f xs\<close> is a C \<open>for\<close> loop over the indices \<open>xs\<close>; \<open>for_return f xs\<close> is one whose
  body may return from the enclosing function: \<open>Some v\<close> is \<open>return v\<close>, \<open>None\<close> goes on.
\<close>

primrec for_each :: "('i \<Rightarrow> ('s, unit) state) \<Rightarrow> 'i list \<Rightarrow> ('s, unit) state" where
  "for_each f [] = State_Monad.return ()"
| "for_each f (i # is) = do { f i; for_each f is }"

primrec for_return :: "('i \<Rightarrow> ('s, 'v option) state) \<Rightarrow> 'i list \<Rightarrow> ('s, 'v option) state" where
  "for_return f [] = State_Monad.return None"
| "for_return f (i # is) = do {
     r \<leftarrow> f i;
     (case r of None \<Rightarrow> for_return f is | Some v \<Rightarrow> State_Monad.return (Some v)) }"

lemma wp_for_each:
  assumes "\<And>i s. i \<in> set is \<Longrightarrow> I s \<Longrightarrow> wp (f i) (\<lambda>_. I) s" and "I s"
  shows "wp (for_each f is) (\<lambda>_. I) s"
  using assms
proof (induction "is" arbitrary: s)
  case (Cons i "is")
  have "wp (f i) (\<lambda>_. I) s" by (simp add: Cons.prems)
  then have "wp (f i) (\<lambda>_ t. wp (for_each f is) (\<lambda>_. I) t) s"
    by (rule wp_mono) (rule Cons.IH, auto intro: Cons.prems(1))
  then show ?case by (simp add: wp_rules)
qed (simp add: wp_rules)

lemma wp_for_return:
  assumes "\<And>i s. i \<in> set is \<Longrightarrow> I None s \<Longrightarrow> wp (f i) I s" and "I None s"
  shows "wp (for_return f is) I s"
  using assms
proof (induction "is" arbitrary: s)
  case (Cons i "is")
  have "wp (f i) I s" by (simp add: Cons.prems)
  then have "wp (f i) (\<lambda>r t. case r of None \<Rightarrow> wp (for_return f is) I t | Some v \<Rightarrow> I (Some v) t) s"
  proof (rule wp_mono)
    fix r t assume I: "I r t"
    have "wp (for_return f is) I t" if "I None t"
      using that by (rule Cons.IH [rotated]) (simp add: Cons.prems(1))
    with I show "case r of None \<Rightarrow> wp (for_return f is) I t | Some v \<Rightarrow> I (Some v) t"
      by (cases r) simp_all
  qed
  then show ?case by (simp add: wp_rules cong: option.case_cong)
qed (simp add: wp_rules)

lemma wp_for_each_upt:
  assumes "\<And>i s. k \<le> i \<Longrightarrow> i < n \<Longrightarrow> J i s \<Longrightarrow> wp (f i) (\<lambda>_. J (Suc i)) s" and "J k s" and "k \<le> n"
  shows "wp (for_each f [k..<n]) (\<lambda>_. J n) s"
  using assms
proof (induction "n - k" arbitrary: k s)
  case (Suc m)
  then have "k < n" by simp
  then have "wp (f k) (\<lambda>_. J (Suc k)) s" using Suc.prems by simp
  then have "wp (f k) (\<lambda>_ t. wp (for_each f [Suc k..<n]) (\<lambda>_. J n) t) s"
    by (rule wp_mono) (rule Suc.hyps(1), use Suc.hyps(2) Suc.prems \<open>k < n\<close> in auto)
  then show ?case using \<open>k < n\<close> by (simp add: upt_rec [of k] wp_rules)
qed (simp add: wp_rules)

lemma wp_for_return_upt:
  assumes "\<And>i s. k \<le> i \<Longrightarrow> i < n \<Longrightarrow> J i s \<Longrightarrow>
      wp (f i) (\<lambda>r t. case r of None \<Rightarrow> J (Suc i) t | Some v \<Rightarrow> E v t) s"
    and "J k s" and "k \<le> n"
  shows "wp (for_return f [k..<n]) (\<lambda>r t. case r of None \<Rightarrow> J n t | Some v \<Rightarrow> E v t) s"
  using assms
proof (induction "n - k" arbitrary: k s)
  case (Suc m)
  then have "k < n" by simp
  then have "wp (f k) (\<lambda>r t. case r of None \<Rightarrow> J (Suc k) t | Some v \<Rightarrow> E v t) s" using Suc.prems by simp
  then have "wp (f k) (\<lambda>r t. case r of
      None \<Rightarrow> wp (for_return f [Suc k..<n]) (\<lambda>r t. case r of None \<Rightarrow> J n t | Some v \<Rightarrow> E v t) t
    | Some v \<Rightarrow> E v t) s"
  proof (rule wp_mono)
    fix r t assume I: "case r of None \<Rightarrow> J (Suc k) t | Some v \<Rightarrow> E v t"
    have "wp (for_return f [Suc k..<n]) (\<lambda>r t. case r of None \<Rightarrow> J n t | Some v \<Rightarrow> E v t) t"
      if "J (Suc k) t"
      by (rule Suc.hyps(1)) (use Suc.hyps(2) Suc.prems \<open>k < n\<close> that in auto)
    with I show "case r of
        None \<Rightarrow> wp (for_return f [Suc k..<n]) (\<lambda>r t. case r of None \<Rightarrow> J n t | Some v \<Rightarrow> E v t) t
      | Some v \<Rightarrow> E v t"
      by (cases r) simp_all
  qed
  then show ?case using \<open>k < n\<close> by (simp add: upt_rec [of k] wp_rules cong: option.case_cong)
qed (simp add: wp_rules)

end
