(* ===== verification/Wire.thy ===== *)
theory Wire
  imports Prelude
begin

text \<open>
  Little-endian fields in byte buffers: what \<open>memcpy\<close> into a packed structure followed by
  \<open>le16toh\<close>, \<open>le32toh\<close> or \<open>le64toh\<close> reads, and what \<open>htole16/32/64\<close> stores. The interface
  \<open>wire_field\<close> collects the laws of one field width; it is interpreted for the three widths
  the protocol uses.
\<close>

type_synonym bytes = "u8 list"

section \<open>Reading and writing a slice\<close>

definition slice :: "nat \<Rightarrow> nat \<Rightarrow> 'a list \<Rightarrow> 'a list" where
  "slice off n r = take n (drop off r)"

definition splice :: "nat \<Rightarrow> 'a list \<Rightarrow> 'a list \<Rightarrow> 'a list" where
  "splice off xs r = take off r @ xs @ drop (off + length xs) r"

lemma length_slice [simp]: "off + n \<le> length r \<Longrightarrow> length (slice off n r) = n"
  by (simp add: slice_def)

lemma length_splice [simp]: "off + length xs \<le> length r \<Longrightarrow> length (splice off xs r) = length r"
  by (simp add: splice_def)

lemma slice_splice_same [simp]:
  "off + length xs \<le> length r \<Longrightarrow> n = length xs \<Longrightarrow> slice off n (splice off xs r) = xs"
  by (simp add: slice_def splice_def)

lemma nth_splice:
  "off + length xs \<le> length r \<Longrightarrow> i < length r \<Longrightarrow>
     splice off xs r ! i = (if i < off then r ! i else if i < off + length xs then xs ! (i - off) else r ! i)"
  by (auto simp: splice_def nth_append min_def)

lemma slice_splice_other:
  assumes "off + length xs \<le> length r" "o' + n \<le> length r" "o' + n \<le> off \<or> off + length xs \<le> o'"
  shows "slice o' n (splice off xs r) = slice o' n r"
proof (rule nth_equalityI)
  show "length (slice o' n (splice off xs r)) = length (slice o' n r)"
    using assms by simp
  fix i assume "i < length (slice o' n (splice off xs r))"
  then have "i < n" using assms by simp
  then show "slice o' n (splice off xs r) ! i = slice o' n r ! i"
    using assms by (auto simp: slice_def nth_splice)
qed

lemma take_splice:
  "n \<le> off \<Longrightarrow> off \<le> length r \<Longrightarrow> take n (splice off xs r) = take n r"
  by (simp add: splice_def min_def)

section \<open>Little-endian numbers\<close>

primrec le_nat :: "bytes \<Rightarrow> nat" where
  "le_nat [] = 0"
| "le_nat (b # bs) = unat b + 256 * le_nat bs"

primrec nat_le :: "nat \<Rightarrow> nat \<Rightarrow> bytes" where
  "nat_le 0 v = []"
| "nat_le (Suc n) v = word_of_nat (v mod 256) # nat_le n (v div 256)"

lemma length_nat_le [simp]: "length (nat_le n v) = n"
  by (induction n arbitrary: v) auto

lemma unat_byte: "unat (word_of_nat (v mod 256) :: u8) = v mod 256"
  by (simp add: unsigned_of_nat take_bit_eq_mod)

lemma le_nat_nat_le: "le_nat (nat_le n v) = v mod 256 ^ n"
proof (induction n arbitrary: v)
  case (Suc n)
  have "le_nat (nat_le (Suc n) v) = v mod 256 + 256 * (v div 256 mod 256 ^ n)"
    using Suc by (simp add: unat_byte)
  also have "\<dots> = v mod 256 ^ Suc n"
    by (simp add: mod_mult2_eq)
  finally show ?case .
qed simp

lemma le_nat_bound: "le_nat bs < 256 ^ length bs"
proof (induction bs)
  case (Cons b bs)
  have "unat b < 256" by (rule u8_bound)
  with Cons show ?case by simp
qed simp

lemma nat_le_le_nat: "nat_le (length bs) (le_nat bs) = bs"
proof (induction bs)
  case (Cons b bs)
  have b: "unat b < 256" by (rule u8_bound)
  then have "(unat b + 256 * le_nat bs) mod 256 = unat b" "(unat b + 256 * le_nat bs) div 256 = le_nat bs"
    by simp_all
  with Cons show ?case by simp
qed simp

lemma nat_le_zero: "nat_le n 0 = replicate n 0"
  by (induction n) simp_all

section \<open>The interface of a fixed-width field\<close>

locale wire_field =
  fixes enc :: "'v \<Rightarrow> bytes" and dec :: "bytes \<Rightarrow> 'v" and width :: nat
  assumes length_enc: "length (enc v) = width"
    and dec_enc: "dec (enc v) = v"
    and enc_dec: "length bs = width \<Longrightarrow> enc (dec bs) = bs"
begin

lemma get_put:
  "off + width \<le> length r \<Longrightarrow> dec (slice off width (splice off (enc v) r)) = v"
  by (simp add: length_enc dec_enc)

lemma get_put_other:
  "off + width \<le> length r \<Longrightarrow> o' + n \<le> length r \<Longrightarrow> o' + n \<le> off \<or> off + width \<le> o' \<Longrightarrow>
     slice o' n (splice off (enc v) r) = slice o' n r"
  by (rule slice_splice_other) (simp_all add: length_enc)

lemma length_put: "off + width \<le> length r \<Longrightarrow> length (splice off (enc v) r) = length r"
  by (simp add: length_enc)

lemma enc_inject: "enc v = enc w \<longleftrightarrow> v = w"
  using dec_enc by metis

end

definition le16toh :: "bytes \<Rightarrow> u16" where "le16toh bs = word_of_nat (le_nat bs)"
definition le32toh :: "bytes \<Rightarrow> u32" where "le32toh bs = word_of_nat (le_nat bs)"
definition le64toh :: "bytes \<Rightarrow> u64" where "le64toh bs = word_of_nat (le_nat bs)"
definition htole16 :: "u16 \<Rightarrow> bytes" where "htole16 v = nat_le 2 (unat v)"
definition htole32 :: "u32 \<Rightarrow> bytes" where "htole32 v = nat_le 4 (unat v)"
definition htole64 :: "u64 \<Rightarrow> bytes" where "htole64 v = nat_le 8 (unat v)"

lemma wire_field_word:
  fixes enc :: "'a::len word \<Rightarrow> bytes" and dec :: "bytes \<Rightarrow> 'a word"
  assumes "256 ^ n = (2::nat) ^ LENGTH('a)"
    and "\<And>v. enc v = nat_le n (unat v)" and "\<And>bs. dec bs = word_of_nat (le_nat bs)"
  shows "wire_field enc dec n"
proof
  fix v :: "'a word" and bs :: bytes
  show "length (enc v) = n" by (simp add: assms(2))
  have "unat v < 256 ^ n" by (simp add: assms(1))
  then show "dec (enc v) = v" by (simp add: assms(2,3) le_nat_nat_le)
  assume l: "length bs = n"
  then have "le_nat bs < 2 ^ LENGTH('a)" using le_nat_bound [of bs] by (simp add: assms(1))
  then have "unat (word_of_nat (le_nat bs) :: 'a word) = le_nat bs"
    by (simp add: unsigned_of_nat take_bit_nat_eq_self_iff)
  then show "enc (dec bs) = bs" using nat_le_le_nat [of bs] l by (simp add: assms(2,3))
qed

interpretation le16: wire_field htole16 le16toh 2
  by (rule wire_field_word) (simp_all add: htole16_def le16toh_def)

interpretation le32: wire_field htole32 le32toh 4
  by (rule wire_field_word) (simp_all add: htole32_def le32toh_def)

interpretation le64: wire_field htole64 le64toh 8
  by (rule wire_field_word) (simp_all add: htole64_def le64toh_def)

lemmas wire_lengths [simp] = le16.length_enc le32.length_enc le64.length_enc
lemmas wire_dec_enc [simp] = le16.dec_enc le32.dec_enc le64.dec_enc

end
