(* ===== verification/Protocol.thy ===== *)
theory Protocol
  imports Wire
begin

text \<open>
  \<open>include/hyper_io.h\<close>: the version 3 control protocol. Every message structure of the header
  is a record with a decoder from the bytes at its C layout (all fields are naturally aligned,
  so the structures have no padding) and an encoder that lays the same fields out. The two
  predicates of the header that are shared between the service and the kernel module,
  \<open>hyper_io_eventfds_valid\<close> and \<open>hyper_io_wait_ready\<close>, are translated too.
\<close>

section \<open>Constants\<close>

abbreviation (input) HYPER_IO_MAGIC :: u32 where "HYPER_IO_MAGIC \<equiv> 0x314f4948"
abbreviation (input) HYPER_IO_VERSION :: u16 where "HYPER_IO_VERSION \<equiv> 3"
abbreviation (input) HYPER_IO_QUEUES :: nat where "HYPER_IO_QUEUES \<equiv> 6"
abbreviation (input) HYPER_IO_NETWORK_QUEUES :: nat where "HYPER_IO_NETWORK_QUEUES \<equiv> 2"
abbreviation (input) HYPER_IO_RECORD :: nat where "HYPER_IO_RECORD \<equiv> 256"
abbreviation (input) HYPER_IO_MAX_GRANT_PAGES :: u64 where "HYPER_IO_MAX_GRANT_PAGES \<equiv> 1048576"
abbreviation (input) HYPER_IO_BLOCK_MAX_READ :: u32 where "HYPER_IO_BLOCK_MAX_READ \<equiv> 1048576"
abbreviation (input) HYPER_IO_REPLY :: u32 where "HYPER_IO_REPLY \<equiv> 1"

abbreviation (input) HYPER_IO_HELLO :: u16 where "HYPER_IO_HELLO \<equiv> 1"
abbreviation (input) HYPER_IO_ACTIVATE :: u16 where "HYPER_IO_ACTIVATE \<equiv> 2"
abbreviation (input) HYPER_IO_RESET :: u16 where "HYPER_IO_RESET \<equiv> 3"
abbreviation (input) HYPER_IO_STOP_QUEUE :: u16 where "HYPER_IO_STOP_QUEUE \<equiv> 4"
abbreviation (input) HYPER_IO_PREPARE_MEMORY :: u16 where "HYPER_IO_PREPARE_MEMORY \<equiv> 5"
abbreviation (input) HYPER_IO_RELEASE_MEMORY :: u16 where "HYPER_IO_RELEASE_MEMORY \<equiv> 6"
abbreviation (input) HYPER_IO_NETWORK_HELLO :: u16 where "HYPER_IO_NETWORK_HELLO \<equiv> 7"
abbreviation (input) HYPER_IO_NETWORK_ACTIVATE :: u16 where "HYPER_IO_NETWORK_ACTIVATE \<equiv> 8"
abbreviation (input) HYPER_IO_NETWORK_RESET :: u16 where "HYPER_IO_NETWORK_RESET \<equiv> 9"
abbreviation (input) HYPER_IO_NETWORK_STOP_QUEUE :: u16 where "HYPER_IO_NETWORK_STOP_QUEUE \<equiv> 10"
abbreviation (input) HYPER_IO_BLOCK_HELLO :: u16 where "HYPER_IO_BLOCK_HELLO \<equiv> 11"
abbreviation (input) HYPER_IO_BLOCK_ENUM :: u16 where "HYPER_IO_BLOCK_ENUM \<equiv> 12"
abbreviation (input) HYPER_IO_BLOCK_READ :: u16 where "HYPER_IO_BLOCK_READ \<equiv> 13"
abbreviation (input) HYPER_IO_BLOCK_BIND :: u16 where "HYPER_IO_BLOCK_BIND \<equiv> 14"
abbreviation (input) HYPER_IO_BLOCK_READ_ONLY :: u32 where "HYPER_IO_BLOCK_READ_ONLY \<equiv> 1"

abbreviation (input) HYPER_IO_OK :: u32 where "HYPER_IO_OK \<equiv> 0"
abbreviation (input) HYPER_IO_UNSUPPORTED :: u32 where "HYPER_IO_UNSUPPORTED \<equiv> 1"
abbreviation (input) HYPER_IO_INVALID :: u32 where "HYPER_IO_INVALID \<equiv> 2"
abbreviation (input) HYPER_IO_BUSY :: u32 where "HYPER_IO_BUSY \<equiv> 3"
abbreviation (input) HYPER_IO_BACKEND_FAILURE :: u32 where "HYPER_IO_BACKEND_FAILURE \<equiv> 4"
abbreviation (input) HYPER_IO_QUIESCENCE_FAILED :: u32 where "HYPER_IO_QUIESCENCE_FAILED \<equiv> 5"

section \<open>Message structures\<close>

record hyper_io_header =
  h_magic :: u32
  h_version :: u16
  h_operation :: u16
  h_length :: u32
  h_flags :: u32
  h_binding :: u64
  h_epoch :: u64
  h_transaction :: u64

definition header_of :: "bytes \<Rightarrow> hyper_io_header" where
  "header_of m = \<lparr>h_magic = le32toh (slice 0 4 m), h_version = le16toh (slice 4 2 m),
     h_operation = le16toh (slice 6 2 m), h_length = le32toh (slice 8 4 m),
     h_flags = le32toh (slice 12 4 m), h_binding = le64toh (slice 16 8 m),
     h_epoch = le64toh (slice 24 8 m), h_transaction = le64toh (slice 32 8 m)\<rparr>"

definition header_bytes :: "hyper_io_header \<Rightarrow> bytes" where
  "header_bytes h = htole32 (h_magic h) @ htole16 (h_version h) @ htole16 (h_operation h) @
     htole32 (h_length h) @ htole32 (h_flags h) @ htole64 (h_binding h) @ htole64 (h_epoch h) @
     htole64 (h_transaction h)"

record hyper_io_queue =
  q_size :: u32
  q_reserved :: u32
  q_descriptor :: u64
  q_available :: u64
  q_used :: u64

definition queue_of :: "bytes \<Rightarrow> hyper_io_queue" where
  "queue_of bs = \<lparr>q_size = le32toh (slice 0 4 bs), q_reserved = le32toh (slice 4 4 bs),
     q_descriptor = le64toh (slice 8 8 bs), q_available = le64toh (slice 16 8 bs),
     q_used = le64toh (slice 24 8 bs)\<rparr>"

definition queue_bytes :: "hyper_io_queue \<Rightarrow> bytes" where
  "queue_bytes q = htole32 (q_size q) @ htole32 (q_reserved q) @ htole64 (q_descriptor q) @
     htole64 (q_available q) @ htole64 (q_used q)"

definition zero_queue :: hyper_io_queue where
  "zero_queue = \<lparr>q_size = 0, q_reserved = 0, q_descriptor = 0, q_available = 0, q_used = 0\<rparr>"

text \<open>
  \<open>hyper_io_activate\<close> (six queues) and \<open>hyper_io_network_activate\<close> (two queues) have the same
  shape: header, features, queue records.
\<close>

record hyper_io_activate =
  a_header :: hyper_io_header
  a_features :: u64
  a_queues :: "hyper_io_queue list"

definition activate_of :: "nat \<Rightarrow> bytes \<Rightarrow> hyper_io_activate" where
  "activate_of n m = \<lparr>a_header = header_of m, a_features = le64toh (slice 40 8 m),
     a_queues = map (\<lambda>i. queue_of (slice (48 + 32 * i) 32 m)) [0..<n]\<rparr>"

definition activate_bytes :: "hyper_io_activate \<Rightarrow> bytes" where
  "activate_bytes a = header_bytes (a_header a) @ htole64 (a_features a) @
     concat (map queue_bytes (a_queues a))"

record hyper_io_prepare_memory =
  p_header :: hyper_io_header
  p_alias :: u64
  p_guest_base :: u64
  p_length :: u64
  p_token :: u64

definition prepare_memory_of :: "bytes \<Rightarrow> hyper_io_prepare_memory" where
  "prepare_memory_of m = \<lparr>p_header = header_of m, p_alias = le64toh (slice 40 8 m),
     p_guest_base = le64toh (slice 48 8 m), p_length = le64toh (slice 56 8 m),
     p_token = le64toh (slice 64 8 m)\<rparr>"

record hyper_io_block_enum =
  e_header :: hyper_io_header
  e_cursor :: u32
  e_reserved :: u32

definition block_enum_of :: "bytes \<Rightarrow> hyper_io_block_enum" where
  "block_enum_of m = \<lparr>e_header = header_of m, e_cursor = le32toh (slice 40 4 m),
     e_reserved = le32toh (slice 44 4 m)\<rparr>"

record hyper_io_block_read =
  rd_header :: hyper_io_header
  rd_disk :: u64
  rd_offset :: u64
  rd_length :: u64
  rd_memory_offset :: u64

definition block_read_of :: "bytes \<Rightarrow> hyper_io_block_read" where
  "block_read_of m = \<lparr>rd_header = header_of m, rd_disk = le64toh (slice 40 8 m),
     rd_offset = le64toh (slice 48 8 m), rd_length = le64toh (slice 56 8 m),
     rd_memory_offset = le64toh (slice 64 8 m)\<rparr>"

record hyper_io_block_bind =
  b_header :: hyper_io_header
  b_client :: u32
  b_flags :: u32
  b_disk :: u64
  b_first_lba :: u64
  b_sectors :: u64

definition block_bind_of :: "bytes \<Rightarrow> hyper_io_block_bind" where
  "block_bind_of m = \<lparr>b_header = header_of m, b_client = le32toh (slice 40 4 m),
     b_flags = le32toh (slice 44 4 m), b_disk = le64toh (slice 48 8 m),
     b_first_lba = le64toh (slice 56 8 m), b_sectors = le64toh (slice 64 8 m)\<rparr>"

text \<open>Linux-local structures passed to the kernel modules.\<close>

record hyper_io_eventfds =
  ef_epoch :: u32
  ef_reserved :: u32
  ef_kick :: "int list"
  ef_call :: "int list"

record hyper_memory_info =
  mi_guest_base :: u64
  mi_length :: u64

record hyper_memory_prepare =
  mp_alias :: u64
  mp_guest_base :: u64
  mp_length :: u64
  mp_token :: u64
  mp_pages :: "u64 list"
  mp_count :: u32
  mp_reserved :: u32

section \<open>Shared predicates\<close>

definition hyper_io_eventfds_valid :: "hyper_io_eventfds \<Rightarrow> bool \<Rightarrow> bool" where
  "hyper_io_eventfds_valid fds network =
     (let required = if network then HYPER_IO_NETWORK_QUEUES else 3;
          maximum = if network then HYPER_IO_NETWORK_QUEUES else HYPER_IO_QUEUES
      in list_all (\<lambda>i.
           let absent = ef_kick fds ! i = - 1 \<and> ef_call fds ! i = - 1
           in if i \<ge> maximum \<or> (i \<ge> required \<and> absent) then absent
              else \<not> (ef_kick fds ! i < 0 \<or> ef_call fds ! i < 0)) [0..<HYPER_IO_QUEUES])"

abbreviation (input) HYPER_IO_MAILBOX_CLOSED :: u32 where "HYPER_IO_MAILBOX_CLOSED \<equiv> 4"

definition hyper_io_wait_ready :: "u32 \<Rightarrow> u32 \<Rightarrow> u64 \<Rightarrow> u64 \<Rightarrow> bool" where
  "hyper_io_wait_ready status wanted armed_generation irq_generation \<longleftrightarrow>
     status AND (wanted OR HYPER_IO_MAILBOX_CLOSED) \<noteq> 0 \<or> armed_generation \<noteq> irq_generation"

section \<open>Layout and round trips\<close>

lemma length_header_bytes [simp]: "length (header_bytes h) = 40"
  by (simp add: header_bytes_def)

lemma length_queue_bytes [simp]: "length (queue_bytes q) = 32"
  by (simp add: queue_bytes_def)

lemma header_of_bytes [simp]: "header_of (header_bytes h @ rest) = h"
  by (simp add: header_of_def header_bytes_def slice_def)

lemma queue_of_bytes [simp]: "queue_of (queue_bytes q) = q"
  by (simp add: queue_of_def queue_bytes_def slice_def)

lemma take_slice_join: "slice a n m @ slice (a + n) k m = slice a (n + k) m"
  by (simp add: slice_def take_add [of n k] add.commute [of a n])

lemma header_bytes_of: "40 \<le> length m \<Longrightarrow> header_bytes (header_of m) = take 40 m"
proof -
  assume l: "40 \<le> length m"
  have "header_bytes (header_of m) = slice 0 4 m @ slice 4 2 m @ slice 6 2 m @ slice 8 4 m @
      slice 12 4 m @ slice 16 8 m @ slice 24 8 m @ slice 32 8 m"
    using l by (simp add: header_bytes_def header_of_def le16.enc_dec le32.enc_dec le64.enc_dec)
  also have "\<dots> = slice 0 40 m"
    using take_slice_join [of 24 8 m 8] take_slice_join [of 16 8 m 16]
      take_slice_join [of 12 4 m 24] take_slice_join [of 8 4 m 28] take_slice_join [of 6 2 m 32]
      take_slice_join [of 4 2 m 34] take_slice_join [of 0 4 m 36]
    by simp
  finally show ?thesis by (simp add: slice_def)
qed

lemma slice_concat_equal:
  assumes "\<And>x. x \<in> set xss \<Longrightarrow> length x = w" and "i < length xss"
  shows "slice (w * i) w (concat xss) = xss ! i"
  using assms
proof (induction xss arbitrary: i)
  case (Cons x xss)
  show ?case
  proof (cases i)
    case 0
    then show ?thesis using Cons.prems by (simp add: slice_def)
  next
    case (Suc j)
    have "slice (w * i) w (concat (x # xss)) = slice (w * j) w (concat xss)"
      using Cons.prems(1) [of x] Suc by (simp add: slice_def)
    then show ?thesis using Cons.IH [of j] Cons.prems Suc by simp
  qed
qed simp

lemma activate_of_bytes:
  "length (a_queues a) = n \<Longrightarrow> activate_of n (activate_bytes a) = a"
proof -
  assume n: "length (a_queues a) = n"
  have q: "queue_of (slice (48 + 32 * i) 32 (activate_bytes a)) = a_queues a ! i" if "i < n" for i
  proof -
    have "slice (48 + 32 * i) 32 (activate_bytes a) = slice (32 * i) 32 (concat (map queue_bytes (a_queues a)))"
      by (simp add: slice_def activate_bytes_def)
    also have "\<dots> = queue_bytes (a_queues a ! i)"
      using that n by (subst slice_concat_equal) auto
    finally show ?thesis by simp
  qed
  have "map (\<lambda>i. queue_of (slice (48 + 32 * i) 32 (activate_bytes a))) [0..<n] = a_queues a"
    by (rule nth_equalityI) (simp_all add: n q)
  moreover have "header_of (activate_bytes a) = a_header a"
    unfolding activate_bytes_def by (rule header_of_bytes)
  moreover have "le64toh (slice 40 8 (activate_bytes a)) = a_features a"
    by (simp add: slice_def activate_bytes_def)
  ultimately show ?thesis by (simp add: activate_of_def)
qed

lemma length_activate_bytes: "length (activate_bytes a) = 48 + 32 * length (a_queues a)"
proof -
  have "length (concat (map queue_bytes qs)) = 32 * length qs" for qs
    by (induction qs) auto
  then show ?thesis by (simp add: activate_bytes_def)
qed

text \<open>
  What the eventfd check admits: for a network bridge exactly the two first pairs, for a storage
  bridge the three first pairs and any set of complete further pairs.
\<close>

lemma all_less_6: "(\<forall>i<6. P i) \<longleftrightarrow> P 0 \<and> P 1 \<and> P 2 \<and> P 3 \<and> P 4 \<and> P (5 :: nat)"
  by (auto simp: numeral_eq_Suc All_less_Suc)

lemma eventfds_valid_iff:
  "hyper_io_eventfds_valid fds network \<longleftrightarrow>
     (\<forall>i<HYPER_IO_QUEUES.
        if i < (if network then HYPER_IO_NETWORK_QUEUES else 3)
        then 0 \<le> ef_kick fds ! i \<and> 0 \<le> ef_call fds ! i
        else (ef_kick fds ! i = - 1 \<and> ef_call fds ! i = - 1) \<or>
             (\<not> network \<and> 0 \<le> ef_kick fds ! i \<and> 0 \<le> ef_call fds ! i))"
proof -
  have upt: "[0..<6] = [0, 1, 2, 3, 4, 5 :: nat]" by (simp add: upt_rec)
  show ?thesis
    unfolding hyper_io_eventfds_valid_def Let_def upt all_less_6
    by (cases network) (auto simp: not_less)
qed

end
