(* ===== verification/Host.thy ===== *)
theory Host
  imports Protocol
begin

text \<open>
  The boundary between the userspace service and the operating system. A system or library call
  is a value of \<open>syscall\<close>; the environment is any function from the history of calls and the
  next call to an \<open>answer\<close>, so it ranges over every behaviour the kernel can show, including
  failure at any point and the delivery of a termination signal (\<open>sig\<close>) by the time the call
  returns. Output parameters of a call are the numbered words \<open>out\<close>, the bytes \<open>data\<close>, the
  string \<open>str\<close> and the directory listing \<open>names\<close>. Every process state extends \<open>host\<close>, which
  records the calls made so far and the \<open>stopping\<close> flag of the signal handler.
\<close>

datatype errno = EINTR | EPIPE | ENOENT | ENXIO | ENOMEDIUM | EEXIST | EOTHER

datatype oflag = O_RDONLY | O_WRONLY | O_RDWR | O_CLOEXEC | O_NOFOLLOW

datatype ioctl =
    HYPER_IO_BIND hyper_io_eventfds
  | HYPER_IO_UNBIND
  | HYPER_IO_QUIESCENT u64
  | HYPER_IO_ADMIT u64 u64 u64
  | HYPER_IO_EXTENT u64
  | HYPER_MEMORY_INFO
  | HYPER_MEMORY_PREPARE hyper_memory_prepare
  | HYPER_MEMORY_RELEASE
  | HYPER_VHOST_SCSI_SET_RESOURCES u32 u32
  | VHOST_GET_FEATURES
  | VHOST_SET_OWNER
  | VHOST_RESET_OWNER
  | VHOST_SET_FEATURES u64
  | VHOST_SET_MEM_TABLE u64 u64 u64
  | VHOST_SET_VRING_NUM nat u32
  | VHOST_SET_VRING_ADDR nat u64 u64 u64
  | VHOST_SET_VRING_BASE nat u32
  | VHOST_SET_VRING_KICK nat int
  | VHOST_SET_VRING_CALL nat int
  | VHOST_SCSI_SET_ENDPOINT string
  | VHOST_SCSI_CLEAR_ENDPOINT string
  | VHOST_NET_SET_BACKEND nat int
  | TUNSETIFF
  | TUNSETVNETHDRSZ nat
  | TUNSETVNETLE nat
  | TUNSETOFFLOAD nat
  | TUNSETSNDBUF u32
  | SIOCSIFTXQLEN string u32
  | SIOCBRADDIF string int
  | SIOCGIFFLAGS string
  | SIOCSIFFLAGS string u64
  | SIOCGIFMTU string
  | SIOCBRADDBR string
  | DM_DEV_CREATE string
  | DM_TABLE_LOAD string bool u64 string u32
  | DM_DEV_SUSPEND string bool
  | DM_DEV_REMOVE string
  | BLKGETSIZE64
  | BLKGETDISKSEQ
  | BLKSSZGET
  | BLKPBSZGET
  | BLKROGET

datatype syscall =
    Open string "oflag list"
  | Close int
  | Ioctl int ioctl
  | Mmap u64 int
  | Munmap u64 u64
  | Eventfd
  | Calloc u64
  | Read int nat
  | Write int bytes
  | Pread int u64 u64 u64
  | Access string
  | Scandir string
  | Fstat int
  | Socket
  | If_nametoindex string
  | Fopen string
  | Fclose
  | Mkdir string
  | Rmdir string
  | Symlink string string
  | Unlink string
  | Mknod string u64
  | Sigaction
  | Pause
  | Fork
  | Execl "string list"
  | Kill int
  | Waitpid

record answer =
  ret :: int
  err :: errno
  out :: "nat \<Rightarrow> u64"
  data :: bytes
  str :: string
  names :: "string list"
  sig :: bool

definition success :: answer where
  "success = \<lparr>ret = 0, err = EOTHER, out = (\<lambda>_. 0), data = [], str = [], names = [], sig = False\<rparr>"

type_synonym event = "syscall \<times> answer"
type_synonym env = "event list \<Rightarrow> syscall \<Rightarrow> answer"

record host =
  events :: "event list"
  stopping :: bool

definition call :: "env \<Rightarrow> syscall \<Rightarrow> ('a host_scheme, answer) state" where
  "call env c = do {
     s \<leftarrow> State_Monad.get;
     let a = env (events s) c;
     State_Monad.set (s\<lparr>events := events s @ [(c, a)], stopping := stopping s \<or> sig a\<rparr>);
     State_Monad.return a }"

definition called :: "env \<Rightarrow> syscall \<Rightarrow> 'a host_scheme \<Rightarrow> 'a host_scheme" where
  "called env c s = s\<lparr>events := events s @ [(c, env (events s) c)],
     stopping := stopping s \<or> sig (env (events s) c)\<rparr>"

lemma run_call: "run_state (call env c) s = (env (events s) c, called env c s)"
  by (simp add: call_def called_def Let_def)

lemma wp_call [wp_rules]: "wp (call env c) Q = (\<lambda>s. Q (env (events s) c) (called env c s))"
  by (simp add: wp_def run_call fun_eq_iff)

lemma events_called [simp]: "events (called env c s) = events s @ [(c, env (events s) c)]"
  by (simp add: called_def)

end
