(* ===== verification/Block_Policy.thy ===== *)
theory Block_Policy
  imports Prelude
begin

text \<open>
  \<open>include/hyper_block_policy.h\<close>: the range a client may be bound to, the conflict test between
  two bindings and the bounds test of an owner's metadata read. The guards are written in
  64-bit wrapping arithmetic as in the header; the lemmas give their meaning over naturals and
  sector sets.
\<close>

abbreviation (input) HYPER_BLOCK_CLIENTS :: nat where "HYPER_BLOCK_CLIENTS \<equiv> 128"
abbreviation (input) HYPER_BLOCK_DISKS :: nat where "HYPER_BLOCK_DISKS \<equiv> 128"

record hyper_block_range =
  r_disk :: u64
  r_first :: u64
  r_count :: u64
  r_read_only :: u32

definition hyper_block_range_valid :: "u64 \<Rightarrow> u32 \<Rightarrow> u32 \<Rightarrow> hyper_block_range \<Rightarrow> bool" where
  "hyper_block_range_valid bytes sector disk_read_only r =
     (if sector < 512 \<or> sector > 65536 \<or> sector AND (sector - 1) \<noteq> 0 \<or>
         bytes = 0 \<or> bytes mod ucast sector \<noteq> 0 \<or> r_disk r = 0 \<or> r_count r = 0 \<or>
         r_read_only r > 1 \<or> (disk_read_only \<noteq> 0 \<and> r_read_only r = 0)
      then False
      else let sectors = bytes div ucast sector
           in r_first r < sectors \<and> r_count r \<le> sectors - r_first r)"

definition hyper_block_ranges_conflict :: "hyper_block_range \<Rightarrow> hyper_block_range \<Rightarrow> bool" where
  "hyper_block_ranges_conflict a b =
     (if r_disk a = 0 \<or> r_disk a \<noteq> r_disk b \<or> (r_read_only a \<noteq> 0 \<and> r_read_only b \<noteq> 0)
      then False
      else r_first a < r_first b + r_count b \<and> r_first b < r_first a + r_count a)"

definition hyper_block_read_valid :: "u64 \<Rightarrow> u32 \<Rightarrow> u64 \<Rightarrow> u64 \<Rightarrow> u64 \<Rightarrow> u64 \<Rightarrow> bool" where
  "hyper_block_read_valid bytes sector offset len memory_bytes memory_offset \<longleftrightarrow>
     sector \<noteq> 0 \<and> len \<noteq> 0 \<and> len \<le> 1048576 \<and> offset mod ucast sector = 0 \<and>
     len mod ucast sector = 0 \<and> len \<le> bytes \<and>
     offset \<le> bytes - len \<and> len \<le> memory_bytes \<and>
     memory_offset \<le> memory_bytes - len"

section \<open>Meaning of the guards\<close>

text \<open>The logical sectors a range occupies.\<close>

definition range_sectors :: "hyper_block_range \<Rightarrow> nat set" where
  "range_sectors r = {unat (r_first r) ..< unat (r_first r) + unat (r_count r)}"

definition range_in_disk :: "nat \<Rightarrow> hyper_block_range \<Rightarrow> bool" where
  "range_in_disk sectors r \<longleftrightarrow>
     0 < unat (r_count r) \<and> unat (r_first r) + unat (r_count r) \<le> sectors"

lemma range_in_disk_iff:
  "range_in_disk n r \<longleftrightarrow> range_sectors r \<noteq> {} \<and> range_sectors r \<subseteq> {..<n}"
  by (auto simp: range_in_disk_def range_sectors_def lessThan_atLeast0 ivl_subset)

text \<open>The sector size test admits exactly the powers of two from 512 to 65536.\<close>

definition sector_size_ok :: "u32 \<Rightarrow> bool" where
  "sector_size_ok sector \<longleftrightarrow> \<not> (sector < 512 \<or> sector > 65536 \<or> sector AND (sector - 1) \<noteq> 0)"

lemma sector_exponent:
  "(512::nat) \<le> 2 ^ k \<longleftrightarrow> 9 \<le> k" "2 ^ k \<le> (65536::nat) \<longleftrightarrow> k \<le> 16"
  using pow2_le_iff [of 9 k] pow2_le_iff [of k 16] by simp_all

lemma sector_size_ok_pow2:
  "sector_size_ok sector \<longleftrightarrow> (\<exists>k. 9 \<le> k \<and> k \<le> 16 \<and> unat sector = 2 ^ k)"
proof -
  have "sector_size_ok sector \<longleftrightarrow>
      512 \<le> unat sector \<and> unat sector \<le> 65536 \<and> (\<exists>k. unat sector = 2 ^ k)"
  proof (cases "sector = 0")
    case False
    then show ?thesis
      by (auto simp: sector_size_ok_def not_less and_pred_zero_iff word_le_nat_alt)
  qed (simp add: sector_size_ok_def)
  then show ?thesis by (auto simp: sector_exponent)
qed

lemma sector_size_ok_dvd:
  assumes "sector_size_ok sector"
  shows "512 dvd unat sector" and "512 \<le> unat sector" and "unat sector \<le> 65536"
proof -
  from assms obtain k where k: "9 \<le> k" "k \<le> 16" "unat sector = 2 ^ k"
    by (auto simp: sector_size_ok_pow2)
  have "(2::nat) ^ 9 dvd 2 ^ k" using k(1) by (rule le_imp_power_dvd)
  then show "512 dvd unat sector" using k(3) by simp
  show "512 \<le> unat sector" "unat sector \<le> 65536"
    using k by (simp_all add: sector_exponent)
qed

lemma range_valid_nat:
  "hyper_block_range_valid bytes sector disk_read_only r \<longleftrightarrow>
     sector_size_ok sector \<and> 0 < unat bytes \<and> unat sector dvd unat bytes \<and>
     r_disk r \<noteq> 0 \<and> r_read_only r \<le> 1 \<and> (disk_read_only \<noteq> 0 \<longrightarrow> r_read_only r \<noteq> 0) \<and>
     range_in_disk (unat bytes div unat sector) r"
proof -
  have q: "unat (bytes div ucast sector :: u64) = unat bytes div unat sector"
    by (simp add: unat_div_distrib)
  have m: "bytes mod (ucast sector :: u64) = 0 \<longleftrightarrow> unat sector dvd unat bytes"
    by (simp add: word_unat_eq_iff unat_mod_distrib dvd_eq_mod_eq_0)
  have "r_count r \<noteq> 0 \<Longrightarrow>
      r_first r < bytes div ucast sector \<and> r_count r \<le> bytes div ucast sector - r_first r
      \<longleftrightarrow> unat (r_first r) + unat (r_count r) \<le> unat bytes div unat sector"
    using unat_sub [of "r_first r" "bytes div ucast sector"] unat_gt_0 [of "r_count r"]
    by (auto simp: word_less_nat_alt word_le_nat_alt q)
  then show ?thesis
    unfolding hyper_block_range_valid_def Let_def sector_size_ok_def range_in_disk_def m
    by (auto simp: not_less unat_gt_0)
qed

lemma ranges_conflict_sectors:
  assumes "range_in_disk n a" and "range_in_disk m b" and "n < 2 ^ 64" and "m < 2 ^ 64"
  shows "hyper_block_ranges_conflict a b \<longleftrightarrow>
     r_disk a \<noteq> 0 \<and> r_disk a = r_disk b \<and> (r_read_only a = 0 \<or> r_read_only b = 0) \<and>
     range_sectors a \<inter> range_sectors b \<noteq> {}"
proof -
  have e: "unat (r_first a + r_count a) = unat (r_first a) + unat (r_count a)"
       "unat (r_first b + r_count b) = unat (r_first b) + unat (r_count b)"
    using assms by (auto simp: range_in_disk_def intro!: unat_add_le)
  have "r_first a < r_first b + r_count b \<and> r_first b < r_first a + r_count a
      \<longleftrightarrow> range_sectors a \<inter> range_sectors b \<noteq> {}"
    unfolding range_sectors_def word_less_nat_alt e
    using assms(1,2) by (subst interval_overlap_iff [symmetric]) (auto simp: range_in_disk_def)
  then show ?thesis
    unfolding hyper_block_ranges_conflict_def by auto
qed

lemma ranges_conflict_sym:
  "hyper_block_ranges_conflict a b = hyper_block_ranges_conflict b a"
  by (auto simp: hyper_block_ranges_conflict_def)

lemma read_valid_nat:
  "hyper_block_read_valid bytes sector offset len memory_bytes memory_offset \<longleftrightarrow>
     0 < unat sector \<and> 0 < unat len \<and> unat len \<le> 1048576 \<and>
     unat sector dvd unat offset \<and> unat sector dvd unat len \<and>
     unat offset + unat len \<le> unat bytes \<and>
     unat memory_offset + unat len \<le> unat memory_bytes"
proof -
  have s: "len \<le> b \<and> o' \<le> b - len \<longleftrightarrow> unat o' + unat len \<le> unat b" for b o' :: u64
    using unat_sub [of len b] by (auto simp: word_le_nat_alt)
  have d: "x mod (ucast sector :: u64) = 0 \<longleftrightarrow> unat sector dvd unat x" for x
    by (simp add: word_unat_eq_iff unat_mod_distrib dvd_eq_mod_eq_0)
  have l: "len \<le> 1048576 \<longleftrightarrow> unat len \<le> 1048576" by (simp add: word_le_nat_alt)
  show ?thesis
    unfolding hyper_block_read_valid_def d l using s [of bytes offset] s [of memory_bytes memory_offset]
    by (auto simp: unat_gt_0)
qed

end
