(* ===== verification/Backend.thy ===== *)
theory Backend
  imports Host Block_Policy
begin

text \<open>
  \<open>service/backend.h\<close>: the state of one client service. The C \<open>struct backend\<close> is the record
  \<open>backend\<close>, which extends \<open>host\<close> by the fields of the structure. A file descriptor is an
  \<open>int\<close> with \<open>-1\<close> for "none", the address of the shared mapping is a 64-bit word with
  \<open>MAP_FAILED\<close> for "not mapped", \<open>target\<close> is the WWPN of the storage target (the empty string for
  a zero first byte). The \<open>block_owner\<close> of \<open>service/block.c\<close> is part of the record because the
  service of endpoint zero carries one.
\<close>

record endpoint =
  ep_notification :: int
  ep_fd :: int
  ep_kick :: "int list"
  ep_call :: "int list"
  ep_bound :: bool
  ep_attached :: bool

record hyper_scsi_resources =
  request_queues :: u32
  sg_prealloc :: u32

record hyper_network_resources =
  rx_backlog_packets :: u32
  tx_buffer_bytes :: u32

record physical_disk =
  pd_fd :: int
  pd_device :: u64
  pd_bytes :: u64
  pd_sequence :: u64
  pd_logical :: u32
  pd_physical :: u32
  pd_read_only :: u32

record block_owner =
  bo_disks :: "physical_disk list"
  bo_clients :: "bool list"
  bo_bindings :: "hyper_block_range list"

record backend = host +
  disk :: endpoint
  net :: endpoint
  memory_fd :: int
  tap :: int
  memory :: u64
  region :: hyper_memory_info
  target :: string
  managed :: bool
  network :: bool
  memory_path :: string
  bridge :: string
  mac :: bytes
  token :: u64
  diagnostics :: nat
  scsi :: hyper_scsi_resources
  net_resources :: hyper_network_resources
  blocks :: "block_owner option"

abbreviation (input) MAP_FAILED :: u64 where "MAP_FAILED \<equiv> - 1"

definition no_region :: hyper_memory_info where
  "no_region = \<lparr>mi_guest_base = 0, mi_length = 0\<rparr>"

abbreviation (input) VERSION_1 :: u64 where "VERSION_1 \<equiv> 0x100000000"
abbreviation (input) NETWORK_MAC :: u64 where "NETWORK_MAC \<equiv> 0x20"
abbreviation (input) NETWORK_CSUM :: u64 where "NETWORK_CSUM \<equiv> 0x1"
abbreviation (input) NETWORK_TSO :: u64 where "NETWORK_TSO \<equiv> 0x1800"
abbreviation (input) NETWORK_FEATURES :: u64 where "NETWORK_FEATURES \<equiv> 0x100001821"

text \<open>The two devices of a client; a pointer \<open>&b->disk\<close> or \<open>&b->net\<close> in the C code.\<close>

datatype device = Disk | Net

definition endpoint_of :: "device \<Rightarrow> backend \<Rightarrow> endpoint" where
  "endpoint_of d b = (case d of Disk \<Rightarrow> disk b | Net \<Rightarrow> net b)"

definition set_endpoint :: "device \<Rightarrow> endpoint \<Rightarrow> backend \<Rightarrow> backend" where
  "set_endpoint d e b = (case d of Disk \<Rightarrow> b\<lparr>disk := e\<rparr> | Net \<Rightarrow> b\<lparr>net := e\<rparr>)"

definition memory_endpoint :: "backend \<Rightarrow> endpoint" where
  "memory_endpoint b = (if target b \<noteq> [] then disk b else net b)"

definition hyper_scsi_resources_valid :: "u32 \<Rightarrow> u32 \<Rightarrow> bool" where
  "hyper_scsi_resources_valid queues sg \<longleftrightarrow> 1 \<le> queues \<and> queues \<le> 4 \<and> 2 \<le> sg \<and> sg \<le> 2048"

text \<open>
  \<open>diagnostic\<close> of \<open>hyper-io-service.c\<close>: at most 128 lines per managed service. The text goes to
  the console and is not modelled; the counter is.
\<close>

definition diagnostic :: "(backend, unit) state" where
  "diagnostic = State_Monad.update (\<lambda>b.
     if \<not> managed b \<or> 128 \<le> diagnostics b then b else b\<lparr>diagnostics := Suc (diagnostics b)\<rparr>)"

definition modify_endpoint :: "device \<Rightarrow> (endpoint \<Rightarrow> endpoint) \<Rightarrow> (backend, unit) state" where
  "modify_endpoint d f = State_Monad.update (\<lambda>b. set_endpoint d (f (endpoint_of d b)) b)"

definition diagnosed :: "backend \<Rightarrow> backend" where
  "diagnosed b = (if \<not> managed b \<or> 128 \<le> diagnostics b then b else b\<lparr>diagnostics := Suc (diagnostics b)\<rparr>)"

lemma wp_diagnostic [wp_rules]: "wp diagnostic Q = (\<lambda>b. Q () (diagnosed b))"
  by (simp add: diagnostic_def diagnosed_def wp_rules cong: if_cong)

lemma wp_modify_endpoint [wp_rules]:
  "wp (modify_endpoint d f) Q = (\<lambda>b. Q () (set_endpoint d (f (endpoint_of d b)) b))"
  by (simp add: modify_endpoint_def wp_rules)

lemma endpoint_of_set [simp]:
  "endpoint_of d (set_endpoint d' e b) = (if d = d' then e else endpoint_of d b)"
  by (cases d; cases d') (simp_all add: endpoint_of_def set_endpoint_def)

lemma set_endpoint_twice [simp]: "set_endpoint d e (set_endpoint d e' b) = set_endpoint d e b"
  by (cases d) (simp_all add: set_endpoint_def)

section \<open>Frames of the primitive steps\<close>

lemma called_backend [simp]:
  "memory_fd (called env c b) = memory_fd b"
  "tap (called env c b) = tap b"
  "memory (called env c b) = memory b"
  "region (called env c b) = region b"
  "target (called env c b) = target b"
  "managed (called env c b) = managed b"
  "network (called env c b) = network b"
  "memory_path (called env c b) = memory_path b"
  "bridge (called env c b) = bridge b"
  "mac (called env c b) = mac b"
  "token (called env c b) = token b"
  "scsi (called env c b) = scsi b"
  "net_resources (called env c b) = net_resources b"
  "blocks (called env c b) = blocks b"
  "disk (called env c b) = disk b"
  "net (called env c b) = net b"
  "diagnostics (called env c b) = diagnostics b"
  by (simp_all add: called_def)

lemma diagnosed_backend [simp]:
  "memory_fd (diagnosed b) = memory_fd b"
  "tap (diagnosed b) = tap b"
  "memory (diagnosed b) = memory b"
  "region (diagnosed b) = region b"
  "target (diagnosed b) = target b"
  "managed (diagnosed b) = managed b"
  "network (diagnosed b) = network b"
  "memory_path (diagnosed b) = memory_path b"
  "bridge (diagnosed b) = bridge b"
  "mac (diagnosed b) = mac b"
  "token (diagnosed b) = token b"
  "scsi (diagnosed b) = scsi b"
  "net_resources (diagnosed b) = net_resources b"
  "blocks (diagnosed b) = blocks b"
  "disk (diagnosed b) = disk b"
  "net (diagnosed b) = net b"
  "events (diagnosed b) = events b"
  "stopping (diagnosed b) = stopping b"
  by (simp_all add: diagnosed_def)

lemma set_endpoint_backend [simp]:
  "memory_fd (set_endpoint d e b) = memory_fd b"
  "tap (set_endpoint d e b) = tap b"
  "memory (set_endpoint d e b) = memory b"
  "region (set_endpoint d e b) = region b"
  "target (set_endpoint d e b) = target b"
  "managed (set_endpoint d e b) = managed b"
  "network (set_endpoint d e b) = network b"
  "memory_path (set_endpoint d e b) = memory_path b"
  "bridge (set_endpoint d e b) = bridge b"
  "mac (set_endpoint d e b) = mac b"
  "token (set_endpoint d e b) = token b"
  "scsi (set_endpoint d e b) = scsi b"
  "net_resources (set_endpoint d e b) = net_resources b"
  "blocks (set_endpoint d e b) = blocks b"
  "events (set_endpoint d e b) = events b"
  "stopping (set_endpoint d e b) = stopping b"
  "diagnostics (set_endpoint d e b) = diagnostics b"
  by (cases d; simp add: set_endpoint_def)+

lemma endpoint_frames [simp]:
  "endpoint_of d (called env c b) = endpoint_of d b"
  "endpoint_of d (diagnosed b) = endpoint_of d b"
  "disk (set_endpoint d e b) = (if d = Disk then e else disk b)"
  "net (set_endpoint d e b) = (if d = Net then e else net b)"
  by (cases d; simp add: endpoint_of_def set_endpoint_def)+

lemma endpoint_of_frames [simp]:
  "endpoint_of d (b\<lparr>memory_fd := x\<rparr>) = endpoint_of d b" "endpoint_of d (b\<lparr>tap := x\<rparr>) = endpoint_of d b"
  "endpoint_of d (b\<lparr>memory := m\<rparr>) = endpoint_of d b" "endpoint_of d (b\<lparr>region := g\<rparr>) = endpoint_of d b"
  "endpoint_of d (b\<lparr>token := m\<rparr>) = endpoint_of d b" "endpoint_of d (b\<lparr>blocks := k\<rparr>) = endpoint_of d b"
  by (cases d; simp add: endpoint_of_def)+

lemma endpoint_of_Disk: "endpoint_of Disk b = disk b"
  and endpoint_of_Net: "endpoint_of Net b = net b"
  by (simp_all add: endpoint_of_def)

text \<open>The fields no operation of the service changes, and the shared memory of the client.\<close>

definition config :: "backend \<Rightarrow> bool \<times> bool \<times> string \<times> string \<times> string \<times> bytes \<times> hyper_scsi_resources \<times> hyper_network_resources" where
  "config b = (managed b, network b, target b, memory_path b, bridge b, mac b, scsi b, net_resources b)"

definition shared :: "backend \<Rightarrow> u64 \<times> int \<times> hyper_memory_info \<times> u64" where
  "shared b = (memory b, memory_fd b, region b, token b)"

text \<open>\<open>untouched d b t\<close>: nothing but endpoint \<open>d\<close> (and its TAP) differs between \<open>b\<close> and \<open>t\<close>.\<close>

definition untouched :: "device \<Rightarrow> backend \<Rightarrow> backend \<Rightarrow> bool" where
  "untouched d b t \<longleftrightarrow> config t = config b \<and> shared t = shared b \<and> blocks t = blocks b \<and>
     (\<forall>d'. d' \<noteq> d \<longrightarrow> endpoint_of d' t = endpoint_of d' b) \<and>
     ep_notification (endpoint_of d t) = ep_notification (endpoint_of d b) \<and>
     (d = Disk \<longrightarrow> tap t = tap b)"

lemma untouched_refl [simp]: "untouched d b b"
  by (simp add: untouched_def)

lemma untouched_trans: "untouched d b t \<Longrightarrow> untouched d t u \<Longrightarrow> untouched d b u"
  by (simp add: untouched_def)

lemma untouched_called [simp]: "untouched d b (called env c t) = untouched d b t"
  by (simp add: untouched_def config_def shared_def)

lemma untouched_diagnosed [simp]: "untouched d b (diagnosed t) = untouched d b t"
  by (simp add: untouched_def config_def shared_def)

lemma untouched_set_endpoint [simp]:
  "untouched d b t \<Longrightarrow> ep_notification e = ep_notification (endpoint_of d b) \<Longrightarrow>
     untouched d b (set_endpoint d e t)"
  by (simp add: untouched_def config_def shared_def)

end
