(* ===== verification/Retirement.thy ===== *)
theory Retirement
  imports Backend
begin

text \<open>
  The retirement protocol of a client's shared memory, as a specification over the history of
  system calls (\<open>ARCHITECTURE.md\<close>, "Shared pages and DMA"): a monitor tracks which grants, mappings
  and vhost backends the calls so far have left alive, and \<open>safe\<close> demands of every retiring call
  that nothing which depends on the retired object is alive. \<open>backend_inv\<close> is the invariant that
  ties the monitor to the state of the service; every operation of the service keeps it.
\<close>

section \<open>The monitor\<close>

record monitor =
  scsi_live :: bool
  net_live :: bool
  mapped :: bool
  prepared :: bool
  admitted :: u64

definition fresh_monitor :: monitor where
  "fresh_monitor = \<lparr>scsi_live = False, net_live = False, mapped = False, prepared = False, admitted = 0\<rparr>"

definition observe_ioctl :: "monitor \<Rightarrow> ioctl \<Rightarrow> monitor" where
  "observe_ioctl m r = (case r of
     VHOST_SCSI_SET_ENDPOINT w \<Rightarrow> m\<lparr>scsi_live := True\<rparr>
   | VHOST_SCSI_CLEAR_ENDPOINT w \<Rightarrow> m\<lparr>scsi_live := False\<rparr>
   | VHOST_NET_SET_BACKEND i f \<Rightarrow> m\<lparr>net_live := True\<rparr>
   | VHOST_RESET_OWNER \<Rightarrow> m\<lparr>net_live := False\<rparr>
   | HYPER_MEMORY_PREPARE p \<Rightarrow> m\<lparr>prepared := True\<rparr>
   | HYPER_MEMORY_RELEASE \<Rightarrow> m\<lparr>prepared := False\<rparr>
   | HYPER_IO_ADMIT t g l \<Rightarrow> m\<lparr>admitted := t\<rparr>
   | HYPER_IO_QUIESCENT t \<Rightarrow> m\<lparr>admitted := 0\<rparr>
   | _ \<Rightarrow> m)"

definition observe :: "monitor \<Rightarrow> event \<Rightarrow> monitor" where
  "observe m e = (case fst e of
     Ioctl n r \<Rightarrow> if ret (snd e) = 0 then observe_ioctl m r else m
   | Mmap l n \<Rightarrow> if word_of_int (ret (snd e)) = MAP_FAILED then m else m\<lparr>mapped := True\<rparr>
   | Munmap a l \<Rightarrow> if ret (snd e) = 0 then m\<lparr>mapped := False\<rparr> else m
   | _ \<Rightarrow> m)"

text \<open>What must hold when a call is issued, whatever its outcome.\<close>

definition retire_ok :: "monitor \<Rightarrow> syscall \<Rightarrow> bool" where
  "retire_ok m c \<longleftrightarrow> (case c of
     Munmap a l \<Rightarrow> \<not> scsi_live m \<and> \<not> net_live m
   | Ioctl n r \<Rightarrow> (case r of
       HYPER_MEMORY_RELEASE \<Rightarrow> \<not> scsi_live m \<and> \<not> net_live m \<and> \<not> mapped m
     | HYPER_IO_QUIESCENT t \<Rightarrow>
         \<not> scsi_live m \<and> \<not> net_live m \<and> \<not> mapped m \<and> \<not> prepared m \<and> admitted m = t \<and> t \<noteq> 0
     | HYPER_IO_ADMIT t g l \<Rightarrow> admitted m = 0 \<and> t \<noteq> 0
     | _ \<Rightarrow> True)
   | _ \<Rightarrow> True)"

primrec safe_from :: "monitor \<Rightarrow> event list \<Rightarrow> bool" where
  "safe_from m [] = True"
| "safe_from m (e # es) = (retire_ok m (fst e) \<and> safe_from (observe m e) es)"

definition monitor_of :: "event list \<Rightarrow> monitor" where
  "monitor_of es = foldl observe fresh_monitor es"

definition safe :: "event list \<Rightarrow> bool" where
  "safe es = safe_from fresh_monitor es"

lemma safe_from_snoc:
  "safe_from m (es @ [e]) \<longleftrightarrow> safe_from m es \<and> retire_ok (foldl observe m es) (fst e)"
  by (induction es arbitrary: m) auto

lemma safe_snoc: "safe (es @ [e]) \<longleftrightarrow> safe es \<and> retire_ok (monitor_of es) (fst e)"
  by (simp add: safe_def monitor_of_def safe_from_snoc)

lemma safe_prefix: "safe (xs @ e # ys) \<Longrightarrow> retire_ok (monitor_of xs) (fst e)"
proof -
  have "safe_from m (xs @ e # ys) \<Longrightarrow> retire_ok (foldl observe m xs) (fst e)" for m
    by (induction xs arbitrary: m) auto
  then show "safe (xs @ e # ys) \<Longrightarrow> retire_ok (monitor_of xs) (fst e)"
    by (simp add: safe_def monitor_of_def)
qed

lemma monitor_snoc [simp]: "monitor_of (es @ [e]) = observe (monitor_of es) e"
  by (simp add: monitor_of_def)

text \<open>Calls the monitor ignores.\<close>

fun quiet_ioctl :: "ioctl \<Rightarrow> bool" where
  "quiet_ioctl (VHOST_SCSI_SET_ENDPOINT w) = False"
| "quiet_ioctl (VHOST_SCSI_CLEAR_ENDPOINT w) = False"
| "quiet_ioctl (VHOST_NET_SET_BACKEND i f) = False"
| "quiet_ioctl VHOST_RESET_OWNER = False"
| "quiet_ioctl (HYPER_MEMORY_PREPARE p) = False"
| "quiet_ioctl HYPER_MEMORY_RELEASE = False"
| "quiet_ioctl (HYPER_IO_ADMIT t g l) = False"
| "quiet_ioctl (HYPER_IO_QUIESCENT t) = False"
| "quiet_ioctl r = True"

fun quiet :: "syscall \<Rightarrow> bool" where
  "quiet (Ioctl n r) = quiet_ioctl r"
| "quiet (Mmap l n) = False"
| "quiet (Munmap a l) = False"
| "quiet c = True"

lemma observe_quiet [simp]: "quiet c \<Longrightarrow> observe m (c, a) = m"
  by (cases c) (auto simp: observe_def observe_ioctl_def elim!: quiet_ioctl.elims split: ioctl.splits)

lemma retire_ok_quiet [simp]: "quiet c \<Longrightarrow> retire_ok m c"
  by (cases c) (auto simp: retire_ok_def split: ioctl.splits)

lemma observe_effects [simp]:
  "observe m (Ioctl n (VHOST_SCSI_SET_ENDPOINT w), a) = (if ret a = 0 then m\<lparr>scsi_live := True\<rparr> else m)"
  "observe m (Ioctl n (VHOST_SCSI_CLEAR_ENDPOINT w), a) = (if ret a = 0 then m\<lparr>scsi_live := False\<rparr> else m)"
  "observe m (Ioctl n (VHOST_NET_SET_BACKEND i f), a) = (if ret a = 0 then m\<lparr>net_live := True\<rparr> else m)"
  "observe m (Ioctl n VHOST_RESET_OWNER, a) = (if ret a = 0 then m\<lparr>net_live := False\<rparr> else m)"
  "observe m (Ioctl n (HYPER_MEMORY_PREPARE p), a) = (if ret a = 0 then m\<lparr>prepared := True\<rparr> else m)"
  "observe m (Ioctl n HYPER_MEMORY_RELEASE, a) = (if ret a = 0 then m\<lparr>prepared := False\<rparr> else m)"
  "observe m (Ioctl n (HYPER_IO_ADMIT t g l), a) = (if ret a = 0 then m\<lparr>admitted := t\<rparr> else m)"
  "observe m (Ioctl n (HYPER_IO_QUIESCENT t), a) = (if ret a = 0 then m\<lparr>admitted := 0\<rparr> else m)"
  "observe m (Mmap l f, a) = (if word_of_int (ret a) = MAP_FAILED then m else m\<lparr>mapped := True\<rparr>)"
  "observe m (Munmap x l, a) = (if ret a = 0 then m\<lparr>mapped := False\<rparr> else m)"
  by (simp_all add: observe_def observe_ioctl_def)

lemma retire_ok_effects [simp]:
  "retire_ok m (Munmap x l) \<longleftrightarrow> \<not> scsi_live m \<and> \<not> net_live m"
  "retire_ok m (Ioctl n HYPER_MEMORY_RELEASE) \<longleftrightarrow> \<not> scsi_live m \<and> \<not> net_live m \<and> \<not> mapped m"
  "retire_ok m (Ioctl n (HYPER_IO_QUIESCENT t)) \<longleftrightarrow>
     \<not> scsi_live m \<and> \<not> net_live m \<and> \<not> mapped m \<and> \<not> prepared m \<and> admitted m = t \<and> t \<noteq> 0"
  "retire_ok m (Ioctl n (HYPER_IO_ADMIT t g l)) \<longleftrightarrow> admitted m = 0 \<and> t \<noteq> 0"
  "retire_ok m (Mmap l f)"
  "retire_ok m (Ioctl n (VHOST_SCSI_SET_ENDPOINT w))" "retire_ok m (Ioctl n (VHOST_SCSI_CLEAR_ENDPOINT w))"
  "retire_ok m (Ioctl n (VHOST_NET_SET_BACKEND i f))" "retire_ok m (Ioctl n VHOST_RESET_OWNER)"
  "retire_ok m (Ioctl n (HYPER_MEMORY_PREPARE p))"
  by (simp_all add: retire_ok_def)

section \<open>The invariant of a client service\<close>

definition ep_wf :: "endpoint \<Rightarrow> bool" where
  "ep_wf e \<longleftrightarrow> length (ep_kick e) = HYPER_IO_QUEUES \<and> length (ep_call e) = HYPER_IO_QUEUES \<and>
     (ep_attached e \<longrightarrow> 0 \<le> ep_fd e \<and> ep_bound e)"

text \<open>Nothing of an endpoint is open: no vhost file, no notification binding, no eventfd.\<close>

definition ep_closed :: "endpoint \<Rightarrow> bool" where
  "ep_closed e \<longleftrightarrow> ep_fd e < 0 \<and> \<not> ep_bound e \<and> \<not> ep_attached e \<and>
     ep_kick e = replicate HYPER_IO_QUEUES (- 1) \<and> ep_call e = replicate HYPER_IO_QUEUES (- 1)"

text \<open>A closed device: its endpoint, and for the network device also its TAP.\<close>

definition closed :: "device \<Rightarrow> backend \<Rightarrow> bool" where
  "closed d b \<longleftrightarrow> ep_closed (endpoint_of d b) \<and> (d = Net \<longrightarrow> tap b < 0)"

abbreviation mon :: "backend \<Rightarrow> monitor" where
  "mon b \<equiv> monitor_of (events b)"

text \<open>What the service remembers covers what its calls have left alive.\<close>

definition linked :: "backend \<Rightarrow> bool" where
  "linked b \<longleftrightarrow>
     (scsi_live (mon b) \<longrightarrow> ep_attached (disk b)) \<and>
     (net_live (mon b) \<longrightarrow> ep_attached (net b)) \<and>
     (mapped (mon b) \<longrightarrow> memory b \<noteq> MAP_FAILED) \<and>
     (prepared (mon b) \<longrightarrow> managed b \<and> 0 \<le> memory_fd b) \<and>
     admitted (mon b) = token b"

definition backend_inv :: "backend \<Rightarrow> bool" where
  "backend_inv b \<longleftrightarrow> safe (events b) \<and> linked b \<and> ep_wf (disk b) \<and> ep_wf (net b) \<and>
     (memory b = MAP_FAILED \<longrightarrow> closed Disk b \<and> closed Net b)"

text \<open>The initial state of \<open>main\<close> before anything is opened.\<close>

definition closed_endpoint :: endpoint where
  "closed_endpoint = \<lparr>ep_notification = - 1, ep_fd = - 1, ep_kick = replicate HYPER_IO_QUEUES (- 1),
     ep_call = replicate HYPER_IO_QUEUES (- 1), ep_bound = False, ep_attached = False\<rparr>"

section \<open>Quiet steps\<close>

text \<open>
  A quiet step changes nothing the monitor or the invariant looks at: it only makes ignored
  calls and writes diagnostics.
\<close>

definition quietly :: "backend \<Rightarrow> backend \<Rightarrow> bool" where
  "quietly b t \<longleftrightarrow> config t = config b \<and> shared t = shared b \<and> blocks t = blocks b \<and>
     disk t = disk b \<and> net t = net b \<and> tap t = tap b \<and>
     mon t = mon b \<and> (safe (events b) \<longrightarrow> safe (events t))"

lemma quietly_refl [simp]: "quietly b b"
  by (simp add: quietly_def)

lemma quietly_trans: "quietly b t \<Longrightarrow> quietly t u \<Longrightarrow> quietly b u"
  by (simp add: quietly_def)

lemma quietly_called [simp]: "quiet c \<Longrightarrow> quietly b (called env c t) \<longleftrightarrow> quietly b t"
  by (auto simp: quietly_def config_def shared_def safe_snoc)

lemma quietly_diagnosed [simp]: "quietly b (diagnosed t) \<longleftrightarrow> quietly b t"
  by (simp add: quietly_def config_def shared_def)

lemma quietly_inv: "quietly b t \<Longrightarrow> backend_inv b \<Longrightarrow> backend_inv t"
  by (auto simp: quietly_def backend_inv_def linked_def config_def shared_def closed_def endpoint_of_def)

lemma quietly_untouched: "quietly b t \<Longrightarrow> untouched d b t"
  by (simp add: quietly_def untouched_def endpoint_of_def split: device.split)

lemma quietly_endpoint: "quietly b t \<Longrightarrow> endpoint_of d t = endpoint_of d b"
  by (simp add: quietly_def endpoint_of_def split: device.split)

lemma backend_inv_called [simp]:
  "quiet c \<Longrightarrow> backend_inv (called env c b) \<longleftrightarrow> backend_inv b"
  by (auto simp: backend_inv_def linked_def safe_snoc closed_def)

lemma backend_inv_diagnosed [simp]: "backend_inv (diagnosed b) \<longleftrightarrow> backend_inv b"
  by (simp add: backend_inv_def linked_def closed_def)

text \<open>Changing an endpoint: without a mapping it must stay closed.\<close>

lemma backend_inv_set_endpoint:
  assumes "backend_inv b" and "memory b = MAP_FAILED \<longrightarrow> ep_closed e" and "ep_wf e"
    and "ep_attached (endpoint_of d b) \<longrightarrow> ep_attached e"
  shows "backend_inv (set_endpoint d e b)"
  using assms by (cases d) (auto simp: backend_inv_def linked_def closed_def endpoint_of_def)

lemma backend_inv_wf: "backend_inv b \<Longrightarrow> ep_wf (endpoint_of d b)"
  by (cases d) (simp_all add: backend_inv_def endpoint_of_def)

lemma backend_inv_closed: "backend_inv b \<Longrightarrow> memory b = MAP_FAILED \<Longrightarrow> closed d b"
  by (cases d) (simp_all add: backend_inv_def)

section \<open>Draining and activating a device\<close>

text \<open>What an activation of device \<open>d\<close> promises.\<close>

definition activate_post :: "backend \<Rightarrow> device \<Rightarrow> u32 \<Rightarrow> backend \<Rightarrow> bool" where
  "activate_post b d r t \<longleftrightarrow> backend_inv t \<and> untouched d b t \<and>
     r \<in> {HYPER_IO_OK, HYPER_IO_UNSUPPORTED, HYPER_IO_BUSY, HYPER_IO_INVALID,
           HYPER_IO_BACKEND_FAILURE, HYPER_IO_QUIESCENCE_FAILED} \<and>
     (r = HYPER_IO_OK \<longrightarrow> ep_attached (endpoint_of d t) \<and> memory t \<noteq> MAP_FAILED) \<and>
     (r \<in> {HYPER_IO_UNSUPPORTED, HYPER_IO_BUSY, HYPER_IO_INVALID} \<longrightarrow> quietly b t) \<and>
     (r = HYPER_IO_BACKEND_FAILURE \<longrightarrow> closed d t)"

lemma activate_rejected:
  "backend_inv b \<Longrightarrow> quietly b t \<Longrightarrow> r \<in> {HYPER_IO_UNSUPPORTED, HYPER_IO_BUSY, HYPER_IO_INVALID} \<Longrightarrow>
     activate_post b d r t"
  by (auto simp: activate_post_def quietly_inv quietly_untouched)

text \<open>
  The contract of the two quiescing operations: whatever the kernel answers, the invariant holds
  and nothing but the device changes, and only a device that is closed is reported as drained.
\<close>

locale drainable =
  fixes d :: device and quiesce :: "env \<Rightarrow> (backend, int) state"
  assumes quiesce_spec: "backend_inv b \<Longrightarrow>
    wp (quiesce env) (\<lambda>r t. backend_inv t \<and> untouched d b t \<and> (r = 0 \<longrightarrow> closed d t)) b"
begin

text \<open>The common error exit of the activations.\<close>

lemma rollback:
  assumes "backend_inv t" and "untouched d b t"
  shows "wp (quiesce env) (\<lambda>r. activate_post b d
     (if r \<noteq> 0 then HYPER_IO_QUIESCENCE_FAILED else HYPER_IO_BACKEND_FAILURE)) t"
  using quiesce_spec [OF assms(1)]
  by (rule wp_mono) (use assms(2) in \<open>auto simp: activate_post_def elim: untouched_trans\<close>)

end

text \<open>The contract of the two activations.\<close>

locale activatable =
  fixes d :: device and activate :: "env \<Rightarrow> hyper_io_activate \<Rightarrow> (backend, u32) state"
  assumes activate_spec: "backend_inv b \<Longrightarrow> wp (activate env m) (activate_post b d) b"
begin

lemma activate_inv: "backend_inv b \<Longrightarrow> wp (activate env m) (\<lambda>_. backend_inv) b"
  by (rule wp_mono [OF activate_spec]) (simp_all add: activate_post_def)

end

end
