(* ===== verification/Vhost.thy ===== *)
theory Vhost
  imports Retirement
begin

text \<open>
  \<open>service/vhost.c\<close>: configuration and teardown of one vhost endpoint. Validation of the ring
  addresses is separated from the system calls, as in the source: nothing is opened before every
  ring has been checked.
\<close>

section \<open>Operations\<close>

definition backend_error :: "(backend, unit) state" where
  "backend_error = diagnostic"

definition vhost_ioctl :: "env \<Rightarrow> device \<Rightarrow> ioctl \<Rightarrow> (backend, bool) state" where
  "vhost_ioctl env d request = do {
     b \<leftarrow> State_Monad.get;
     a \<leftarrow> call env (Ioctl (ep_fd (endpoint_of d b)) request);
     if ret a = 0 then State_Monad.return True
     else do { backend_error; State_Monad.return False } }"

text \<open>A chain \<open>vhost_ioctl(..) || vhost_ioctl(..) || ..\<close> stops at the first failure.\<close>

primrec vhost_ioctls :: "env \<Rightarrow> device \<Rightarrow> ioctl list \<Rightarrow> (backend, bool) state" where
  "vhost_ioctls env d [] = State_Monad.return True"
| "vhost_ioctls env d (r # rs) = do {
     ok \<leftarrow> vhost_ioctl env d r;
     if ok then vhost_ioctls env d rs else State_Monad.return False }"

definition endpoint_init :: "endpoint \<Rightarrow> endpoint" where
  "endpoint_init e = e\<lparr>ep_notification := - 1, ep_fd := - 1,
     ep_kick := replicate HYPER_IO_QUEUES (- 1), ep_call := replicate HYPER_IO_QUEUES (- 1)\<rparr>"

definition close_eventfd :: "env \<Rightarrow> device \<Rightarrow> nat \<Rightarrow> (backend, unit) state" where
  "close_eventfd env d i = do {
     b \<leftarrow> State_Monad.get;
     let e = endpoint_of d b;
     (if 0 \<le> ep_kick e ! i then do { call env (Close (ep_kick e ! i)); State_Monad.return () }
      else State_Monad.return ());
     (if 0 \<le> ep_call e ! i then do { call env (Close (ep_call e ! i)); State_Monad.return () }
      else State_Monad.return ());
     modify_endpoint d (\<lambda>e. e\<lparr>ep_kick := (ep_kick e)[i := - 1], ep_call := (ep_call e)[i := - 1]\<rparr>) }"

definition endpoint_close :: "env \<Rightarrow> device \<Rightarrow> (backend, int) state" where
  "endpoint_close env d = do {
     b \<leftarrow> State_Monad.get;
     let e = endpoint_of d b;
     (if 0 \<le> ep_fd e then do {
        call env (Close (ep_fd e));
        modify_endpoint d (\<lambda>e. e\<lparr>ep_fd := - 1\<rparr>) }
      else State_Monad.return ());
     unbound \<leftarrow> (if ep_bound e then do {
        a \<leftarrow> call env (Ioctl (ep_notification e) HYPER_IO_UNBIND);
        if ret a \<noteq> 0 then State_Monad.return False
        else do { modify_endpoint d (\<lambda>e. e\<lparr>ep_bound := False\<rparr>); State_Monad.return True } }
      else State_Monad.return True);
     if \<not> unbound then State_Monad.return (- 1)
     else do { for_each (close_eventfd env d) [0..<HYPER_IO_QUEUES]; State_Monad.return 0 } }"

definition quiesce_disk :: "env \<Rightarrow> (backend, int) state" where
  "quiesce_disk env = do {
     b \<leftarrow> State_Monad.get;
     drained \<leftarrow> (if ep_attached (disk b) then do {
        a \<leftarrow> call env (Ioctl (ep_fd (disk b)) (VHOST_SCSI_CLEAR_ENDPOINT (target b)));
        if ret a \<noteq> 0 then State_Monad.return False
        else do { modify_endpoint Disk (\<lambda>e. e\<lparr>ep_attached := False\<rparr>); State_Monad.return True } }
      else State_Monad.return True);
     if \<not> drained then State_Monad.return (- 1) else endpoint_close env Disk }"

definition queue_address :: "backend \<Rightarrow> u64 \<Rightarrow> u64 \<Rightarrow> u64 \<Rightarrow> u64 option" where
  "queue_address b gpa bytes alignment =
     (if gpa < mi_guest_base (region b) \<or> gpa mod alignment \<noteq> 0 \<or>
         bytes > mi_length (region b) \<or>
         gpa - mi_guest_base (region b) > mi_length (region b) - bytes
      then None
      else Some (memory b + (gpa - mi_guest_base (region b))))"

text \<open>
  The validation loop of \<open>configure_vhost\<close>. The arrays \<open>starts\<close> and \<open>ends\<close> are the list of
  extents found so far, three per queue; an absent queue leaves its three entries zero.
\<close>

fun check_parts ::
    "backend \<Rightarrow> (u64 \<times> u64) list \<Rightarrow> (u64 \<times> u64 \<times> u64) list \<Rightarrow> (u64 \<times> u64) list option" where
  "check_parts b acc [] = Some acc"
| "check_parts b acc ((address, bytes, alignment) # parts) =
     (case queue_address b address bytes alignment of
        None \<Rightarrow> None
      | Some start \<Rightarrow>
          (let finish = start + bytes
           in if list_ex (\<lambda>(old_start, old_end). start < old_end \<and> old_start < finish) acc then None
              else check_parts b (acc @ [(start, finish)]) parts))"

definition queue_parts :: "hyper_io_queue \<Rightarrow> (u64 \<times> u64 \<times> u64) list" where
  "queue_parts q =
     [(q_descriptor q, 16 * ucast (q_size q), 16),
      (q_available q, 6 + 2 * ucast (q_size q), 2),
      (q_used q, 6 + 8 * ucast (q_size q), 4)]"

definition queue_absent :: "hyper_io_queue \<Rightarrow> bool" where
  "queue_absent q \<longleftrightarrow> q_size q = 0 \<and> q_reserved q = 0 \<and>
     q_descriptor q = 0 \<and> q_available q = 0 \<and> q_used q = 0"

fun check_queues ::
    "backend \<Rightarrow> nat \<Rightarrow> nat \<Rightarrow> (u64 \<times> u64) list \<Rightarrow> hyper_io_queue list \<Rightarrow> (u64 \<times> u64) list option" where
  "check_queues b required i acc [] = Some acc"
| "check_queues b required i acc (q # qs) =
     (if required \<le> i \<and> queue_absent q
      then check_queues b required (Suc i) (acc @ [(0, 0), (0, 0), (0, 0)]) qs
      else if q_size q = 0 \<or> q_size q > 128 \<or> q_size q AND (q_size q - 1) \<noteq> 0 \<or> q_reserved q \<noteq> 0
      then None
      else (case check_parts b acc (queue_parts q) of
              None \<Rightarrow> None
            | Some acc' \<Rightarrow> check_queues b required (Suc i) acc' qs))"

text \<open>Ring setup of queue \<open>i\<close>: \<open>Some status\<close> is an early return of \<open>configure_vhost\<close>.\<close>

definition configure_queue ::
    "env \<Rightarrow> device \<Rightarrow> hyper_io_queue list \<Rightarrow> (u64 \<times> u64) list \<Rightarrow> nat \<Rightarrow> (backend, u32 option) state" where
  "configure_queue env d queues extents i =
     (let q = queues ! i in
      if q_size q = 0 then State_Monad.return None
      else do {
        ok \<leftarrow> vhost_ioctls env d
          [VHOST_SET_VRING_NUM i (q_size q),
           VHOST_SET_VRING_ADDR i (fst (extents ! (i * 3))) (fst (extents ! (i * 3 + 1)))
             (fst (extents ! (i * 3 + 2))),
           VHOST_SET_VRING_BASE i 0];
        if \<not> ok then State_Monad.return (Some HYPER_IO_BACKEND_FAILURE)
        else do {
          k \<leftarrow> call env Eventfd;
          modify_endpoint d (\<lambda>e. e\<lparr>ep_kick := (ep_kick e)[i := ret k]\<rparr>);
          if ret k < 0 then do { backend_error; State_Monad.return (Some HYPER_IO_BACKEND_FAILURE) }
          else do {
            c \<leftarrow> call env Eventfd;
            modify_endpoint d (\<lambda>e. e\<lparr>ep_call := (ep_call e)[i := ret c]\<rparr>);
            if ret c < 0 then do { backend_error; State_Monad.return (Some HYPER_IO_BACKEND_FAILURE) }
            else do {
              ok \<leftarrow> vhost_ioctls env d [VHOST_SET_VRING_KICK i (ret k), VHOST_SET_VRING_CALL i (ret c)];
              State_Monad.return (if ok then None else Some HYPER_IO_BACKEND_FAILURE) } } } })"

text \<open>The eventfd table handed to \<open>HYPER_IO_BIND\<close>: the pairs of the queues configured above.\<close>

definition bind_table :: "u32 \<Rightarrow> hyper_io_queue list \<Rightarrow> nat \<Rightarrow> endpoint \<Rightarrow> hyper_io_eventfds" where
  "bind_table epoch queues count e = \<lparr>ef_epoch = epoch, ef_reserved = 0,
     ef_kick = map (\<lambda>i. if i < count \<and> q_size (queues ! i) \<noteq> 0 then ep_kick e ! i else - 1) [0..<HYPER_IO_QUEUES],
     ef_call = map (\<lambda>i. if i < count \<and> q_size (queues ! i) \<noteq> 0 then ep_call e ! i else - 1) [0..<HYPER_IO_QUEUES]\<rparr>"

definition configure_vhost ::
    "env \<Rightarrow> device \<Rightarrow> string \<Rightarrow> u32 \<Rightarrow> u64 \<Rightarrow> hyper_io_queue list \<Rightarrow> nat \<Rightarrow> nat \<Rightarrow> (backend, u32) state" where
  "configure_vhost env d path epoch features queues count required = do {
     b \<leftarrow> State_Monad.get;
     let e = endpoint_of d b;
     if 0 \<le> ep_fd e \<or> ep_bound e \<or> ep_attached e then State_Monad.return HYPER_IO_BUSY
     else if memory b = MAP_FAILED \<or> mi_length (region b) = 0 \<or> ep_notification e < 0 \<or>
             epoch = 0 \<or> count > HYPER_IO_QUEUES then State_Monad.return HYPER_IO_INVALID
     else (case check_queues b required 0 [] (take count queues) of
       None \<Rightarrow> State_Monad.return HYPER_IO_INVALID
     | Some extents \<Rightarrow> do {
         f \<leftarrow> call env (Open path [O_RDWR, O_CLOEXEC]);
         modify_endpoint d (\<lambda>e. e\<lparr>ep_fd := ret f\<rparr>);
         if ret f < 0 then do { backend_error; State_Monad.return HYPER_IO_BACKEND_FAILURE }
         else do {
           ok \<leftarrow> vhost_ioctls env d
             ((if d = Disk then [HYPER_VHOST_SCSI_SET_RESOURCES (request_queues (scsi b)) (sg_prealloc (scsi b))]
               else []) @
              [VHOST_SET_OWNER, VHOST_SET_FEATURES features,
               VHOST_SET_MEM_TABLE (mi_guest_base (region b)) (mi_length (region b)) (memory b)]);
           if \<not> ok then State_Monad.return HYPER_IO_BACKEND_FAILURE
           else do {
             r \<leftarrow> for_return (configure_queue env d queues extents) [0..<count];
             (case r of
                Some status \<Rightarrow> State_Monad.return status
              | None \<Rightarrow> do {
                  b \<leftarrow> State_Monad.get;
                  let e = endpoint_of d b;
                  a \<leftarrow> call env (Ioctl (ep_notification e) (HYPER_IO_BIND (bind_table epoch queues count e)));
                  if ret a \<noteq> 0 then do { backend_error; State_Monad.return HYPER_IO_BACKEND_FAILURE }
                  else do {
                    modify_endpoint d (\<lambda>e. e\<lparr>ep_bound := True\<rparr>);
                    State_Monad.return HYPER_IO_OK } }) } } }) }"

text \<open>\<open>block_target_ready\<close> of \<open>service/block-target.c\<close>: the published LUN link exists.\<close>

definition lun_path :: "string \<Rightarrow> string" where
  "lun_path wwpn = ''/sys/kernel/config/target/vhost/'' @ wwpn @ ''/tpgt_1/lun/lun_0/disk''"

definition block_target_ready :: "env \<Rightarrow> (backend, bool) state" where
  "block_target_ready env = do {
     b \<leftarrow> State_Monad.get;
     if target b = [] then State_Monad.return False
     else do {
       a \<leftarrow> call env (Access (lun_path (target b)));
       State_Monad.return (ret a = 0) } }"

text \<open>The tail of \<open>activate_disk\<close>: what it does with the status of \<open>configure_vhost\<close>.\<close>

definition attach_disk :: "env \<Rightarrow> u32 \<Rightarrow> (backend, u32) state" where
  "attach_disk env status =
     (if status = HYPER_IO_BUSY \<or> status = HYPER_IO_INVALID then State_Monad.return status
      else do {
        attached \<leftarrow> (if status = HYPER_IO_OK then do {
            b \<leftarrow> State_Monad.get;
            a \<leftarrow> call env (Ioctl (ep_fd (disk b)) (VHOST_SCSI_SET_ENDPOINT (target b)));
            State_Monad.return (ret a = 0) }
          else State_Monad.return False);
        if attached then do {
          modify_endpoint Disk (\<lambda>e. e\<lparr>ep_attached := True\<rparr>);
          State_Monad.return HYPER_IO_OK }
        else do {
          r \<leftarrow> quiesce_disk env;
          State_Monad.return (if r \<noteq> 0 then HYPER_IO_QUIESCENCE_FAILED else HYPER_IO_BACKEND_FAILURE) } })"

definition activate_disk :: "env \<Rightarrow> hyper_io_activate \<Rightarrow> (backend, u32) state" where
  "activate_disk env m = do {
     b \<leftarrow> State_Monad.get;
     if target b = [] then State_Monad.return HYPER_IO_UNSUPPORTED
     else do {
       ready \<leftarrow> block_target_ready env;
       if \<not> ready then State_Monad.return HYPER_IO_BUSY
       else if a_features m \<noteq> VERSION_1 then State_Monad.return HYPER_IO_INVALID
       else if list_ex (\<lambda>i. a_queues m ! i \<noteq> zero_queue)
                 [unat (request_queues (scsi b) + 2)..<HYPER_IO_QUEUES]
       then State_Monad.return HYPER_IO_INVALID
       else do {
         status \<leftarrow> configure_vhost env Disk ''/dev/vhost-scsi'' (ucast (h_epoch (a_header m)))
           VERSION_1 (a_queues m) (unat (request_queues (scsi b) + 2)) 3;
         attach_disk env status } } }"

section \<open>Behaviour of the call chains\<close>

lemma vhost_ioctls_quietly:
  "list_all quiet_ioctl rs \<Longrightarrow> quietly b t \<Longrightarrow> wp (vhost_ioctls env d rs) (\<lambda>_. quietly b) t"
  by (induction rs arbitrary: t) (simp_all add: vhost_ioctl_def backend_error_def wp_rules)

lemma wp_vhost_ioctls:
  assumes "list_all quiet_ioctl rs" and "\<And>r t. quietly b t \<Longrightarrow> Q r t"
  shows "wp (vhost_ioctls env d rs) Q b"
  using vhost_ioctls_quietly [OF assms(1) quietly_refl] by (rule wp_mono) (rule assms(2))

section \<open>Closing an endpoint\<close>

text \<open>
  While an endpoint is torn down, everything else stays as it was in the state \<open>b\<close> in which the
  teardown began, and the endpoint only loses resources.
\<close>

definition draining :: "backend \<Rightarrow> device \<Rightarrow> backend \<Rightarrow> bool" where
  "draining b d t \<longleftrightarrow> backend_inv t \<and> untouched d b t \<and> tap t = tap b \<and> \<not> ep_attached (endpoint_of d t)"

definition ep_shrinks :: "endpoint \<Rightarrow> endpoint \<Rightarrow> bool" where
  "ep_shrinks e e' \<longleftrightarrow> ep_notification e' = ep_notification e \<and> \<not> ep_attached e' \<and>
     (ep_wf e \<longrightarrow> ep_wf e') \<and> (ep_closed e \<longrightarrow> ep_closed e')"

lemma draining_called [simp]: "quiet c \<Longrightarrow> draining b d (called env c t) \<longleftrightarrow> draining b d t"
  by (simp add: draining_def)

lemma draining_set_endpoint:
  assumes "draining b d t" and "ep_shrinks (endpoint_of d t) e"
  shows "draining b d (set_endpoint d e t)"
proof -
  have inv: "backend_inv t" using assms(1) by (simp add: draining_def)
  have "backend_inv (set_endpoint d e t)"
  proof (rule backend_inv_set_endpoint [OF inv])
    show "memory t = MAP_FAILED \<longrightarrow> ep_closed e"
      using backend_inv_closed [OF inv, of d] assms(2) by (simp add: closed_def ep_shrinks_def)
    show "ep_wf e" using backend_inv_wf [OF inv, of d] assms(2) by (simp add: ep_shrinks_def)
    show "ep_attached (endpoint_of d t) \<longrightarrow> ep_attached e" using assms(1) by (simp add: draining_def)
  qed
  moreover have "untouched d b (set_endpoint d e t)"
    using assms by (intro untouched_set_endpoint) (simp_all add: draining_def ep_shrinks_def untouched_def)
  ultimately show ?thesis using assms by (simp add: draining_def ep_shrinks_def)
qed

lemma ep_shrinks_intros [simp]:
  "\<not> ep_attached e \<Longrightarrow> f < 0 \<Longrightarrow> ep_shrinks e (e\<lparr>ep_fd := f\<rparr>)"
  "\<not> ep_attached e \<Longrightarrow> ep_shrinks e (e\<lparr>ep_bound := False\<rparr>)"
  "\<not> ep_attached e \<Longrightarrow> i < HYPER_IO_QUEUES \<Longrightarrow>
     ep_shrinks e (e\<lparr>ep_kick := (ep_kick e)[i := - 1], ep_call := (ep_call e)[i := - 1]\<rparr>)"
  by (auto simp: ep_shrinks_def ep_wf_def ep_closed_def list_update_same_conv)

lemma draining_attached: "draining b d t \<Longrightarrow> \<not> ep_attached (endpoint_of d t)"
  by (simp add: draining_def)

text \<open>The endpoint after the loop over its first \<open>i\<close> queues.\<close>

definition closing :: "backend \<Rightarrow> device \<Rightarrow> nat \<Rightarrow> backend \<Rightarrow> bool" where
  "closing b d i t \<longleftrightarrow> draining b d t \<and> ep_fd (endpoint_of d t) < 0 \<and> \<not> ep_bound (endpoint_of d t) \<and>
     (\<forall>j<i. ep_kick (endpoint_of d t) ! j = - 1 \<and> ep_call (endpoint_of d t) ! j = - 1)"

lemma closing_step:
  assumes "closing b d i t" and "i < HYPER_IO_QUEUES"
  shows "wp (close_eventfd env d i) (\<lambda>_. closing b d (Suc i)) t"
proof -
  let ?e = "endpoint_of d t"
  let ?e' = "?e\<lparr>ep_kick := (ep_kick ?e)[i := - 1], ep_call := (ep_call ?e)[i := - 1]\<rparr>"
  have dr: "draining b d t" and wf: "ep_wf ?e"
    using assms(1) by (auto simp: closing_def draining_def backend_inv_wf)
  have cleared: "(ep_kick ?e)[i := - 1] ! j = - 1 \<and> (ep_call ?e)[i := - 1] ! j = - 1" if "j < Suc i" for j
    using that assms wf by (auto simp: closing_def ep_wf_def nth_list_update less_Suc_eq)
  have "closing b d (Suc i) (set_endpoint d ?e' u)" if "draining b d u" "endpoint_of d u = ?e" for u
    using draining_set_endpoint [OF that(1), of ?e'] that assms cleared draining_attached [OF dr]
    by (simp add: closing_def)
  then show ?thesis using dr by (simp add: close_eventfd_def wp_rules Let_def)
qed

lemma closing_done: "closing b d HYPER_IO_QUEUES t \<Longrightarrow> ep_closed (endpoint_of d t)"
  using backend_inv_wf [of t d]
  by (auto simp: closing_def draining_def ep_closed_def ep_wf_def list_eq_iff_nth_eq)

lemma close_eventfds_spec:
  assumes "draining b d t" and "ep_fd (endpoint_of d t) < 0" and "\<not> ep_bound (endpoint_of d t)"
  shows "wp (for_each (close_eventfd env d) [0..<HYPER_IO_QUEUES])
     (\<lambda>_ u. draining b d u \<and> ep_closed (endpoint_of d u)) t"
proof -
  have "wp (for_each (close_eventfd env d) [0..<HYPER_IO_QUEUES]) (\<lambda>_. closing b d HYPER_IO_QUEUES) t"
    using assms by (intro wp_for_each_upt) (simp_all add: closing_step, simp add: closing_def)
  then show ?thesis by (rule wp_mono) (auto simp: closing_done closing_def)
qed

lemma endpoint_close_spec:
  assumes "backend_inv b" and "\<not> ep_attached (endpoint_of d b)"
  shows "wp (endpoint_close env d) (\<lambda>r t. draining b d t \<and> (r = 0 \<longrightarrow> ep_closed (endpoint_of d t))) b"
proof -
  have dr: "draining b d b" using assms by (simp add: draining_def)
  have fd: "draining b d (set_endpoint d (endpoint_of d b\<lparr>ep_fd := - 1\<rparr>) (called env c b))" if "quiet c" for c
    using that dr by (intro draining_set_endpoint) (simp_all add: assms)
  have bd: "draining b d (set_endpoint d (e\<lparr>ep_bound := False\<rparr>) t)"
    if "draining b d t" "e = endpoint_of d t" for e t
    using that draining_attached [OF that(1)] by (intro draining_set_endpoint) simp_all
  show ?thesis
    unfolding endpoint_close_def
    by (auto simp: wp_rules Let_def dr fd bd assms intro!: close_eventfds_spec)
qed

section \<open>Draining the storage endpoint\<close>

lemma drained_disk_inv:
  assumes "backend_inv b" and "ep_attached (disk b)"
    and "ret (env (events b) (Ioctl n (VHOST_SCSI_CLEAR_ENDPOINT w))) = 0"
  shows "backend_inv (set_endpoint Disk (disk b\<lparr>ep_attached := False\<rparr>)
     (called env (Ioctl n (VHOST_SCSI_CLEAR_ENDPOINT w)) b))"
  using assms
  by (auto simp: backend_inv_def linked_def safe_snoc closed_def ep_closed_def ep_wf_def endpoint_of_def)

lemma quiesce_disk_spec:
  assumes "backend_inv b"
  shows "wp (quiesce_disk env) (\<lambda>r t. backend_inv t \<and> untouched Disk b t \<and> (r = 0 \<longrightarrow> closed Disk t)) b"
proof (cases "ep_attached (disk b)")
  case False
  have "wp (endpoint_close env Disk) (\<lambda>r t. draining b Disk t \<and> (r = 0 \<longrightarrow> ep_closed (endpoint_of Disk t))) b"
    using assms False by (intro endpoint_close_spec) (simp_all add: endpoint_of_Disk)
  then have "wp (endpoint_close env Disk)
      (\<lambda>r t. backend_inv t \<and> untouched Disk b t \<and> (r = 0 \<longrightarrow> closed Disk t)) b"
    by (rule wp_mono) (auto simp: draining_def closed_def)
  with False show ?thesis by (simp add: quiesce_disk_def wp_rules)
next
  case True
  let ?c = "Ioctl (ep_fd (disk b)) (VHOST_SCSI_CLEAR_ENDPOINT (target b))"
  let ?t = "set_endpoint Disk (disk b\<lparr>ep_attached := False\<rparr>) (called env ?c b)"
  have fail: "backend_inv (called env ?c b)" if "ret (env (events b) ?c) \<noteq> 0"
    using assms that by (auto simp: backend_inv_def linked_def safe_snoc closed_def)
  have "wp (endpoint_close env Disk) (\<lambda>r t. backend_inv t \<and> untouched Disk b t \<and> (r = 0 \<longrightarrow> closed Disk t)) ?t"
    if ok: "ret (env (events b) ?c) = 0"
  proof -
    have "wp (endpoint_close env Disk)
        (\<lambda>r t. draining ?t Disk t \<and> (r = 0 \<longrightarrow> ep_closed (endpoint_of Disk t))) ?t"
      by (intro endpoint_close_spec drained_disk_inv assms True ok) simp
    moreover have "untouched Disk b ?t"
      by (rule untouched_set_endpoint) (simp_all add: endpoint_of_Disk)
    ultimately have "wp (endpoint_close env Disk) (\<lambda>r t. draining ?t Disk t \<and>
        (r = 0 \<longrightarrow> ep_closed (endpoint_of Disk t))) ?t" "untouched Disk b ?t" by blast+
    then show ?thesis
      by (elim wp_mono) (auto simp: draining_def closed_def elim: untouched_trans)
  qed
  with True fail show ?thesis
    by (simp add: quiesce_disk_def wp_rules endpoint_of_Disk)
qed

interpretation disk_drain: drainable Disk quiesce_disk
  by unfold_locales (rule quiesce_disk_spec)

section \<open>Accepted rings\<close>

text \<open>
  The guest buffer a ring part occupies, and the layout \<open>check_queues\<close> accepts: every part lies in
  the granted region at its alignment, and no two parts overlap.
\<close>

definition part_in_region :: "backend \<Rightarrow> u64 \<times> u64 \<times> u64 \<Rightarrow> bool" where
  "part_in_region b p = (case p of (gpa, bytes, alignment) \<Rightarrow>
     unat (mi_guest_base (region b)) \<le> unat gpa \<and>
     unat gpa + unat bytes \<le> unat (mi_guest_base (region b)) + unat (mi_length (region b)) \<and>
     unat alignment dvd unat gpa)"

lemma queue_address_Some:
  "queue_address b gpa bytes alignment = Some a \<longleftrightarrow>
     part_in_region b (gpa, bytes, alignment) \<and> a = memory b + (gpa - mi_guest_base (region b))"
proof -
  let ?g = "mi_guest_base (region b)" and ?l = "mi_length (region b)"
  have al: "gpa mod alignment = 0 \<longleftrightarrow> unat alignment dvd unat gpa"
    by (simp only: word_unat_eq_iff unat_mod_distrib dvd_eq_mod_eq_0 unsigned_0)
  have sub: "?g \<le> gpa \<Longrightarrow> unat (gpa - ?g) = unat gpa - unat ?g"
    "bytes \<le> ?l \<Longrightarrow> unat (?l - bytes) = unat ?l - unat bytes"
    by (simp_all add: unat_sub)
  have rng: "(\<not> gpa < ?g \<and> \<not> bytes > ?l \<and> \<not> gpa - ?g > ?l - bytes) \<longleftrightarrow>
      unat ?g \<le> unat gpa \<and> unat gpa + unat bytes \<le> unat ?g + unat ?l"
    using sub by (auto simp: not_less word_le_nat_alt word_less_nat_alt)
  have "(gpa < ?g \<or> gpa mod alignment \<noteq> 0 \<or> bytes > ?l \<or> gpa - ?g > ?l - bytes) \<longleftrightarrow>
      \<not> part_in_region b (gpa, bytes, alignment)"
    using rng al by (simp only: part_in_region_def prod.case) blast
  then have "queue_address b gpa bytes alignment =
      (if part_in_region b (gpa, bytes, alignment) then Some (memory b + (gpa - ?g)) else None)"
    by (simp only: queue_address_def if_not_P if_P split: if_split) simp
  then show ?thesis by auto
qed


text \<open>The user address extent of a part, as the validation loop computes it.\<close>

definition part_extent :: "backend \<Rightarrow> u64 \<times> u64 \<times> u64 \<Rightarrow> u64 \<times> u64" where
  "part_extent b p = (case p of (gpa, bytes, alignment) \<Rightarrow>
     (memory b + (gpa - mi_guest_base (region b)), memory b + (gpa - mi_guest_base (region b)) + bytes))"

definition part_span :: "u64 \<times> u64 \<times> u64 \<Rightarrow> nat set" where
  "part_span p = (case p of (gpa, bytes, alignment) \<Rightarrow> {unat gpa..<unat gpa + unat bytes})"

definition extents_overlap :: "u64 \<times> u64 \<Rightarrow> u64 \<times> u64 \<Rightarrow> bool" where
  "extents_overlap x y \<longleftrightarrow> fst y < snd x \<and> fst x < snd y"

lemma check_parts_Cons:
  "check_parts b acc (p # parts) =
     (if part_in_region b p \<and> (\<forall>x\<in>set acc. \<not> extents_overlap x (part_extent b p))
      then check_parts b (acc @ [part_extent b p]) parts else None)"
proof -
  obtain gpa len al where p: "p = (gpa, len, al)" by (cases p)
  define start where "start = memory b + (gpa - mi_guest_base (region b))"
  have e: "part_extent b p = (start, start + len)" by (simp add: p part_extent_def start_def)
  have q: "queue_address b gpa len al = (if part_in_region b p then Some start else None)"
    using queue_address_Some [of b gpa len al] unfolding p start_def
    by (cases "queue_address b gpa len al") auto
  have "list_ex (\<lambda>(os, oe). start < oe \<and> os < start + len) acc \<longleftrightarrow>
      \<not> (\<forall>x\<in>set acc. \<not> extents_overlap x (start, start + len))"
    by (auto simp: list_ex_iff extents_overlap_def case_prod_beta)
  then show ?thesis by (simp add: p q e [unfolded p] Let_def del: not_all)
qed

declare check_parts.simps(2) [simp del]

lemma check_parts_iff:
  "check_parts b acc parts = Some acc' \<longleftrightarrow>
     (\<forall>p\<in>set parts. part_in_region b p) \<and> acc' = acc @ map (part_extent b) parts \<and>
     sorted_wrt (\<lambda>x y. \<not> extents_overlap x y) (map (part_extent b) parts) \<and>
     (\<forall>x\<in>set acc. \<forall>p\<in>set parts. \<not> extents_overlap x (part_extent b p))"
  by (induction parts arbitrary: acc) (auto simp: check_parts_Cons)

text \<open>The part lists of the queues, with the zero entries of an absent queue.\<close>

definition queue_extents :: "backend \<Rightarrow> hyper_io_queue \<Rightarrow> (u64 \<times> u64) list" where
  "queue_extents b q =
     (if q_size q = 0 then [(0, 0), (0, 0), (0, 0)] else map (part_extent b) (queue_parts q))"

definition queue_ok :: "backend \<Rightarrow> nat \<Rightarrow> nat \<Rightarrow> hyper_io_queue \<Rightarrow> bool" where
  "queue_ok b required i q \<longleftrightarrow>
     (if q_size q = 0 then required \<le> i \<and> queue_absent q
      else unat (q_size q) \<le> 128 \<and> (\<exists>k. unat (q_size q) = 2 ^ k) \<and> q_reserved q = 0 \<and>
           (\<forall>p\<in>set (queue_parts q). part_in_region b p))"

definition live_parts :: "hyper_io_queue list \<Rightarrow> (u64 \<times> u64 \<times> u64) list" where
  "live_parts qs = concat (map queue_parts (filter (\<lambda>q. q_size q \<noteq> 0) qs))"

lemma live_parts_simps [simp]:
  "live_parts [] = []"
  "live_parts (q # qs) = (if q_size q = 0 then live_parts qs else queue_parts q @ live_parts qs)"
  by (simp_all add: live_parts_def)

lemma no_overlap_empty [simp]: "\<not> extents_overlap (0, 0) y" "\<not> extents_overlap x (0, 0)"
  by (simp_all add: extents_overlap_def)

lemma check_queues_Cons:
  "check_queues b required i acc (q # qs) =
     (if queue_ok b required i q \<and>
         sorted_wrt (\<lambda>x y. \<not> extents_overlap x y) (queue_extents b q) \<and>
         (\<forall>x\<in>set acc. \<forall>y\<in>set (queue_extents b q). \<not> extents_overlap x y)
      then check_queues b required (Suc i) (acc @ queue_extents b q) qs else None)"
proof (cases "q_size q = 0")
  case True
  then show ?thesis by (simp add: queue_ok_def queue_extents_def)
next
  case False
  then have "q_size q AND (q_size q - 1) = 0 \<longleftrightarrow> (\<exists>k. unat (q_size q) = 2 ^ k)"
    by (rule and_pred_zero_iff)
  moreover have "\<not> q_size q > 128 \<longleftrightarrow> unat (q_size q) \<le> 128"
    by (simp add: not_less word_le_nat_alt)
  moreover have "\<not> queue_absent q" using False by (simp add: queue_absent_def)
  moreover have "check_parts b acc (queue_parts q) =
      (if (\<forall>p\<in>set (queue_parts q). part_in_region b p) \<and>
          sorted_wrt (\<lambda>x y. \<not> extents_overlap x y) (queue_extents b q) \<and>
          (\<forall>x\<in>set acc. \<forall>y\<in>set (queue_extents b q). \<not> extents_overlap x y)
       then Some (acc @ queue_extents b q) else None)"
    using check_parts_iff [of b acc "queue_parts q"] False
    by (cases "check_parts b acc (queue_parts q)") (auto simp: queue_extents_def)
  ultimately show ?thesis using False by (auto simp: queue_ok_def)
qed

lemma check_queues_iff:
  "check_queues b required i acc qs = Some ext \<longleftrightarrow>
     (\<forall>j<length qs. queue_ok b required (i + j) (qs ! j)) \<and>
     ext = acc @ concat (map (queue_extents b) qs) \<and>
     sorted_wrt (\<lambda>x y. \<not> extents_overlap x y) (map (part_extent b) (live_parts qs)) \<and>
     (\<forall>x\<in>set acc. \<forall>p\<in>set (live_parts qs). \<not> extents_overlap x (part_extent b p))"
proof (induction qs arbitrary: i acc)
  case (Cons q qs)
  have all: "(\<forall>j<length (q # qs). queue_ok b required (i + j) ((q # qs) ! j)) \<longleftrightarrow>
      queue_ok b required i q \<and> (\<forall>j<length qs. queue_ok b required (Suc i + j) (qs ! j))"
    by (auto simp: less_Suc_eq_0_disj)
  show ?case
    unfolding check_queues_Cons all
    by (simp add: Cons.IH sorted_wrt_append ball_Un del: check_queues.simps) (auto simp: queue_extents_def)
qed auto

lemma queue_parts_nonempty: "p \<in> set (live_parts qs) \<Longrightarrow>
    (\<And>q. q \<in> set qs \<Longrightarrow> unat (q_size q) \<le> 128) \<Longrightarrow> part_span p \<noteq> {}"
proof -
  assume "p \<in> set (live_parts qs)" and small: "\<And>q. q \<in> set qs \<Longrightarrow> unat (q_size q) \<le> 128"
  then obtain q where q: "q \<in> set qs" "q_size q \<noteq> 0" "p \<in> set (queue_parts q)"
    by (auto simp: live_parts_def)
  have "0 < unat (q_size q)" using q(2) by (simp add: unat_gt_0)
  then have "unat (16 * ucast (q_size q) :: u64) > 0"
    "unat (6 + 2 * ucast (q_size q) :: u64) > 0" "unat (6 + 8 * ucast (q_size q) :: u64) > 0"
    using small [OF q(1)] by (simp_all add: unat_add_le unat_mult_le)
  with q(3) show ?thesis by (auto simp: queue_parts_def part_span_def simp del: unat_gt_0)
qed

text \<open>
  Where the mapping does not wrap around the address space, the comparison of user addresses is
  exactly overlap of the guest buffers.
\<close>

lemma extents_overlap_iff:
  assumes "part_in_region b p" and "part_in_region b p'"
    and "part_span p \<noteq> {}" and "part_span p' \<noteq> {}"
    and "unat (memory b) + unat (mi_length (region b)) < 2 ^ 64"
  shows "extents_overlap (part_extent b p) (part_extent b p') \<longleftrightarrow> part_span p \<inter> part_span p' \<noteq> {}"
proof -
  let ?g = "mi_guest_base (region b)"
  have addr: "unat (memory b + (g - ?g)) + unat ?g = unat (memory b) + unat g \<and>
      unat (memory b + (g - ?g) + l) + unat ?g = unat (memory b) + unat g + unat l"
    if "part_in_region b (g, l, a)" for g l a
  proof -
    have h: "unat (g - ?g) = unat g - unat ?g" "unat ?g \<le> unat g"
      "unat g + unat l \<le> unat ?g + unat (mi_length (region b))"
      using that by (simp_all add: part_in_region_def unat_sub_le)
    then have "unat (memory b + (g - ?g)) = unat (memory b) + (unat g - unat ?g)"
      using assms(5) by (simp add: unat_add_le)
    moreover from this h have "unat (memory b + (g - ?g) + l) = unat (memory b) + (unat g - unat ?g) + unat l"
      using assms(5) by (subst unat_add_le) simp_all
    ultimately show ?thesis using h by simp
  qed
  obtain g l a g' l' a' where p: "p = (g, l, a)" "p' = (g', l', a')" by (cases p; cases p')
  have "extents_overlap (part_extent b p) (part_extent b p') \<longleftrightarrow>
      unat g < unat g' + unat l' \<and> unat g' < unat g + unat l"
    using addr [OF assms(1) [unfolded p]] addr [OF assms(2) [unfolded p]]
    by (auto simp: p extents_overlap_def part_extent_def word_less_nat_alt)
  also have "\<dots> \<longleftrightarrow> part_span p \<inter> part_span p' \<noteq> {}"
    using assms(3,4) by (simp only: p part_span_def prod.case) (rule interval_overlap_iff, auto)
  finally show ?thesis .
qed

text \<open>
  The validation loop as a whole accepts exactly the layouts in which every queue is well formed
  (or absent past the required ones) and no two parts of the rings share a byte.
\<close>

definition rings_ok :: "backend \<Rightarrow> nat \<Rightarrow> hyper_io_queue list \<Rightarrow> bool" where
  "rings_ok b required qs \<longleftrightarrow>
     (\<forall>j<length qs. queue_ok b required j (qs ! j)) \<and>
     sorted_wrt (\<lambda>p p'. part_span p \<inter> part_span p' = {}) (live_parts qs)"

lemma queues_ok_small:
  "\<forall>j<length qs. queue_ok b required j (qs ! j) \<Longrightarrow> q \<in> set qs \<Longrightarrow> unat (q_size q) \<le> 128"
  by (auto simp: in_set_conv_nth queue_ok_def split: if_splits)

lemma queues_ok_parts:
  "\<forall>j<length qs. queue_ok b required j (qs ! j) \<Longrightarrow> p \<in> set (live_parts qs) \<Longrightarrow> part_in_region b p"
  by (fastforce simp: live_parts_def in_set_conv_nth [of _ qs] queue_ok_def split: if_splits)

lemma check_queues_rings_ok:
  assumes "unat (memory b) + unat (mi_length (region b)) < 2 ^ 64"
  shows "check_queues b required 0 [] qs =
     (if rings_ok b required qs then Some (concat (map (queue_extents b) qs)) else None)"
proof -
  have "sorted_wrt (\<lambda>x y. \<not> extents_overlap x y) (map (part_extent b) (live_parts qs)) \<longleftrightarrow>
      sorted_wrt (\<lambda>p p'. part_span p \<inter> part_span p' = {}) (live_parts qs)"
    if ok: "\<forall>j<length qs. queue_ok b required j (qs ! j)"
  proof -
    have ne: "part_span p \<noteq> {}" if "p \<in> set (live_parts qs)" for p
      using that queues_ok_small [OF ok] by (rule queue_parts_nonempty)
    have o: "\<not> extents_overlap (part_extent b p) (part_extent b p') \<longleftrightarrow> part_span p \<inter> part_span p' = {}"
      if "p \<in> set (live_parts qs)" "p' \<in> set (live_parts qs)" for p p'
      using extents_overlap_iff [OF _ _ ne ne assms] that queues_ok_parts [OF ok] by blast
    show ?thesis unfolding sorted_wrt_map
      by (intro iffI; erule sorted_wrt_mono_rel [rotated]; use o in blast)
  qed
  then have "check_queues b required 0 [] qs = Some ext \<longleftrightarrow>
      rings_ok b required qs \<and> ext = concat (map (queue_extents b) qs)" for ext
    by (auto simp: check_queues_iff rings_ok_def)
  then show ?thesis by (cases "check_queues b required 0 [] qs") auto
qed


section \<open>Configuring an endpoint\<close>

text \<open>A state on the way of \<open>configure_vhost\<close>, with the vhost file open.\<close>

definition configuring :: "backend \<Rightarrow> device \<Rightarrow> backend \<Rightarrow> bool" where
  "configuring b d t \<longleftrightarrow> draining b d t \<and> memory t \<noteq> MAP_FAILED \<and> 0 \<le> ep_fd (endpoint_of d t)"

lemma configuring_called [simp]: "quiet c \<Longrightarrow> configuring b d (called env c t) \<longleftrightarrow> configuring b d t"
  by (simp add: configuring_def)

lemma draining_diagnosed [simp]: "draining b d (diagnosed t) \<longleftrightarrow> draining b d t"
  by (simp add: draining_def)

lemma configuring_diagnosed [simp]: "configuring b d (diagnosed t) \<longleftrightarrow> configuring b d t"
  by (simp add: configuring_def)

lemma draining_quietly: "draining b d t \<Longrightarrow> quietly t u \<Longrightarrow> draining b d u"
  by (auto simp: draining_def quietly_endpoint intro: quietly_inv untouched_trans quietly_untouched)
     (simp add: quietly_def)

lemma configuring_quietly: "configuring b d t \<Longrightarrow> quietly t u \<Longrightarrow> configuring b d u"
  by (auto simp: configuring_def draining_quietly quietly_endpoint) (simp add: quietly_def shared_def)

lemma draining_open:
  assumes "draining b d t" and "memory t \<noteq> MAP_FAILED" and "ep_wf e" and "\<not> ep_attached e"
    and "ep_notification e = ep_notification (endpoint_of d b)"
  shows "draining b d (set_endpoint d e t)"
  using assms backend_inv_set_endpoint [of t e d] by (auto simp: draining_def)

lemma configuring_set_endpoint:
  assumes "configuring b d t" and "ep_wf e" and "\<not> ep_attached e" and "0 \<le> ep_fd e"
    and "ep_notification e = ep_notification (endpoint_of d t)"
  shows "configuring b d (set_endpoint d e t)"
  using assms draining_open [of b d t e] by (auto simp: configuring_def draining_def untouched_def)

lemma configuring_fields: "configuring b d t \<Longrightarrow>
    ep_wf (endpoint_of d t) \<and> \<not> ep_attached (endpoint_of d t) \<and> 0 \<le> ep_fd (endpoint_of d t)"
  by (simp add: configuring_def draining_def backend_inv_wf)

lemma ep_wf_eventfds [simp]:
  "ep_wf (e\<lparr>ep_kick := (ep_kick e)[i := k]\<rparr>) \<longleftrightarrow> ep_wf e"
  "ep_wf (e\<lparr>ep_call := (ep_call e)[i := k]\<rparr>) \<longleftrightarrow> ep_wf e"
  "ep_wf (e\<lparr>ep_kick := (ep_kick e)[i := k], ep_call := (ep_call e)[j := l]\<rparr>) \<longleftrightarrow> ep_wf e"
  by (simp_all add: ep_wf_def)

lemma wp_chain:
  assumes "list_all quiet_ioctl rs" and "configuring b d t" and "\<And>r u. configuring b d u \<Longrightarrow> Q r u"
  shows "wp (vhost_ioctls env d rs) Q t"
  using assms by (intro wp_vhost_ioctls) (auto intro: configuring_quietly)

lemma configure_queue_spec:
  assumes "configuring b d t"
  shows "wp (configure_queue env d qs ext i)
     (\<lambda>r u. configuring b d u \<and> (\<forall>s. r = Some s \<longrightarrow> s = HYPER_IO_BACKEND_FAILURE)) t"
proof -
  have step: "configuring b d (set_endpoint d e u)"
    if "configuring b d u" "ep_wf e" "ep_attached e = ep_attached (endpoint_of d u)"
      "ep_fd e = ep_fd (endpoint_of d u)" "ep_notification e = ep_notification (endpoint_of d u)" for e u
    using that configuring_fields [OF that(1)] by (intro configuring_set_endpoint) simp_all
  have wf: "configuring b d u \<Longrightarrow> ep_wf (endpoint_of d u)" for u by (simp add: configuring_fields)
  show ?thesis
    unfolding configure_queue_def Let_def backend_error_def
    by (auto simp: wp_rules assms wf simp del: vhost_ioctls.simps set_endpoint_twice
        intro!: wp_chain [where b = b] step split: if_split_asm)
qed

text \<open>
  \<open>configure_vhost\<close>: a rejected request changes nothing and makes no call; otherwise only this
  endpoint changes, and success leaves it open, bound and not yet attached.
\<close>

definition configure_post :: "backend \<Rightarrow> device \<Rightarrow> u32 \<Rightarrow> backend \<Rightarrow> bool" where
  "configure_post b d r t \<longleftrightarrow>
     (if r = HYPER_IO_BUSY \<or> r = HYPER_IO_INVALID then t = b
      else draining b d t \<and> r \<in> {HYPER_IO_OK, HYPER_IO_BACKEND_FAILURE} \<and>
        (r = HYPER_IO_OK \<longrightarrow> configuring b d t \<and> ep_bound (endpoint_of d t)))"

lemma configuring_draining: "configuring b d t \<Longrightarrow> draining b d t"
  by (simp add: configuring_def)

lemma configure_queues_spec:
  assumes "configuring b d t"
  shows "wp (for_return (configure_queue env d qs ext) [0..<count])
     (\<lambda>r u. configuring b d u \<and> (\<forall>s. r = Some s \<longrightarrow> s = HYPER_IO_BACKEND_FAILURE)) t"
  using assms by (intro wp_for_return configure_queue_spec) simp_all

lemma configure_queues_chain:
  assumes "configuring b d t" and "\<And>u. configuring b d u \<Longrightarrow> Q None u"
    and "\<And>u. configuring b d u \<Longrightarrow> Q (Some HYPER_IO_BACKEND_FAILURE) u"
  shows "wp (for_return (configure_queue env d qs ext) [0..<count]) Q t"
  using configure_queues_spec [OF assms(1)]
proof (rule wp_mono)
  fix r u assume "configuring b d u \<and> (\<forall>s. r = Some s \<longrightarrow> s = HYPER_IO_BACKEND_FAILURE)"
  with assms(2,3) show "Q r u" by (cases r) auto
qed

lemma bound_configuring:
  assumes "configuring b d t"
  shows "configure_post b d HYPER_IO_OK
    (set_endpoint d (endpoint_of d t\<lparr>ep_bound := True\<rparr>) (called env (Ioctl n (HYPER_IO_BIND f)) t))"
proof -
  have "configuring b d
      (set_endpoint d (endpoint_of d t\<lparr>ep_bound := True\<rparr>) (called env (Ioctl n (HYPER_IO_BIND f)) t))"
    using assms configuring_fields [OF assms] by (intro configuring_set_endpoint) (auto simp: ep_wf_def)
  then show ?thesis by (simp add: configure_post_def configuring_draining)
qed

lemma configure_vhost_spec:
  assumes "backend_inv b"
  shows "wp (configure_vhost env d path epoch features qs count required) (configure_post b d) b"
proof -
  have closed: "draining b d (set_endpoint d (endpoint_of d b\<lparr>ep_fd := f\<rparr>) (called env (Open path fl) b))"
    if "memory b \<noteq> MAP_FAILED" "\<not> ep_attached (endpoint_of d b)" for f fl
    using that assms backend_inv_wf [OF assms, of d]
    by (intro draining_open) (auto simp: ep_wf_def, simp add: draining_def)
  have opened: "configuring b d (set_endpoint d (endpoint_of d b\<lparr>ep_fd := f\<rparr>) (called env (Open path fl) b))"
    if "memory b \<noteq> MAP_FAILED" "\<not> ep_attached (endpoint_of d b)" "\<not> f < 0" for f fl
    using that closed by (simp add: configuring_def)
  have fail: "draining b d t \<Longrightarrow> configure_post b d HYPER_IO_BACKEND_FAILURE t" for t
    by (simp add: configure_post_def)
  have stay: "configure_post b d HYPER_IO_BUSY b" "configure_post b d HYPER_IO_INVALID b"
    by (simp_all add: configure_post_def)
  have q: "list_all quiet_ioctl (if d = Disk then [HYPER_VHOST_SCSI_SET_RESOURCES x y] else [])" for x y
    by simp
  show ?thesis
    unfolding configure_vhost_def backend_error_def Let_def
    by (auto simp: wp_rules opened closed fail stay configuring_draining bound_configuring q
        simp del: vhost_ioctls.simps split: option.split split del: if_split
        intro!: if_bool_eq_conj [THEN iffD2] wp_chain [where b = b] configure_queues_chain [where b = b])
qed


section \<open>Activating the storage device\<close>

lemma attach_disk_inv:
  assumes "configuring b Disk t" and "ep_bound (disk t)"
  shows "backend_inv (set_endpoint Disk (disk t\<lparr>ep_attached := True\<rparr>)
     (called env (Ioctl n (VHOST_SCSI_SET_ENDPOINT w)) t))"
  using assms configuring_fields [OF assms(1)]
  by (auto simp: configuring_def draining_def backend_inv_def linked_def safe_snoc closed_def ep_wf_def
      endpoint_of_def)

lemma attach_disk_failed:
  assumes "draining b Disk t" and "ret (env (events t) (Ioctl n (VHOST_SCSI_SET_ENDPOINT w))) \<noteq> 0"
  shows "draining b Disk (called env (Ioctl n (VHOST_SCSI_SET_ENDPOINT w)) t)"
  using assms by (auto simp: draining_def backend_inv_def linked_def safe_snoc closed_def endpoint_of_def)

lemma attach_disk_spec:
  assumes "backend_inv b" and "quietly b t" and post: "configure_post t Disk status u"
  shows "wp (attach_disk env status) (activate_post b Disk) u"
proof -
  have t: "untouched Disk b t" using assms(2) by (rule quietly_untouched)
  have rej: "status \<in> {HYPER_IO_BUSY, HYPER_IO_INVALID} \<Longrightarrow> activate_post b Disk status u"
    using assms by (intro activate_rejected) (auto simp: configure_post_def)
  have dr: "status \<notin> {HYPER_IO_BUSY, HYPER_IO_INVALID} \<Longrightarrow> draining t Disk u"
    using post by (auto simp: configure_post_def split: if_splits)
  have ok: "activate_post b Disk HYPER_IO_OK (set_endpoint Disk (disk u\<lparr>ep_attached := True\<rparr>)
      (called env (Ioctl n (VHOST_SCSI_SET_ENDPOINT w)) u))"
    if "status = HYPER_IO_OK" for n w
  proof -
    have "configuring t Disk u" "ep_bound (disk u)"
      using post that by (simp_all add: configure_post_def endpoint_of_Disk)
    with attach_disk_inv [OF this] t show ?thesis
      by (auto simp: activate_post_def configuring_def draining_def intro!: untouched_set_endpoint
          elim: untouched_trans) (auto simp: untouched_def endpoint_of_Disk)
  qed
  have roll: "wp (quiesce_disk env) (\<lambda>r. activate_post b Disk
      (if r \<noteq> 0 then HYPER_IO_QUIESCENCE_FAILED else HYPER_IO_BACKEND_FAILURE)) v" if "draining t Disk v" for v
    using that t by (intro disk_drain.rollback) (auto simp: draining_def elim: untouched_trans)
  from rej dr ok show ?thesis
    unfolding attach_disk_def by (auto simp: wp_rules endpoint_of_Disk intro!: roll attach_disk_failed)
qed

lemma activate_disk_spec:
  assumes "backend_inv b"
  shows "wp (activate_disk env m) (activate_post b Disk) b"
proof -
  have "wp (configure_vhost env Disk path epoch f qs n k) (\<lambda>r. wp (attach_disk env r) (activate_post b Disk)) t"
    if "quietly b t" for path epoch f qs n k t
    using configure_vhost_spec [OF quietly_inv [OF that assms]]
    by (rule wp_mono) (rule attach_disk_spec [OF assms that])
  with assms show ?thesis
    unfolding activate_disk_def block_target_ready_def
    by (auto simp: wp_rules activate_rejected)
qed

interpretation disk_activation: activatable Disk activate_disk
  by unfold_locales (rule activate_disk_spec)

end
