(* ===== verification/Network.thy ===== *)
theory Network
  imports Vhost
begin

text \<open>
  \<open>service/network.c\<close>: the TAP interface of a client and the activation and teardown of its
  vhost-net endpoint. The local \<open>struct ifreq\<close> of the C functions is the interface name it carries
  (\<open>TUNSETIFF\<close> writes it) and, for the flag calls, the flag word.
\<close>

section \<open>Operations\<close>

definition quiesce_network :: "env \<Rightarrow> (backend, int) state" where
  "quiesce_network env = do {
     b \<leftarrow> State_Monad.get;
     drained \<leftarrow> (if ep_attached (net b) then do {
        a \<leftarrow> call env (Ioctl (ep_fd (net b)) VHOST_RESET_OWNER);
        if ret a \<noteq> 0 then do { backend_error; State_Monad.return False }
        else do { modify_endpoint Net (\<lambda>e. e\<lparr>ep_attached := False\<rparr>); State_Monad.return True } }
      else State_Monad.return True);
     if \<not> drained then State_Monad.return (- 1)
     else do {
       r \<leftarrow> endpoint_close env Net;
       if r \<noteq> 0 then State_Monad.return (- 1)
       else do {
         b \<leftarrow> State_Monad.get;
         (if 0 \<le> tap b then do {
            call env (Close (tap b));
            State_Monad.update (\<lambda>b. b\<lparr>tap := - 1\<rparr>) }
          else State_Monad.return ());
         State_Monad.return 0 } } }"

text \<open>\<open>open_tap\<close> returns the C result and the interface name.\<close>

definition open_tap :: "env \<Rightarrow> (backend, int \<times> string) state" where
  "open_tap env = do {
     f \<leftarrow> call env (Open ''/dev/net/tun'' [O_RDWR, O_CLOEXEC]);
     State_Monad.update (\<lambda>b. b\<lparr>tap := ret f\<rparr>);
     if ret f < 0 then do { backend_error; State_Monad.return (- 1, []) }
     else do {
       i \<leftarrow> call env (Ioctl (ret f) TUNSETIFF);
       if ret i \<noteq> 0 then do { backend_error; State_Monad.return (- 1, []) }
       else do {
         failed \<leftarrow> for_return (\<lambda>r. do {
             a \<leftarrow> call env (Ioctl (ret f) r);
             State_Monad.return (if ret a \<noteq> 0 then Some () else None) })
           [TUNSETVNETHDRSZ 12, TUNSETVNETLE 1, TUNSETOFFLOAD 0];
         if failed \<noteq> None then do { backend_error; State_Monad.return (- 1, str i) }
         else do {
           b \<leftarrow> State_Monad.get;
           if tx_buffer_bytes (net_resources b) \<noteq> 0 then do {
             a \<leftarrow> call env (Ioctl (ret f) (TUNSETSNDBUF (tx_buffer_bytes (net_resources b))));
             if ret a \<noteq> 0 then do { backend_error; State_Monad.return (- 1, str i) }
             else State_Monad.return (0, str i) }
           else State_Monad.return (0, str i) } } } }"

definition probe_network :: "env \<Rightarrow> (backend, int) state" where
  "probe_network env = do {
     (result, _) \<leftarrow> open_tap env;
     b \<leftarrow> State_Monad.get;
     (if 0 \<le> tap b then do {
        call env (Close (tap b));
        State_Monad.update (\<lambda>b. b\<lparr>tap := - 1\<rparr>) }
      else State_Monad.return ());
     State_Monad.return result }"

definition IFF_UP :: u64 where "IFF_UP = 1"

text \<open>The interface set-up between the opening and the closing of the control socket.\<close>

definition join_bridge :: "env \<Rightarrow> int \<Rightarrow> string \<Rightarrow> int \<Rightarrow> (backend, int) state" where
  "join_bridge env sock name index = do {
     b \<leftarrow> State_Monad.get;
     q \<leftarrow> call env (Ioctl sock (SIOCSIFTXQLEN name (rx_backlog_packets (net_resources b))));
     if ret q \<noteq> 0 then do { backend_error; State_Monad.return (ret q) }
     else do {
       a \<leftarrow> call env (Ioctl sock (SIOCBRADDIF (bridge b) index));
       if ret a \<noteq> 0 then do { backend_error; State_Monad.return (ret a) }
       else do {
         g \<leftarrow> call env (Ioctl sock (SIOCGIFFLAGS name));
         if ret g \<noteq> 0 then do { backend_error; State_Monad.return (ret g) }
         else do {
           u \<leftarrow> call env (Ioctl sock (SIOCSIFFLAGS name (out g 0 OR IFF_UP)));
           (if ret u \<noteq> 0 then backend_error else State_Monad.return ());
           State_Monad.return (ret u) } } } }"

definition create_tap :: "env \<Rightarrow> (backend, int) state" where
  "create_tap env = do {
     (result, name) \<leftarrow> open_tap env;
     if result \<noteq> 0 then State_Monad.return (- 1)
     else do {
       index \<leftarrow> call env (If_nametoindex name);
       if ret index = 0 then do { backend_error; State_Monad.return (- 1) }
       else do {
         sock \<leftarrow> call env Socket;
         if ret sock < 0 then do { backend_error; State_Monad.return (- 1) }
         else do {
           result \<leftarrow> join_bridge env (ret sock) name (ret index);
           call env (Close (ret sock));
           State_Monad.return result } } } }"

text \<open>One round of the attachment loop; \<open>Some ()\<close> is the jump to the error exit.\<close>

definition attach_queue :: "env \<Rightarrow> nat \<Rightarrow> (backend, unit option) state" where
  "attach_queue env i = do {
     b \<leftarrow> State_Monad.get;
     a \<leftarrow> call env (Ioctl (ep_fd (net b)) (VHOST_NET_SET_BACKEND i (tap b)));
     if ret a \<noteq> 0 then do { backend_error; State_Monad.return (Some ()) }
     else do { modify_endpoint Net (\<lambda>e. e\<lparr>ep_attached := True\<rparr>); State_Monad.return None } }"

definition network_failed :: "env \<Rightarrow> (backend, u32) state" where
  "network_failed env = do {
     r \<leftarrow> quiesce_network env;
     State_Monad.return (if r \<noteq> 0 then HYPER_IO_QUIESCENCE_FAILED else HYPER_IO_BACKEND_FAILURE) }"

definition attach_network :: "env \<Rightarrow> u32 \<Rightarrow> (backend, u32) state" where
  "attach_network env status =
     (if status = HYPER_IO_BUSY \<or> status = HYPER_IO_INVALID then State_Monad.return status
      else if status \<noteq> HYPER_IO_OK then network_failed env
      else do {
        result \<leftarrow> create_tap env;
        if result \<noteq> 0 then network_failed env
        else do {
          failed \<leftarrow> for_return (attach_queue env) [0..<HYPER_IO_NETWORK_QUEUES];
          if failed \<noteq> None then network_failed env else State_Monad.return HYPER_IO_OK } })"

definition network_features_ok :: "u64 \<Rightarrow> bool" where
  "network_features_ok features \<longleftrightarrow>
     \<not> (features AND VERSION_1 = 0 \<or> features AND NOT NETWORK_FEATURES \<noteq> 0 \<or>
        (features AND NETWORK_TSO \<noteq> 0 \<and> features AND NETWORK_CSUM = 0))"

definition activate_network :: "env \<Rightarrow> hyper_io_activate \<Rightarrow> (backend, u32) state" where
  "activate_network env m = do {
     b \<leftarrow> State_Monad.get;
     if \<not> network b then State_Monad.return HYPER_IO_UNSUPPORTED
     else if \<not> network_features_ok (a_features m) then State_Monad.return HYPER_IO_INVALID
     else if 0 \<le> ep_fd (net b) \<or> ep_bound (net b) \<or> 0 \<le> tap b then State_Monad.return HYPER_IO_BUSY
     else do {
       status \<leftarrow> configure_vhost env Net ''/dev/vhost-net'' (ucast (h_epoch (a_header m)))
         VERSION_1 (a_queues m) HYPER_IO_NETWORK_QUEUES HYPER_IO_NETWORK_QUEUES;
       attach_network env status } }"

section \<open>Draining the network endpoint\<close>

lemma drained_net_inv:
  assumes "backend_inv b" and "ep_attached (net b)"
    and "ret (env (events b) (Ioctl n VHOST_RESET_OWNER)) = 0"
  shows "backend_inv (set_endpoint Net (net b\<lparr>ep_attached := False\<rparr>) (called env (Ioctl n VHOST_RESET_OWNER) b))"
  using assms
  by (auto simp: backend_inv_def linked_def safe_snoc closed_def ep_closed_def ep_wf_def endpoint_of_def)

lemma backend_inv_tap:
  "backend_inv b \<Longrightarrow> memory b \<noteq> MAP_FAILED \<or> t < 0 \<Longrightarrow> backend_inv (b\<lparr>tap := t\<rparr>)"
  by (auto simp: backend_inv_def linked_def closed_def)

lemma untouched_tap [simp]: "untouched Net b (t\<lparr>tap := x\<rparr>) \<longleftrightarrow> untouched Net b t"
  by (simp add: untouched_def config_def shared_def)

definition net_drained :: "backend \<Rightarrow> int \<Rightarrow> backend \<Rightarrow> bool" where
  "net_drained b r t \<longleftrightarrow> backend_inv t \<and> untouched Net b t \<and> (r = 0 \<longrightarrow> closed Net t)"

lemma wp_endpoint_close_net:
  assumes "backend_inv t" and "\<not> ep_attached (net t)" and "untouched Net b t"
    and "\<And>u. backend_inv u \<Longrightarrow> untouched Net b u \<Longrightarrow> ep_closed (net u) \<Longrightarrow> Q 0 u"
    and "\<And>r u. r \<noteq> 0 \<Longrightarrow> backend_inv u \<Longrightarrow> untouched Net b u \<Longrightarrow> Q r u"
  shows "wp (endpoint_close env Net) Q t"
proof -
  have "wp (endpoint_close env Net) (\<lambda>r u. draining t Net u \<and> (r = 0 \<longrightarrow> ep_closed (endpoint_of Net u))) t"
    using assms(1,2) by (intro endpoint_close_spec) (simp_all add: endpoint_of_Net)
  then show ?thesis
  proof (rule wp_mono)
    fix r :: int and u assume "draining t Net u \<and> (r = 0 \<longrightarrow> ep_closed (endpoint_of Net u))"
    with assms(3) have "backend_inv u" "untouched Net b u" "r = 0 \<longrightarrow> ep_closed (net u)"
      by (auto simp: draining_def endpoint_of_Net elim: untouched_trans)
    then show "Q r u" by (cases "r = 0") (simp_all add: assms(4,5))
  qed
qed

lemma quiesce_network_spec:
  assumes "backend_inv b"
  shows "wp (quiesce_network env) (net_drained b) b"
proof -
  let ?c = "Ioctl (ep_fd (net b)) VHOST_RESET_OWNER"
  have "net_drained b (- 1) (diagnosed (called env ?c b))" if "ret (env (events b) ?c) \<noteq> 0"
    using assms that by (auto simp: net_drained_def backend_inv_def linked_def safe_snoc closed_def)
  moreover have "untouched Net b (set_endpoint Net (net b\<lparr>ep_attached := False\<rparr>) (called env ?c b))"
    by (rule untouched_set_endpoint) (simp_all add: endpoint_of_Net)
  moreover have "tap u < 0 \<Longrightarrow> net_drained b 0 u"
    "net_drained b 0 (called env (Close (tap u)) u\<lparr>tap := - 1\<rparr>)"
    if "backend_inv u" "untouched Net b u" "ep_closed (net u)" for u
    using that by (auto simp: net_drained_def closed_def endpoint_of_Net intro!: backend_inv_tap)
  moreover have "net_drained b (- 1) u" if "backend_inv u" "untouched Net b u" for u
    using that by (simp add: net_drained_def)
  ultimately show ?thesis
    unfolding quiesce_network_def backend_error_def
    by (auto simp: wp_rules endpoint_of_Net assms drained_net_inv intro!: wp_endpoint_close_net [where b = b])
qed

interpretation net_drain: drainable Net quiesce_network
  by unfold_locales (use quiesce_network_spec in \<open>simp add: net_drained_def [abs_def]\<close>)


section \<open>The TAP\<close>

text \<open>A step that makes quiet calls and may change the TAP descriptor, nothing else.\<close>

definition tap_step :: "backend \<Rightarrow> backend \<Rightarrow> bool" where
  "tap_step b t \<longleftrightarrow> quietly (b\<lparr>tap := tap t\<rparr>) t"

lemma mon_tap [simp]: "mon (b\<lparr>tap := x\<rparr>) = mon b"
  by simp

lemma tap_step_refl [simp]: "tap_step b b"
  by (simp add: tap_step_def)

lemma tap_step_called [simp]: "quiet c \<Longrightarrow> tap_step b (called env c t) \<longleftrightarrow> tap_step b t"
  by (simp add: tap_step_def)

lemma tap_step_diagnosed [simp]: "tap_step b (diagnosed t) \<longleftrightarrow> tap_step b t"
  by (simp add: tap_step_def)

lemma tap_step_set [simp]: "tap_step b (t\<lparr>tap := x\<rparr>) \<longleftrightarrow> tap_step b t"
  by (simp add: tap_step_def quietly_def config_def shared_def)

lemma tap_step_inv:
  "tap_step b t \<Longrightarrow> backend_inv b \<Longrightarrow> memory b \<noteq> MAP_FAILED \<or> tap t < 0 \<Longrightarrow> backend_inv t"
  unfolding tap_step_def by (erule quietly_inv) (rule backend_inv_tap)

lemma tap_step_untouched: "tap_step b t \<Longrightarrow> untouched Net b t"
  by (drule tap_step_def [THEN iffD1, THEN quietly_untouched [where d = Net]])
     (simp add: untouched_def config_def shared_def)

lemma tap_step_net: "tap_step b t \<Longrightarrow> net t = net b \<and> memory t = memory b"
  by (simp add: tap_step_def quietly_def shared_def)

lemma open_tap_spec: "wp (open_tap env) (\<lambda>(r, _) t. tap_step b t \<and> (r = 0 \<longrightarrow> 0 \<le> tap t)) b"
  unfolding open_tap_def backend_error_def by (auto simp: wp_rules)

lemma probe_network_spec: "wp (probe_network env) (\<lambda>_ t. tap_step b t \<and> tap t < 0) b"
  unfolding probe_network_def wp_rules
  by (rule wp_mono [OF open_tap_spec [of env b]]) (auto simp: wp_rules)

lemma create_tap_spec: "wp (create_tap env) (\<lambda>r t. tap_step b t \<and> (r = 0 \<longrightarrow> 0 \<le> tap t)) b"
proof -
  have join: "wp (join_bridge env sock name index) (\<lambda>_ u. tap_step b u \<and> 0 \<le> tap u) t"
    if "tap_step b t" "0 \<le> tap t" for sock name index t
    using that unfolding join_bridge_def backend_error_def by (auto simp: wp_rules)
  have tail: "wp (join_bridge env sock name index) (\<lambda>r s. tap_step b s \<and> (r = 0 \<longrightarrow> 0 \<le> tap s)) t"
    if "tap_step b t" "0 \<le> tap t" for sock name index t
    by (rule wp_mono [OF join [OF that]]) simp
  show ?thesis
    unfolding create_tap_def backend_error_def wp_rules
    by (rule wp_mono [OF open_tap_spec [of env b]]) (auto simp: wp_rules intro!: tail)
qed


section \<open>Activating the network device\<close>

text \<open>A configured network endpoint between \<open>create_tap\<close> and the end of the attachment loop.\<close>

definition net_ready :: "backend \<Rightarrow> backend \<Rightarrow> bool" where
  "net_ready b t \<longleftrightarrow> backend_inv t \<and> untouched Net b t \<and> memory t \<noteq> MAP_FAILED \<and>
     0 \<le> ep_fd (net t) \<and> ep_bound (net t)"

lemma net_ready_inv: "net_ready b t \<Longrightarrow> backend_inv t \<and> untouched Net b t"
  by (simp add: net_ready_def)

lemma network_failed_spec:
  "backend_inv t \<Longrightarrow> untouched Net b t \<Longrightarrow> wp (network_failed env) (activate_post b Net) t"
  unfolding network_failed_def wp_rules by (rule net_drain.rollback)

lemma net_ready_tap: "net_ready b t \<Longrightarrow> tap_step t u \<Longrightarrow> net_ready b u"
  using tap_step_inv [of t u] tap_step_net [of t u] tap_step_untouched [of t u]
  by (auto simp: net_ready_def elim: untouched_trans)

lemma attach_queue_spec:
  assumes "net_ready b t"
  shows "wp (attach_queue env i) (\<lambda>r u. net_ready b u \<and> (r = None \<longrightarrow> ep_attached (net u))) t"
proof -
  let ?c = "Ioctl (ep_fd (net t)) (VHOST_NET_SET_BACKEND i (tap t))"
  have "net_ready b (diagnosed (called env ?c t))" if "ret (env (events t) ?c) \<noteq> 0"
    using assms that by (auto simp: net_ready_def backend_inv_def linked_def safe_snoc closed_def)
  moreover have "backend_inv (set_endpoint Net (net t\<lparr>ep_attached := True\<rparr>) (called env ?c t))"
    using assms by (auto simp: net_ready_def backend_inv_def linked_def safe_snoc closed_def ep_wf_def
        endpoint_of_def)
  then have "net_ready b (set_endpoint Net (net t\<lparr>ep_attached := True\<rparr>) (called env ?c t))"
    using assms by (auto simp: net_ready_def intro!: untouched_set_endpoint)
      (simp add: untouched_def endpoint_of_Net)
  ultimately show ?thesis
    unfolding attach_queue_def backend_error_def by (auto simp: wp_rules endpoint_of_Net)
qed

lemma attach_queues_spec:
  assumes "net_ready b t"
  shows "wp (for_return (attach_queue env) [0..<HYPER_IO_NETWORK_QUEUES])
    (\<lambda>r u. net_ready b u \<and> (r = None \<longrightarrow> ep_attached (net u))) t"
proof -
  have "wp (for_return (attach_queue env) [0..<HYPER_IO_NETWORK_QUEUES])
      (\<lambda>r u. case r of None \<Rightarrow> net_ready b u \<and> (0 < HYPER_IO_NETWORK_QUEUES \<longrightarrow> ep_attached (net u))
         | Some _ \<Rightarrow> net_ready b u) t"
  proof (rule wp_for_return_upt [where J = "\<lambda>i u. net_ready b u \<and> (0 < i \<longrightarrow> ep_attached (net u))"
        and E = "\<lambda>_. net_ready b"])
    fix i :: nat and u assume "net_ready b u \<and> (0 < i \<longrightarrow> ep_attached (net u))"
    then have "net_ready b u" by simp
    from attach_queue_spec [OF this]
    show "wp (attach_queue env i) (\<lambda>r t. case r of
        None \<Rightarrow> net_ready b t \<and> (0 < Suc i \<longrightarrow> ep_attached (net t)) | Some v \<Rightarrow> net_ready b t) u"
      by (rule wp_mono) (auto split: option.split)
  qed (use assms in simp_all)
  then show ?thesis by (rule wp_mono) (auto split: option.splits)
qed

lemma attach_network_spec:
  assumes inv: "backend_inv b" and post: "configure_post b Net status u"
  shows "wp (attach_network env status) (activate_post b Net) u"
proof -
  have fail: "backend_inv u \<and> untouched Net b u" if "status \<notin> {HYPER_IO_BUSY, HYPER_IO_INVALID}"
    using post that by (auto simp: configure_post_def draining_def split: if_splits)
  have ready: "net_ready b u" if "status = HYPER_IO_OK"
    using post that by (auto simp: configure_post_def configuring_def draining_def net_ready_def endpoint_of_Net)
  have attach: "wp (for_return (attach_queue env) [0..<HYPER_IO_NETWORK_QUEUES]) Q t"
    if "net_ready b t" "\<And>v. net_ready b v \<Longrightarrow> ep_attached (net v) \<Longrightarrow> Q None v"
      "\<And>v. net_ready b v \<Longrightarrow> Q (Some ()) v" for Q t
    using attach_queues_spec [OF that(1)]
  proof (rule wp_mono)
    fix r :: "unit option" and v assume "net_ready b v \<and> (r = None \<longrightarrow> ep_attached (net v))"
    with that(2,3) show "Q r v" by (cases r) auto
  qed
  have create: "wp (create_tap env) Q u"
    if "status = HYPER_IO_OK" "\<And>r v. net_ready b v \<Longrightarrow> Q r v" for Q
    by (rule wp_mono [OF create_tap_spec [of env u]]) (use that net_ready_tap [OF ready] in auto)
  have ok: "activate_post b Net HYPER_IO_OK v" if "net_ready b v" "ep_attached (net v)" for v
    using that by (simp add: activate_post_def net_ready_def endpoint_of_Net)
  have rej: "activate_post b Net status u" if "status \<in> {HYPER_IO_BUSY, HYPER_IO_INVALID}"
    using that post inv by (intro activate_rejected) (auto simp: configure_post_def)
  show ?thesis
    unfolding attach_network_def
    by (auto simp: wp_rules rej ok fail net_ready_inv simp del: upt_rec_numeral
        intro!: network_failed_spec create attach)
qed

lemma activate_network_spec:
  assumes "backend_inv b"
  shows "wp (activate_network env m) (activate_post b Net) b"
proof -
  have "wp (configure_vhost env Net path epoch f qs n k) (\<lambda>r. wp (attach_network env r) (activate_post b Net)) b"
    for path epoch f qs n k
    using configure_vhost_spec [OF assms] by (rule wp_mono) (rule attach_network_spec [OF assms])
  then show ?thesis
    unfolding activate_network_def by (auto simp: wp_rules activate_rejected assms)
qed

interpretation net_activation: activatable Net activate_network
  by unfold_locales (rule activate_network_spec)

end
