(* ===== verification/Layout.thy ===== *)
theory Layout
  imports Prelude
begin

text \<open>
  \<open>include/hyper_io_layout.h\<close>: the two address checks shared by the service and the guest
  memory module. \<open>hyper_io_extent_valid\<close> admits the next extent of a scatter grant,
  \<open>hyper_io_page_aperture\<close> admits one page of a dynamic grant into its aperture. Both are
  written with wrapping 64-bit arithmetic; the lemmas state what they mean over the naturals.
\<close>

definition hyper_io_extent_valid :: "u64 \<Rightarrow> u64 \<Rightarrow> u64 \<Rightarrow> u64 \<Rightarrow> u64 \<Rightarrow> bool" where
  "hyper_io_extent_valid cursor tot alias offset len \<longleftrightarrow>
     cursor \<le> tot \<and> offset = cursor \<and> len \<noteq> 0 \<and> len AND 4095 = 0 \<and>
     alias AND 4095 = 0 \<and> alias \<le> NOT 0 - len \<and> len \<le> tot - cursor"

definition hyper_io_page_aperture :: "u64 \<Rightarrow> u64 \<Rightarrow> u64 \<Rightarrow> bool" where
  "hyper_io_page_aperture alias start end =
     (let mask = 2 * 1024 * 1024 - 1; base = alias AND NOT mask
      in alias AND 4095 = 0 \<and> start \<le> base \<and> base \<le> end \<and> mask \<le> end - base)"

lemma unat_max_minus: "unat (- 1 - (x :: u64)) = 18446744073709551615 - unat x"
proof -
  have "x \<le> - 1" by simp
  then have "unat (- 1 - x) = unat (- 1 :: u64) - unat x"
    by (rule unat_sub)
  then show ?thesis by (simp add: unsigned_minus_1_eq_mask mask_eq_exp_minus_1)
qed

lemma extent_valid_nat:
  "hyper_io_extent_valid cursor tot alias offset len \<longleftrightarrow>
     offset = cursor \<and> 0 < unat len \<and> unat len mod 4096 = 0 \<and> unat alias mod 4096 = 0 \<and>
     unat alias + unat len < 2 ^ 64 \<and> unat cursor + unat len \<le> unat tot"
proof (cases "cursor \<le> tot")
  case True
  then have "unat (tot - cursor) = unat tot - unat cursor"
    by (rule unat_sub)
  with True u64_bound [of len] show ?thesis
    by (auto simp: hyper_io_extent_valid_def unat_max_minus word_le_nat_alt and_4095_zero
        unat_gt_0)
next
  case False
  then show ?thesis
    by (auto simp: hyper_io_extent_valid_def word_le_nat_alt)
qed

lemma granule_mask: "(2 * 1024 * 1024 - 1 :: u64) = mask 21"
  by (simp add: mask_numeral)

lemma granule_base_unat:
  "unat ((alias :: u64) AND NOT (2 * 1024 * 1024 - 1)) = 2097152 * (unat alias div 2097152)"
proof -
  have "unat (alias AND NOT (2 * 1024 * 1024 - 1)) = unat alias - unat alias mod 2 ^ 21"
    by (simp only: granule_mask and_not_mask_unat)
  then show ?thesis by (simp add: minus_mod_eq_mult_div)
qed

lemma page_aperture_nat:
  "hyper_io_page_aperture alias start end \<longleftrightarrow>
     unat alias mod 4096 = 0 \<and> unat start \<le> 2097152 * (unat alias div 2097152) \<and>
     2097152 * (unat alias div 2097152) + 2097151 \<le> unat end"
proof -
  define base :: u64 where "base = alias AND NOT (2 * 1024 * 1024 - 1)"
  have b: "unat base = 2097152 * (unat alias div 2097152)"
    unfolding base_def by (rule granule_base_unat)
  have "base \<le> end \<and> 2097151 \<le> end - base \<longleftrightarrow> unat base + 2097151 \<le> unat end"
  proof (cases "base \<le> end")
    case True
    then have "unat (end - base) = unat end - unat base" by (rule unat_sub)
    with True show ?thesis by (auto simp: word_le_nat_alt)
  next
    case False
    then show ?thesis by (auto simp: word_le_nat_alt)
  qed
  then show ?thesis
    unfolding hyper_io_page_aperture_def Let_def base_def [symmetric]
    by (auto simp: and_4095_zero word_le_nat_alt b)
qed

end
