(* ===== verification/Shared_Memory.thy ===== *)
theory Shared_Memory
  imports Network Layout
begin

text \<open>
  \<open>service/memory.c\<close> and \<open>quiesce_all\<close> of \<open>service/vhost.c\<close>: admission and retirement of the
  client's shared memory. The page array of \<open>prepare_memory\<close> is a list of \<open>length / 4096\<close> words;
  its element stores are list updates, and \<open>store_extent_bounds\<close> shows that none of them is out of
  range. The output structures of \<open>HYPER_IO_ADMIT\<close> and \<open>HYPER_IO_EXTENT\<close> are read through the
  accessors below.
\<close>

section \<open>Operations\<close>

definition quiesce_all :: "env \<Rightarrow> (backend, int) state" where
  "quiesce_all env = do {
     dsk \<leftarrow> quiesce_disk env;
     nw \<leftarrow> quiesce_network env;
     State_Monad.return (if dsk \<noteq> 0 \<or> nw \<noteq> 0 then - 1 else 0) }"

text \<open>The two optional retirement steps of \<open>release_memory\<close>; \<open>False\<close> is its early error return.\<close>

definition unmap_memory :: "env \<Rightarrow> (backend, bool) state" where
  "unmap_memory env = do {
     b \<leftarrow> State_Monad.get;
     if memory b = MAP_FAILED then State_Monad.return True
     else do {
       u \<leftarrow> call env (Munmap (memory b) (mi_length (region b)));
       if ret u \<noteq> 0 then State_Monad.return False
       else do { State_Monad.update (\<lambda>b. b\<lparr>memory := MAP_FAILED\<rparr>); State_Monad.return True } } }"

definition close_memory :: "env \<Rightarrow> (backend, bool) state" where
  "close_memory env = do {
     b \<leftarrow> State_Monad.get;
     if memory_fd b < 0 then State_Monad.return True
     else do {
       released \<leftarrow> (if managed b then do {
           a \<leftarrow> call env (Ioctl (memory_fd b) HYPER_MEMORY_RELEASE);
           State_Monad.return (ret a = 0) }
         else State_Monad.return True);
       if \<not> released then State_Monad.return False
       else do {
         call env (Close (memory_fd b));
         State_Monad.update (\<lambda>b. b\<lparr>memory_fd := - 1\<rparr>);
         State_Monad.return True } } }"

definition prove_quiescent :: "env \<Rightarrow> (backend, bool) state" where
  "prove_quiescent env = do {
     b \<leftarrow> State_Monad.get;
     if token b = 0 then State_Monad.return True
     else do {
       a \<leftarrow> call env (Ioctl (ep_notification (memory_endpoint b)) (HYPER_IO_QUIESCENT (token b)));
       State_Monad.return (ret a = 0) } }"

definition release_memory :: "env \<Rightarrow> (backend, u32) state" where
  "release_memory env = do {
     q \<leftarrow> quiesce_all env;
     if q \<noteq> 0 then State_Monad.return HYPER_IO_QUIESCENCE_FAILED
     else do {
       ok \<leftarrow> unmap_memory env;
       if \<not> ok then State_Monad.return HYPER_IO_QUIESCENCE_FAILED
       else do {
         ok \<leftarrow> close_memory env;
         if \<not> ok then State_Monad.return HYPER_IO_QUIESCENCE_FAILED
         else do {
           ok \<leftarrow> prove_quiescent env;
           if \<not> ok then State_Monad.return HYPER_IO_QUIESCENCE_FAILED
           else do {
             State_Monad.update (\<lambda>b. b\<lparr>token := 0, region := no_region\<rparr>);
             State_Monad.return HYPER_IO_OK } } } } }"

definition admission_extents :: "answer \<Rightarrow> u64" where "admission_extents a = out a 0"

definition extent_alias :: "answer \<Rightarrow> u64" where "extent_alias a = out a 0"
definition extent_offset :: "answer \<Rightarrow> u64" where "extent_offset a = out a 1"
definition extent_length :: "answer \<Rightarrow> u64" where "extent_length a = out a 2"

text \<open>The inner loop: the stores \<open>pages[(cursor + at) / 4096] = extent.alias + at\<close>.\<close>

definition extent_steps :: "u64 \<Rightarrow> u64 list" where
  "extent_steps len = map (\<lambda>k. 4096 * of_nat k) [0..<(unat len + 4095) div 4096]"

definition store_extent :: "u64 \<Rightarrow> u64 \<Rightarrow> u64 \<Rightarrow> u64 list \<Rightarrow> u64 list" where
  "store_extent cursor alias len pages =
     foldl (\<lambda>ps at. ps[unat ((cursor + at) div 4096) := alias + at]) pages (extent_steps len)"

text \<open>
  The walk over the extents of an admission, \<open>n\<close> of them left; \<open>None\<close> is the jump to the error
  exit, otherwise the final cursor and page array.
\<close>

primrec walk_extents :: "env \<Rightarrow> u64 \<Rightarrow> nat \<Rightarrow> u64 \<Rightarrow> u64 \<Rightarrow> u64 list \<Rightarrow> (backend, (u64 \<times> u64 list) option) state" where
  "walk_extents env len 0 i cursor pages = State_Monad.return (Some (cursor, pages))"
| "walk_extents env len (Suc n) i cursor pages = do {
     b \<leftarrow> State_Monad.get;
     a \<leftarrow> call env (Ioctl (ep_notification (memory_endpoint b)) (HYPER_IO_EXTENT i));
     if ret a \<noteq> 0 \<or> \<not> hyper_io_extent_valid cursor len (extent_alias a) (extent_offset a) (extent_length a)
     then State_Monad.return None
     else walk_extents env len n (i + 1) (cursor + extent_length a)
            (store_extent cursor (extent_alias a) (extent_length a) pages) }"

definition prepare_failed :: "env \<Rightarrow> (backend, u32) state" where
  "prepare_failed env = do {
     r \<leftarrow> release_memory env;
     State_Monad.return (if r = HYPER_IO_OK then HYPER_IO_BACKEND_FAILURE else HYPER_IO_QUIESCENCE_FAILED) }"

text \<open>The part of \<open>prepare_memory\<close> after the page array: open, prepare and map the memory file.\<close>

definition map_memory :: "env \<Rightarrow> hyper_memory_prepare \<Rightarrow> (backend, u32) state" where
  "map_memory env prepare = do {
     diagnostic;
     b \<leftarrow> State_Monad.get;
     f \<leftarrow> call env (Open (memory_path b) [O_RDWR, O_CLOEXEC]);
     if ret f < 0 then prepare_failed env
     else do {
       State_Monad.update (\<lambda>b. b\<lparr>memory_fd := ret f\<rparr>);
       diagnostic;
       w \<leftarrow> call env (Ioctl (ret f) HYPER_MEMORY_INFO);
       if ret w \<noteq> 0 \<or> mp_length prepare > out w 1 then prepare_failed env
       else do {
         p \<leftarrow> call env (Ioctl (ret f) (HYPER_MEMORY_PREPARE prepare));
         if ret p \<noteq> 0 then prepare_failed env
         else do {
           diagnostic;
           m \<leftarrow> call env (Mmap (mp_length prepare) (ret f));
           if word_of_int (ret m) = MAP_FAILED then prepare_failed env
           else do {
             diagnostic;
             State_Monad.update (\<lambda>b. b\<lparr>memory := word_of_int (ret m), memory_fd := ret f,
               token := mp_token prepare,
               region := \<lparr>mi_guest_base = mp_guest_base prepare, mi_length = mp_length prepare\<rparr>\<rparr>);
             State_Monad.return HYPER_IO_OK } } } } }"

text \<open>The admission of a page grant, between the argument checks and \<open>map_memory\<close>.\<close>

definition admit_memory :: "env \<Rightarrow> hyper_memory_prepare \<Rightarrow> (backend, u32) state" where
  "admit_memory env prepare =
     (let len = mp_length prepare in
      if mp_alias prepare \<noteq> 0 \<or> len div 4096 > HYPER_IO_MAX_GRANT_PAGES
      then State_Monad.return HYPER_IO_INVALID
      else do {
        b \<leftarrow> State_Monad.get;
        a \<leftarrow> call env (Ioctl (ep_notification (memory_endpoint b))
          (HYPER_IO_ADMIT (mp_token prepare) (mp_guest_base prepare) len));
        if ret a \<noteq> 0 then State_Monad.return HYPER_IO_INVALID
        else do {
          State_Monad.update (\<lambda>b. b\<lparr>token := mp_token prepare\<rparr>);
          c \<leftarrow> call env (Calloc (len div 4096));
          if ret c = 0 then prepare_failed env
          else do {
            walked \<leftarrow> walk_extents env len (unat (admission_extents a)) 0 0
              (replicate (unat (len div 4096)) 0);
            (case walked of
               None \<Rightarrow> prepare_failed env
             | Some (cursor, pages) \<Rightarrow>
                 if cursor \<noteq> len then prepare_failed env
                 else map_memory env
                   (prepare\<lparr>mp_pages := pages, mp_count := ucast (len div 4096)\<rparr>)) } } })"

definition prepare_of :: "hyper_io_prepare_memory \<Rightarrow> hyper_memory_prepare" where
  "prepare_of request = \<lparr>mp_alias = p_alias request, mp_guest_base = p_guest_base request,
     mp_length = p_length request, mp_token = p_token request, mp_pages = [], mp_count = 0,
     mp_reserved = 0\<rparr>"

definition prepare_memory :: "env \<Rightarrow> hyper_io_prepare_memory \<Rightarrow> (backend, u32) state" where
  "prepare_memory env request = do {
     let base = p_guest_base request;
     let len = p_length request;
     let prepare = prepare_of request;
     b \<leftarrow> State_Monad.get;
     if \<not> managed b \<or> memory b \<noteq> MAP_FAILED \<or> 0 \<le> memory_fd b \<or> token b \<noteq> 0
     then State_Monad.return HYPER_IO_BUSY
     else if len = 0 \<or> len mod 4096 \<noteq> 0 \<or> base mod 4096 \<noteq> 0 \<or> base > - 1 - len \<or>
       (blocks b \<noteq> None \<and> (len > ucast HYPER_IO_BLOCK_MAX_READ \<or> mp_token prepare \<noteq> 0))
     then State_Monad.return HYPER_IO_INVALID
     else if mp_token prepare \<noteq> 0 then admit_memory env prepare
     else map_memory env prepare }"

section \<open>Draining both devices\<close>

text \<open>Everything of the client but its two devices.\<close>

definition notifications :: "backend \<Rightarrow> int \<times> int" where
  "notifications b = (ep_notification (disk b), ep_notification (net b))"

definition memory_kept :: "backend \<Rightarrow> backend \<Rightarrow> bool" where
  "memory_kept b t \<longleftrightarrow> config t = config b \<and> shared t = shared b \<and> blocks t = blocks b \<and>
     notifications t = notifications b"

lemma untouched_memory_kept: "untouched d b t \<Longrightarrow> memory_kept b t"
  by (cases d) (auto simp: untouched_def memory_kept_def notifications_def endpoint_of_def split: device.splits)

lemma untouched_closed: "untouched d b t \<Longrightarrow> d' \<noteq> d \<Longrightarrow> d' = Disk \<Longrightarrow> closed d' b \<Longrightarrow> closed d' t"
  by (simp add: untouched_def closed_def)

lemma quiesce_all_spec:
  assumes "backend_inv b"
  shows "wp (quiesce_all env) (\<lambda>r t. backend_inv t \<and> memory_kept b t \<and>
     (r = 0 \<longrightarrow> closed Disk t \<and> closed Net t)) b"
proof -
  have net: "wp (quiesce_network env) (\<lambda>n t. backend_inv t \<and> memory_kept b t \<and>
      ((if dsk \<noteq> 0 \<or> n \<noteq> 0 then - 1 else 0 :: int) = 0 \<longrightarrow> closed Disk t \<and> closed Net t)) u"
    if "backend_inv u" "untouched Disk b u" "dsk = 0 \<longrightarrow> closed Disk u" for dsk :: int and u
    using net_drain.quiesce_spec [OF that(1)]
    by (rule wp_mono)
       (use that untouched_closed [of Net u _ Disk] in
         \<open>auto simp: memory_kept_def dest!: untouched_memory_kept split: if_splits\<close>)
  show ?thesis
    unfolding quiesce_all_def wp_rules
    by (rule wp_mono [OF disk_drain.quiesce_spec [OF assms]]) (rule net, simp_all)
qed

section \<open>Releasing the memory\<close>

text \<open>A client that holds nothing: what the host's \<open>idle\<close> expects, and a zero region.\<close>

definition released :: "backend \<Rightarrow> bool" where
  "released b \<longleftrightarrow> closed Disk b \<and> closed Net b \<and> memory b = MAP_FAILED \<and> memory_fd b < 0 \<and>
     token b = 0 \<and> region b = no_region"

text \<open>The states of \<open>release_memory\<close> after both drains have succeeded.\<close>

definition releasing :: "backend \<Rightarrow> backend \<Rightarrow> bool" where
  "releasing b t \<longleftrightarrow> backend_inv t \<and> config t = config b \<and> blocks t = blocks b \<and>
     notifications t = notifications b \<and> token t = token b \<and> closed Disk t \<and> closed Net t"

lemma closed_not_live:
  "backend_inv t \<Longrightarrow> closed Disk t \<Longrightarrow> closed Net t \<Longrightarrow> \<not> scsi_live (mon t) \<and> \<not> net_live (mon t)"
  by (auto simp: backend_inv_def linked_def closed_def ep_closed_def endpoint_of_def)

lemma releasing_closed: "releasing b t \<Longrightarrow> closed d t"
  by (cases d) (simp_all add: releasing_def)

lemma unmap_memory_spec:
  assumes "releasing b t"
  shows "wp (unmap_memory env) (\<lambda>ok u. releasing b u \<and> (ok \<longrightarrow> memory u = MAP_FAILED)) t"
proof -
  have "\<not> scsi_live (mon t)" "\<not> net_live (mon t)"
    using assms closed_not_live [of t] by (auto simp: releasing_def)
  with assms show ?thesis
    unfolding unmap_memory_def
    by (auto simp: wp_rules releasing_def config_def notifications_def backend_inv_def linked_def safe_snoc closed_def)
qed

lemma close_memory_spec:
  assumes "releasing b t" and "memory t = MAP_FAILED"
  shows "wp (close_memory env)
     (\<lambda>ok u. releasing b u \<and> memory u = MAP_FAILED \<and> (ok \<longrightarrow> memory_fd u < 0 \<and> \<not> prepared (mon u))) t"
proof -
  have "\<not> scsi_live (mon t)" "\<not> net_live (mon t)"
    using assms closed_not_live [of t] by (auto simp: releasing_def)
  with assms show ?thesis
    unfolding close_memory_def
    by (auto simp: wp_rules releasing_def config_def notifications_def backend_inv_def linked_def safe_snoc closed_def)
qed

lemma prove_quiescent_spec:
  assumes "releasing b t" and "memory t = MAP_FAILED" and "memory_fd t < 0"
  shows "wp (prove_quiescent env) (\<lambda>ok u. if ok then released (u\<lparr>token := 0, region := no_region\<rparr>) \<and>
     backend_inv (u\<lparr>token := 0, region := no_region\<rparr>) \<and> config u = config b \<and> blocks u = blocks b \<and>
     notifications u = notifications b
     else releasing b u) t"
proof -
  have "\<not> scsi_live (mon t)" "\<not> net_live (mon t)"
    using assms closed_not_live [of t] by (auto simp: releasing_def)
  moreover have "\<not> mapped (mon t)" "\<not> prepared (mon t)"
    using assms by (auto simp: releasing_def backend_inv_def linked_def)
  ultimately show ?thesis
    using assms unfolding prove_quiescent_def
    by (auto simp: wp_rules releasing_def released_def config_def notifications_def backend_inv_def linked_def
        safe_snoc closed_def)
qed

definition release_post :: "backend \<Rightarrow> u32 \<Rightarrow> backend \<Rightarrow> bool" where
  "release_post b r t \<longleftrightarrow> backend_inv t \<and> config t = config b \<and> blocks t = blocks b \<and>
     notifications t = notifications b \<and>
     r \<in> {HYPER_IO_OK, HYPER_IO_QUIESCENCE_FAILED} \<and>
     (if r = HYPER_IO_OK then released t
      else token t = token b \<and> (closed Disk t \<and> closed Net t \<or> shared t = shared b))"


lemma release_post_failed: "releasing b t \<Longrightarrow> release_post b HYPER_IO_QUIESCENCE_FAILED t"
  by (simp add: release_post_def releasing_def)


lemma release_memory_spec:
  assumes "backend_inv b"
  shows "wp (release_memory env) (release_post b) b"
proof -
  have prove: "wp (prove_quiescent env) (\<lambda>ok u. if \<not> ok then release_post b HYPER_IO_QUIESCENCE_FAILED u
      else release_post b HYPER_IO_OK (u\<lparr>token := 0, region := no_region\<rparr>)) t"
    if "releasing b t" "memory t = MAP_FAILED" "memory_fd t < 0" for t
    by (rule wp_mono [OF prove_quiescent_spec [OF that]])
       (auto simp: releasing_def release_post_def config_def notifications_def split: if_splits)
  have close: "wp (close_memory env) (\<lambda>ok u. if \<not> ok then release_post b HYPER_IO_QUIESCENCE_FAILED u
      else wp (prove_quiescent env) (\<lambda>ok u. if \<not> ok then release_post b HYPER_IO_QUIESCENCE_FAILED u
        else release_post b HYPER_IO_OK (u\<lparr>token := 0, region := no_region\<rparr>)) u) t"
    if "releasing b t" "memory t = MAP_FAILED" for t
    by (rule wp_mono [OF close_memory_spec [OF that]]) (use prove in \<open>auto simp: release_post_failed\<close>)
  have unmap: "wp (unmap_memory env) (\<lambda>ok u. if \<not> ok then release_post b HYPER_IO_QUIESCENCE_FAILED u
      else wp (close_memory env) (\<lambda>ok u. if \<not> ok then release_post b HYPER_IO_QUIESCENCE_FAILED u
        else wp (prove_quiescent env) (\<lambda>ok u. if \<not> ok then release_post b HYPER_IO_QUIESCENCE_FAILED u
          else release_post b HYPER_IO_OK (u\<lparr>token := 0, region := no_region\<rparr>)) u) u) t"
    if "releasing b t" for t
    by (rule wp_mono [OF unmap_memory_spec [OF that]]) (use close in \<open>auto simp: release_post_failed\<close>)
  have start: "releasing b t"
    if "backend_inv t" "memory_kept b t" "closed Disk t" "closed Net t" for t
    using that by (simp add: releasing_def memory_kept_def shared_def)
  have fail: "release_post b HYPER_IO_QUIESCENCE_FAILED t" if "backend_inv t" "memory_kept b t" for t
    using that by (simp add: release_post_def memory_kept_def shared_def)
  show ?thesis
    unfolding release_memory_def wp_rules
    by (rule wp_mono [OF quiesce_all_spec [OF assms]]) (use unmap [OF start] fail in auto)
qed


section \<open>The page array of a grant\<close>

lemma foldl_update_upt:
  assumes "c + n \<le> length ps"
  shows "foldl (\<lambda>qs k. qs[c + k := f k]) ps [0..<n] = take c ps @ map f [0..<n] @ drop (c + n) ps"
  using assms
proof (induction n)
  case (Suc n)
  then have "drop (c + n) ps = ps ! (c + n) # drop (Suc (c + n)) ps"
    by (simp add: Cons_nth_drop_Suc)
  with Suc show ?case
    by (simp add: list_update_append)
qed simp

lemma page_add:
  fixes x y z :: nat
  assumes "x mod 4096 = 0" and "y mod 4096 = 0"
  shows "(x + y) mod 4096 = 0" and "(x + y) div 4096 = x div 4096 + y div 4096"
    and "x + y \<le> z \<Longrightarrow> x div 4096 + y div 4096 \<le> z div 4096"
proof -
  obtain p q where pq: "x = 4096 * p" "y = 4096 * q" using assms by (auto dest!: mod_0_imp_dvd elim!: dvdE)
  then show "(x + y) mod 4096 = 0" by simp
  show sum: "(x + y) div 4096 = x div 4096 + y div 4096"
    using pq by (simp add: distrib_left [symmetric] del: distrib_left_numeral)
  show "x + y \<le> z \<Longrightarrow> x div 4096 + y div 4096 \<le> z div 4096"
    unfolding sum [symmetric] by (rule div_le_mono)
qed

definition extent_pages :: "u64 \<Rightarrow> u64 \<Rightarrow> u64 list" where
  "extent_pages alias len = map (\<lambda>k. alias + 4096 * of_nat k) [0..<unat len div 4096]"

lemma extent_steps_aligned:
  "unat len mod 4096 = 0 \<Longrightarrow> extent_steps len = map (\<lambda>k. 4096 * of_nat k) [0..<unat len div 4096]"
proof -
  assume "unat len mod 4096 = 0"
  then have "(unat len + 4095) div 4096 = unat len div 4096" by (auto dest!: mod_0_imp_dvd elim!: dvdE)
  then show ?thesis by (simp add: extent_steps_def)
qed

lemma extent_index:
  assumes "unat cursor mod 4096 = 0" and "unat cursor + 4096 * k < 2 ^ 64"
  shows "unat ((cursor + 4096 * of_nat k :: u64) div 4096) = unat cursor div 4096 + k"
proof -
  have k: "unat (of_nat k :: u64) = k"
    using assms(2) by (simp add: unat_of_nat)
  then have m: "unat (4096 * of_nat k :: u64) = 4096 * k"
    using assms(2) by (subst unat_mult_le) simp_all
  then have "unat (cursor + 4096 * of_nat k) = unat cursor + 4096 * k"
    using assms(2) by (subst unat_add_le) simp_all
  then show ?thesis using assms(1) by (simp add: unat_div_distrib)
qed

text \<open>No store of the inner loop is out of the bounds of the page array.\<close>

lemma store_extent_bounds:
  assumes "hyper_io_extent_valid cursor tot alias offset len" and "unat cursor mod 4096 = 0"
    and "at \<in> set (extent_steps len)"
  shows "unat ((cursor + at) div 4096) < unat tot div 4096"
proof -
  have v: "unat len mod 4096 = 0" "unat cursor + unat len \<le> unat tot"
    using assms(1) by (simp_all add: extent_valid_nat)
  with assms(3) obtain k where k: "at = 4096 * of_nat k" "k < unat len div 4096"
    by (auto simp: extent_steps_aligned)
  then have "unat cursor + 4096 * k < 2 ^ 64"
    using v u64_bound [of tot] by simp
  with k have "unat ((cursor + at) div 4096) = unat cursor div 4096 + k"
    using extent_index [OF assms(2)] by simp
  also have "\<dots> < unat tot div 4096"
    using page_add(3) [OF assms(2) v] k(2) by simp
  finally show ?thesis .
qed

lemma foldl_cong_map:
  assumes "\<And>k. k \<in> set ks \<Longrightarrow> g k = h k"
  shows "foldl (\<lambda>qs x. qs[g x := f x]) ps ks = foldl (\<lambda>qs x. qs[h x := f x]) ps ks"
  using assms by (induction ks arbitrary: ps) simp_all

lemma store_extent_pages:
  assumes "hyper_io_extent_valid cursor tot alias offset len" and "unat cursor mod 4096 = 0"
    and "length pages = unat tot div 4096"
  shows "store_extent cursor alias len pages =
    take (unat cursor div 4096) pages @ extent_pages alias len @
    drop (unat cursor div 4096 + unat len div 4096) pages"
proof -
  have v: "unat len mod 4096 = 0" "unat cursor + unat len \<le> unat tot"
    using assms(1) by (simp_all add: extent_valid_nat)
  let ?n = "unat len div 4096" and ?c = "unat cursor div 4096"
  have fits: "?c + ?n \<le> length pages" using page_add(3) [OF assms(2) v] assms(3) by simp
  have idx: "unat ((cursor + 4096 * of_nat k) div 4096) = ?c + k" if "k \<in> set [0..<?n]" for k
    using that v assms(2) u64_bound [of tot] by (intro extent_index) simp_all
  have "store_extent cursor alias len pages =
      foldl (\<lambda>ps k. ps[unat ((cursor + 4096 * of_nat k) div 4096) := alias + 4096 * of_nat k]) pages [0..<?n]"
    by (simp add: store_extent_def extent_steps_aligned [OF v(1)] foldl_map)
  also have "\<dots> = foldl (\<lambda>ps k. ps[?c + k := alias + 4096 * of_nat k]) pages [0..<?n]"
    by (rule foldl_cong_map) (rule idx)
  also have "\<dots> = take ?c pages @ extent_pages alias len @ drop (?c + ?n) pages"
    unfolding extent_pages_def by (rule foldl_update_upt [OF fits])
  finally show ?thesis .
qed

lemma length_store_extent [simp]: "length (store_extent c a l ps) = length ps"
proof -
  have "length (foldl (\<lambda>qs x. qs[g x := f x]) ps xs) = length ps" for g :: "u64 \<Rightarrow> nat" and f xs ps
    by (induction xs arbitrary: ps) simp_all
  then show ?thesis by (simp add: store_extent_def)
qed

text \<open>
  The walk visits the extents in order; what it stores is the concatenation of their pages, and
  the cursor marks how far the array is filled.
\<close>

definition answer_pages :: "answer \<Rightarrow> u64 list" where
  "answer_pages a = extent_pages (extent_alias a) (extent_length a)"

definition walk_post :: "u64 \<Rightarrow> nat \<Rightarrow> u64 \<Rightarrow> u64 list \<Rightarrow> backend \<Rightarrow> (u64 \<times> u64 list) option \<Rightarrow> backend \<Rightarrow> bool" where
  "walk_post len n cursor pages b r t \<longleftrightarrow> quietly b t \<and>
     (\<forall>cursor' pages'. r = Some (cursor', pages') \<longrightarrow>
       length pages' = length pages \<and> unat cursor' mod 4096 = 0 \<and> unat cursor' \<le> unat len \<and>
       (\<exists>answers. map snd (events t) = map snd (events b) @ answers \<and> length answers = n \<and>
          take (unat cursor' div 4096) pages' =
            take (unat cursor div 4096) pages @ concat (map answer_pages answers)))"

lemma walk_post_step:
  assumes "hyper_io_extent_valid cursor len (extent_alias a) (extent_offset a) (extent_length a)"
    and "unat cursor mod 4096 = 0" and "length pages = unat len div 4096"
    and "a = env (events b) c" and "quiet c"
    and "walk_post len n (cursor + extent_length a)
           (store_extent cursor (extent_alias a) (extent_length a) pages) (called env c b) r t"
  shows "walk_post len (Suc n) cursor pages b r t"
proof -
  let ?l = "unat (extent_length a) div 4096" and ?c = "unat cursor div 4096"
  have v: "unat (extent_length a) mod 4096 = 0" "unat cursor + unat (extent_length a) \<le> unat len"
    using assms(1) by (simp_all add: extent_valid_nat)
  then have cur: "unat (cursor + extent_length a) = unat cursor + unat (extent_length a)"
    using u64_bound [of len] by (intro unat_add_le) simp
  then have next_page: "unat (cursor + extent_length a) div 4096 = ?c + ?l"
    using page_add(2) [OF assms(2) v(1)] by simp
  have fits: "?c + ?l \<le> length pages" using page_add(3) [OF assms(2) v] assms(3) by simp
  have "length (extent_pages (extent_alias a) (extent_length a)) = ?l" by (simp add: extent_pages_def)
  with fits have stored: "take (?c + ?l) (store_extent cursor (extent_alias a) (extent_length a) pages) =
      take ?c pages @ answer_pages a"
    unfolding store_extent_pages [OF assms(1-3)] answer_pages_def by simp
  show ?thesis unfolding walk_post_def
  proof (intro conjI allI impI)
    show "quietly b t"
      using assms(5,6) by (auto simp: walk_post_def intro: quietly_trans [of b "called env c b"])
  next
    fix cursor' pages' assume r: "r = Some (cursor', pages')"
    then show "length pages' = length pages" "unat cursor' mod 4096 = 0" "unat cursor' \<le> unat len"
      using assms(6) by (simp_all add: walk_post_def)
    obtain answers where "map snd (events t) = map snd (events (called env c b)) @ answers" "length answers = n"
      "take (unat cursor' div 4096) pages' =
        take (?c + ?l) (store_extent cursor (extent_alias a) (extent_length a) pages) @
        concat (map answer_pages answers)"
      using assms(6) r unfolding walk_post_def next_page by blast
    then show "\<exists>answers. map snd (events t) = map snd (events b) @ answers \<and> length answers = Suc n \<and>
        take (unat cursor' div 4096) pages' = take ?c pages @ concat (map answer_pages answers)"
      using assms(4) stored by (intro exI [of _ "a # answers"]) simp
  qed
qed

lemma walk_extents_spec:
  assumes "unat cursor mod 4096 = 0" and "unat cursor \<le> unat len" and "length pages = unat len div 4096"
  shows "wp (walk_extents env len n i cursor pages) (walk_post len n cursor pages b) b"
  using assms
proof (induction n arbitrary: i cursor pages b)
  case 0
  then show ?case by (simp add: wp_rules walk_post_def)
next
  case (Suc n)
  let ?c = "Ioctl (ep_notification (memory_endpoint b)) (HYPER_IO_EXTENT i)"
  let ?a = "env (events b) ?c"
  show ?case
  proof (cases "ret ?a \<noteq> 0 \<or>
      \<not> hyper_io_extent_valid cursor len (extent_alias ?a) (extent_offset ?a) (extent_length ?a)")
    case True
    then show ?thesis by (simp add: wp_rules walk_post_def)
  next
    case False
    then have v: "hyper_io_extent_valid cursor len (extent_alias ?a) (extent_offset ?a) (extent_length ?a)"
      by simp
    then have n: "unat (extent_length ?a) mod 4096 = 0" "unat cursor + unat (extent_length ?a) \<le> unat len"
      by (simp_all add: extent_valid_nat)
    then have "unat (cursor + extent_length ?a) = unat cursor + unat (extent_length ?a)"
      using u64_bound [of len] by (intro unat_add_le) simp
    with n Suc.prems have "wp (walk_extents env len n (i + 1) (cursor + extent_length ?a)
        (store_extent cursor (extent_alias ?a) (extent_length ?a) pages))
        (walk_post len n (cursor + extent_length ?a)
          (store_extent cursor (extent_alias ?a) (extent_length ?a) pages) (called env ?c b)) (called env ?c b)"
      by (intro Suc.IH) (simp_all add: page_add(1))
    then have "wp (walk_extents env len n (i + 1) (cursor + extent_length ?a)
        (store_extent cursor (extent_alias ?a) (extent_length ?a) pages))
        (walk_post len (Suc n) cursor pages b) (called env ?c b)"
      by (rule wp_mono) (rule walk_post_step [where env = env and c = ?c], use v Suc.prems in simp_all)
    with False show ?thesis by (simp add: wp_rules)
  qed
qed


section \<open>Preparing the memory\<close>

text \<open>A state of \<open>prepare_memory\<close> before the mapping exists, with the admission \<open>tok\<close>.\<close>

definition preparing :: "backend \<Rightarrow> u64 \<Rightarrow> backend \<Rightarrow> bool" where
  "preparing b tok t \<longleftrightarrow> backend_inv t \<and> config t = config b \<and> blocks t = blocks b \<and>
     notifications t = notifications b \<and> memory t = MAP_FAILED \<and> token t = tok \<and> managed t"

lemma preparing_frame [simp]:
  "quiet c \<Longrightarrow> preparing b tok (called env c t) \<longleftrightarrow> preparing b tok t"
  "preparing b tok (diagnosed t) \<longleftrightarrow> preparing b tok t"
  by (simp_all add: preparing_def config_def notifications_def)

lemma preparing_quietly: "preparing b tok t \<Longrightarrow> quietly t u \<Longrightarrow> preparing b tok u"
  using quietly_inv [of t u]
  by (auto simp: preparing_def) (auto simp: quietly_def config_def shared_def notifications_def)

lemma preparing_fd: "preparing b tok t \<Longrightarrow> 0 \<le> f \<Longrightarrow> preparing b tok (t\<lparr>memory_fd := f\<rparr>)"
  by (auto simp: preparing_def config_def notifications_def backend_inv_def linked_def closed_def)

lemma preparing_prepare:
  "preparing b tok t \<Longrightarrow> 0 \<le> memory_fd t \<Longrightarrow> preparing b tok (called env (Ioctl f (HYPER_MEMORY_PREPARE p)) t)"
  by (auto simp: preparing_def config_def notifications_def backend_inv_def linked_def closed_def safe_snoc)

lemma preparing_mmap_failed:
  "preparing b tok t \<Longrightarrow> word_of_int (ret (env (events t) (Mmap l f))) = MAP_FAILED \<Longrightarrow>
     preparing b tok (called env (Mmap l f) t)"
  by (auto simp: preparing_def config_def notifications_def backend_inv_def linked_def closed_def safe_snoc)

definition prepare_post :: "backend \<Rightarrow> hyper_memory_prepare \<Rightarrow> u32 \<Rightarrow> backend \<Rightarrow> bool" where
  "prepare_post b p r t \<longleftrightarrow> backend_inv t \<and> config t = config b \<and> blocks t = blocks b \<and>
     notifications t = notifications b \<and>
     (r = HYPER_IO_OK \<longrightarrow> memory t \<noteq> MAP_FAILED \<and> 0 \<le> memory_fd t \<and> token t = mp_token p \<and>
        region t = \<lparr>mi_guest_base = mp_guest_base p, mi_length = mp_length p\<rparr> \<and> closed Disk t \<and> closed Net t) \<and>
     (r = HYPER_IO_BACKEND_FAILURE \<longrightarrow> released t) \<and>
     (r \<in> {HYPER_IO_BUSY, HYPER_IO_INVALID} \<longrightarrow> shared t = shared b \<and> disk t = disk b \<and> net t = net b \<and>
        tap t = tap b) \<and>
     r \<in> {HYPER_IO_OK, HYPER_IO_BUSY, HYPER_IO_INVALID, HYPER_IO_BACKEND_FAILURE, HYPER_IO_QUIESCENCE_FAILED}"

lemma prepare_failed_spec:
  assumes "preparing b tok t"
  shows "wp (prepare_failed env) (prepare_post b p) t"
proof -
  have "wp (release_memory env) (\<lambda>r u. prepare_post b p
      (if r = HYPER_IO_OK then HYPER_IO_BACKEND_FAILURE else HYPER_IO_QUIESCENCE_FAILED) u) t"
    by (rule wp_mono [OF release_memory_spec])
       (use assms in \<open>auto simp: preparing_def release_post_def prepare_post_def\<close>)
  then show ?thesis by (simp add: prepare_failed_def wp_rules)
qed

lemma mapped_post:
  assumes "preparing b (mp_token p) t" and "0 \<le> f" and "m \<noteq> MAP_FAILED"
  shows "prepare_post b p HYPER_IO_OK (diagnosed (called env (Mmap l f') t)
     \<lparr>memory := m, memory_fd := f, token := mp_token p,
      region := \<lparr>mi_guest_base = mp_guest_base p, mi_length = mp_length p\<rparr>\<rparr>)"
proof -
  define u where "u = diagnosed (called env (Mmap l f') t)"
  have u: "disk u = disk t" "net u = net t" "tap u = tap t" "token u = token t"
    "config u = config t" "blocks u = blocks t" "notifications u = notifications t" "managed u = managed t"
    "safe (events u) \<longleftrightarrow> safe (events t)" "scsi_live (mon u) = scsi_live (mon t)"
    "net_live (mon u) = net_live (mon t)" "prepared (mon u) = prepared (mon t)"
    "admitted (mon u) = admitted (mon t)"
    by (simp_all add: u_def config_def notifications_def safe_snoc)
  show ?thesis unfolding u_def [symmetric]
    using assms u
    by (simp add: prepare_post_def preparing_def backend_inv_def linked_def closed_def endpoint_of_def
        config_def notifications_def) blast
qed

lemma map_memory_spec:
  assumes "preparing b (mp_token p) t"
  shows "wp (map_memory env p) (prepare_post b p) t"
  unfolding map_memory_def using assms
  by (auto simp: wp_rules preparing_fd preparing_prepare preparing_mmap_failed
      intro!: prepare_failed_spec [where tok = "mp_token p"] mapped_post)

lemma preparing_admitted:
  assumes "preparing b 0 t" and "tok \<noteq> 0" and "ret (env (events t) (Ioctl n (HYPER_IO_ADMIT tok g l))) = 0"
  shows "preparing b tok (called env (Ioctl n (HYPER_IO_ADMIT tok g l)) t\<lparr>token := tok\<rparr>)"
  using assms by (auto simp: preparing_def config_def notifications_def backend_inv_def linked_def closed_def safe_snoc)

lemma admit_rejected:
  assumes "preparing b 0 b" and "tok \<noteq> 0" and "ret (env (events b) (Ioctl n (HYPER_IO_ADMIT tok g l))) \<noteq> 0"
  shows "prepare_post b p HYPER_IO_INVALID (called env (Ioctl n (HYPER_IO_ADMIT tok g l)) b)"
  using assms
  by (auto simp: preparing_def prepare_post_def config_def notifications_def shared_def backend_inv_def linked_def
      closed_def safe_snoc)

lemma prepare_post_pages: "prepare_post b (p\<lparr>mp_pages := x, mp_count := y\<rparr>) r t \<longleftrightarrow> prepare_post b p r t"
  by (simp add: prepare_post_def)

lemma wp_walk_extents:
  assumes "preparing b tok t" and "\<And>r u. preparing b tok u \<Longrightarrow> Q r u"
  shows "wp (walk_extents env len n 0 0 (replicate (unat (len div 4096)) 0)) Q t"
proof -
  have "wp (walk_extents env len n 0 0 (replicate (unat (len div 4096)) 0))
     (walk_post len n 0 (replicate (unat (len div 4096)) 0) t) t"
    by (rule walk_extents_spec) (simp_all add: unat_div_distrib)
  then show ?thesis
    by (rule wp_mono) (use assms preparing_quietly in \<open>auto simp: walk_post_def\<close>)
qed

lemma admit_memory_spec:
  assumes "preparing b 0 b" and "mp_token p \<noteq> 0"
  shows "wp (admit_memory env p) (prepare_post b p) b"
proof -
  have map: "wp (map_memory env (p\<lparr>mp_pages := x, mp_count := y\<rparr>)) (prepare_post b p) t"
    if "preparing b (mp_token p) t" for x y t
    using map_memory_spec [of b "p\<lparr>mp_pages := x, mp_count := y\<rparr>" t env] that
    by (simp add: prepare_post_pages [abs_def])
  have inv: "prepare_post b p HYPER_IO_INVALID b"
    using assms(1) by (simp add: preparing_def prepare_post_def)
  show ?thesis
    unfolding admit_memory_def Let_def using assms
    by (auto simp: wp_rules inv admit_rejected preparing_admitted split: option.split
        intro!: wp_walk_extents [where b = b and tok = "mp_token p"] prepare_failed_spec [where tok = "mp_token p"] map)
qed

lemma prepare_memory_spec:
  assumes "backend_inv b"
  shows "wp (prepare_memory env m) (prepare_post b (prepare_of m)) b"
proof -
  have rej: "prepare_post b p HYPER_IO_BUSY b" "prepare_post b p HYPER_IO_INVALID b" for p
    using assms by (simp_all add: prepare_post_def)
  have start: "preparing b 0 b" if "managed b" "memory b = MAP_FAILED" "token b = 0"
    using that assms by (simp add: preparing_def)
  show ?thesis
    unfolding prepare_memory_def Let_def
    by (auto simp: wp_rules rej start prepare_of_def intro!: admit_memory_spec map_memory_spec)
qed


text \<open>
  The array handed to the guest memory module: on success it is the concatenation of the pages of
  the extents the host returned, in the order of the calls, and has exactly one entry per page.
\<close>

definition prepare_call :: "hyper_memory_prepare \<Rightarrow> backend \<Rightarrow> bool" where
  "prepare_call p t \<longleftrightarrow> (\<exists>f. Ioctl f (HYPER_MEMORY_PREPARE p) \<in> fst ` set (events t))"

lemma prepare_failed_status: "wp (prepare_failed env) (\<lambda>r t. r = HYPER_IO_OK \<longrightarrow> P t) s"
  unfolding prepare_failed_def by (simp add: wp_rules) (simp add: wp_def split: prod.split)

lemma map_memory_call:
  "wp (map_memory env p) (\<lambda>r t. r = HYPER_IO_OK \<longrightarrow> prepare_call p t \<and> set (events s) \<subseteq> set (events t)) s"
  unfolding map_memory_def
  by (auto simp: wp_rules prepare_call_def intro!: prepare_failed_status)

definition granted :: "hyper_memory_prepare \<Rightarrow> backend \<Rightarrow> bool" where
  "granted p t \<longleftrightarrow> (\<exists>answers. set answers \<subseteq> snd ` set (events t) \<and>
     length (concat (map answer_pages answers)) = unat (mp_length p) div 4096 \<and>
     prepare_call (p\<lparr>mp_pages := concat (map answer_pages answers), mp_count := ucast (mp_length p div 4096)\<rparr>) t)"

lemma walked_granted:
  assumes "walk_post (mp_length p) n 0 (replicate (unat (mp_length p div 4096)) 0) b (Some (mp_length p, pages)) s"
  shows "wp (map_memory env (p\<lparr>mp_pages := pages, mp_count := ucast (mp_length p div 4096)\<rparr>))
    (\<lambda>r t. r = HYPER_IO_OK \<longrightarrow> granted p t) s"
proof -
  obtain answers where a: "map snd (events s) = map snd (events b) @ answers"
    "take (unat (mp_length p) div 4096) pages = concat (map answer_pages answers)"
    and l: "length pages = unat (mp_length p) div 4096"
    using assms by (auto simp: walk_post_def unat_div_distrib)
  have ans: "set answers \<subseteq> snd ` set (events s)"
    using arg_cong [OF a(1), of set] by auto
  have pages: "pages = concat (map answer_pages answers)" using a(2) l by simp
  show ?thesis
    by (rule wp_mono [OF map_memory_call [where s = s]])
       (use ans pages l in \<open>auto simp: granted_def intro!: exI [of _ answers]\<close>)
qed

lemma admit_memory_granted:
  "wp (admit_memory env p) (\<lambda>r t. r = HYPER_IO_OK \<longrightarrow> granted p t) b"
proof -
  have "wp (walk_extents env (mp_length p) n 0 0 (replicate (unat (mp_length p div 4096)) 0))
     (\<lambda>r s. case r of None \<Rightarrow> wp (prepare_failed env) (\<lambda>r t. r = HYPER_IO_OK \<longrightarrow> granted p t) s
        | Some (cursor, pages) \<Rightarrow>
           if cursor \<noteq> mp_length p then wp (prepare_failed env) (\<lambda>r t. r = HYPER_IO_OK \<longrightarrow> granted p t) s
           else wp (map_memory env (p\<lparr>mp_pages := pages, mp_count := ucast (mp_length p div 4096)\<rparr>))
             (\<lambda>r t. r = HYPER_IO_OK \<longrightarrow> granted p t) s) t" for n t
    by (rule wp_mono [OF walk_extents_spec [where b = t]])
       (auto simp: unat_div_distrib prepare_failed_status walked_granted split: option.split)
  then show ?thesis
    unfolding admit_memory_def Let_def
    by (auto simp: wp_rules prepare_failed_status cong: option.case_cong)
qed

lemma prepare_memory_granted:
  "wp (prepare_memory env m) (\<lambda>r t. r = HYPER_IO_OK \<longrightarrow> p_token m \<noteq> 0 \<longrightarrow> granted (prepare_of m) t) b"
proof -
  have "wp (admit_memory env (prepare_of m)) (\<lambda>r t. r = HYPER_IO_OK \<longrightarrow> p_token m \<noteq> 0 \<longrightarrow> granted (prepare_of m) t) b"
    by (rule wp_mono [OF admit_memory_granted]) simp
  moreover have "wp (map_memory env (prepare_of m)) (\<lambda>r t. r = HYPER_IO_OK \<longrightarrow> p_token m \<noteq> 0 \<longrightarrow> granted (prepare_of m) t) b"
    if "p_token m = 0" using that by (simp add: wp_def split: prod.split)
  ultimately show ?thesis
    unfolding prepare_memory_def Let_def by (auto simp: wp_rules prepare_of_def)
qed

end
