(* ===== verification/Text.thy ===== *)
theory Text
  imports Prelude
begin

text \<open>
  The C string functions the sources use, on HOL strings: \<open>fgets\<close> and the scanning of words by
  \<open>sscanf\<close>, the character classes, \<open>strtoul\<close> in base ten, and the \<open>%u\<close> and \<open>%09x\<close> conversions of
  \<open>snprintf\<close>. A C string ends at its first NUL, so a line read from a file is cut there.
\<close>

section \<open>Characters\<close>

abbreviation code :: "char \<Rightarrow> nat" where "code c \<equiv> of_char c"

definition isdigit :: "char \<Rightarrow> bool" where
  "isdigit c \<longleftrightarrow> 48 \<le> code c \<and> code c \<le> 57"

definition islower :: "char \<Rightarrow> bool" where
  "islower c \<longleftrightarrow> 97 \<le> code c \<and> code c \<le> 122"

definition isupper :: "char \<Rightarrow> bool" where
  "isupper c \<longleftrightarrow> 65 \<le> code c \<and> code c \<le> 90"

definition isspace :: "char \<Rightarrow> bool" where
  "isspace c \<longleftrightarrow> code c = 32 \<or> (9 \<le> code c \<and> code c \<le> 13)"

definition newline :: char where "newline = char_of (10 :: nat)"

definition nul :: char where "nul = char_of (0 :: nat)"

definition c_string :: "string \<Rightarrow> string" where
  "c_string s = takeWhile (\<lambda>c. c \<noteq> nul) s"

section \<open>Lines of a file\<close>

text \<open>One \<open>fgets(line, n, file)\<close> on the unread rest of a file: at most \<open>n - 1\<close> characters, up to
  and including a newline.\<close>

definition fgets :: "nat \<Rightarrow> string \<Rightarrow> string \<times> string" where
  "fgets n s =
     (let pre = takeWhile (\<lambda>c. c \<noteq> newline) s;
          k = min (n - 1) (if length pre < length s then Suc (length pre) else length pre)
      in (take k s, drop k s))"

text \<open>All results of repeated \<open>fgets\<close> calls until the end of the file.\<close>

function file_lines :: "nat \<Rightarrow> string \<Rightarrow> string list" where
  "file_lines n s =
     (if s = [] \<or> n < 2 then []
      else c_string (fst (fgets n s)) # file_lines n (snd (fgets n s)))"
  by pat_completeness auto

lemma fgets_shrinks: "s \<noteq> [] \<Longrightarrow> 2 \<le> n \<Longrightarrow> length (snd (fgets n s)) < length s"
  by (cases s) (auto simp: fgets_def Let_def)

termination file_lines
  by (relation "measure (\<lambda>(n, s). length s)") (auto simp: fgets_shrinks)

declare file_lines.simps [simp del]

lemma fgets_split: "fst (fgets n s) @ snd (fgets n s) = s"
  by (simp add: fgets_def Let_def)

lemma fgets_bound: "length (fst (fgets n s)) \<le> n - 1"
  by (simp add: fgets_def Let_def)

section \<open>Words of a line\<close>

definition skip_space :: "string \<Rightarrow> string" where
  "skip_space s = dropWhile isspace s"

text \<open>One \<open>%ns\<close> conversion: the word and the rest, or a matching failure at the end.\<close>

definition scan_word :: "nat \<Rightarrow> string \<Rightarrow> (string \<times> string) option" where
  "scan_word n s =
     (let t = skip_space s; w = take n (takeWhile (\<lambda>c. \<not> isspace c) t)
      in if w = [] then None else Some (w, drop (length w) t))"

text \<open>\<open>sscanf\<close> with a list of \<open>%ns\<close> conversions: the converted words and the unread rest.\<close>

fun scan_words :: "nat list \<Rightarrow> string \<Rightarrow> string list \<times> string" where
  "scan_words [] s = ([], s)"
| "scan_words (n # ns) s =
     (case scan_word n s of
        None \<Rightarrow> ([], skip_space s)
      | Some (w, r) \<Rightarrow> (let (ws, t) = scan_words ns r in (w # ws, t)))"

text \<open>
  \<open>sscanf(line, "%n1s .. %nks %c", ..) == k\<close>: exactly the \<open>k\<close> words and nothing but white space
  after them.
\<close>

definition scan_exactly :: "nat list \<Rightarrow> string \<Rightarrow> string list option" where
  "scan_exactly ns s =
     (let (ws, r) = scan_words ns s
      in if length ws = length ns \<and> skip_space r = [] then Some ws else None)"

lemma scan_word_props:
  assumes "scan_word n s = Some (w, r)"
  shows "w \<noteq> [] \<and> length w \<le> n \<and> (\<forall>c\<in>set w. \<not> isspace c)"
  using assms by (auto simp: scan_word_def Let_def dest!: in_set_takeD set_takeWhileD split: if_splits)

lemma scan_words_props:
  assumes "i < length (fst (scan_words ns s))"
  shows "i < length ns \<and> fst (scan_words ns s) ! i \<noteq> [] \<and> length (fst (scan_words ns s) ! i) \<le> ns ! i \<and>
    (\<forall>c\<in>set (fst (scan_words ns s) ! i). \<not> isspace c)"
  using assms
proof (induction ns s arbitrary: i rule: scan_words.induct)
  case (2 n ns s)
  show ?case
  proof (cases "scan_word n s")
    case (Some a)
    then obtain w r where a: "scan_word n s = Some (w, r)" by (cases a) simp
    show ?thesis
      using 2(2) 2(1) [OF a refl] scan_word_props [OF a]
      by (cases i) (auto simp: a case_prod_beta Let_def)
  qed (use 2 in simp)
qed simp

lemma scan_exactly_props:
  assumes "scan_exactly ns s = Some ws"
  shows "length ws = length ns"
    and "i < length ns \<Longrightarrow> ws ! i \<noteq> [] \<and> length (ws ! i) \<le> ns ! i \<and> (\<forall>c\<in>set (ws ! i). \<not> isspace c)"
  using assms scan_words_props [of i ns s]
  by (auto simp: scan_exactly_def Let_def case_prod_beta split: if_splits)

section \<open>Numbers\<close>

definition digit_value :: "char \<Rightarrow> nat" where
  "digit_value c = code c - 48"

definition decimal_value :: "string \<Rightarrow> nat" where
  "decimal_value s = foldl (\<lambda>v c. 10 * v + digit_value c) 0 s"

text \<open>
  \<open>strtoul(s, &end, 10)\<close>: the value and the string \<open>end\<close> points to. White space and a sign are
  skipped, an out of range number gives \<open>ULONG_MAX\<close>, and without digits nothing is consumed.
\<close>

definition strtoul :: "string \<Rightarrow> u64 \<times> string" where
  "strtoul s =
     (let t = skip_space s;
          negative = (t \<noteq> [] \<and> hd t = CHR ''-'');
          u = (if t \<noteq> [] \<and> (hd t = CHR ''-'' \<or> hd t = CHR ''+'') then tl t else t);
          ds = takeWhile isdigit u;
          v = decimal_value ds
      in if ds = [] then (0, s)
         else (if v \<ge> 2 ^ 64 then - 1 else if negative then - of_nat v else of_nat v,
               drop (length ds) u))"

text \<open>\<open>%u\<close>.\<close>

definition digit_char :: "nat \<Rightarrow> char" where
  "digit_char d = (if d < 10 then char_of (48 + d) else char_of (87 + d))"

function decimal :: "nat \<Rightarrow> string" where
  "decimal n = (if n < 10 then [digit_char n] else decimal (n div 10) @ [digit_char (n mod 10)])"
  by pat_completeness auto

termination decimal
  by (relation "measure id") auto

declare decimal.simps [simp del]

text \<open>\<open>%09x\<close> for values below \<open>16 ^ 9\<close>: every \<open>unsigned\<close> is.\<close>

primrec hex_digits :: "nat \<Rightarrow> nat \<Rightarrow> string" where
  "hex_digits 0 v = []"
| "hex_digits (Suc n) v = hex_digits n (v div 16) @ [digit_char (v mod 16)]"

lemma digit_char_value [simp]: "d < 10 \<Longrightarrow> digit_value (digit_char d) = d"
  by (simp add: digit_value_def digit_char_def)

lemma digit_char_isdigit [simp]: "d < 10 \<Longrightarrow> isdigit (digit_char d)"
  by (simp add: isdigit_def digit_char_def)

lemma decimal_isdigit: "c \<in> set (decimal n) \<Longrightarrow> isdigit c"
proof (induction n rule: decimal.induct)
  case (1 n)
  then show ?case by (subst (asm) (2) decimal.simps) (auto split: if_splits)
qed

lemma decimal_nonempty [simp]: "decimal n \<noteq> []"
  by (subst decimal.simps) simp

lemma decimal_value_decimal [simp]: "decimal_value (decimal n) = n"
proof (induction n rule: decimal.induct)
  case (1 n)
  then show ?case
    by (subst decimal.simps) (auto simp: decimal_value_def mult.commute [of 10])
qed

lemma isdigit_not_space: "isdigit c \<Longrightarrow> \<not> isspace c"
  by (auto simp: isdigit_def isspace_def)

lemma skip_space_id: "s = [] \<or> \<not> isspace (hd s) \<Longrightarrow> skip_space s = s"
  by (cases s) (auto simp: skip_space_def)

text \<open>Printing a number and reading it back.\<close>

lemma strtoul_decimal:
  assumes "n < 2 ^ 64"
  shows "strtoul (decimal n) = (of_nat n, [])"
proof -
  have hd: "isdigit (hd (decimal n))" by (rule decimal_isdigit [OF hd_in_set]) simp
  then have "skip_space (decimal n) = decimal n"
    by (intro skip_space_id) (simp add: isdigit_not_space)
  moreover have "hd (decimal n) \<noteq> CHR ''-''" "hd (decimal n) \<noteq> CHR ''+''"
    using hd by (auto simp: isdigit_def)
  moreover have "takeWhile isdigit (decimal n) = decimal n"
    by (simp add: takeWhile_eq_all_conv decimal_isdigit)
  ultimately show ?thesis using assms by (simp add: strtoul_def Let_def del: takeWhile_eq_all_conv)
qed

end
