(* ===== verification/Config.thy ===== *)
theory Config
  imports Text Backend
begin

text \<open>
  The boot configuration: the parsers of \<open>include/hyper_network.h\<close>, \<open>service/client-config.c\<close> and
  \<open>service/network-config.c\<close>. A file is opened by one call whose answer carries its contents
  (\<open>str\<close>) and whether a read error ends it (\<open>out 0\<close>); parsing is then pure. The parsers return
  \<open>None\<close> for every \<open>goto invalid\<close> and \<open>goto bad\<close>.
\<close>

section \<open>Network resources and MAC addresses\<close>

abbreviation (input) HYPER_NET_RX_BACKLOG_PACKETS :: u32 where "HYPER_NET_RX_BACKLOG_PACKETS \<equiv> 1000"
abbreviation (input) HYPER_NET_RX_BACKLOG_MAX :: u32 where "HYPER_NET_RX_BACKLOG_MAX \<equiv> 65536"
abbreviation (input) HYPER_NET_TX_BUFFER_MIN :: u32 where "HYPER_NET_TX_BUFFER_MIN \<equiv> 65536"
abbreviation (input) HYPER_SCSI_REQUEST_QUEUES :: u32 where "HYPER_SCSI_REQUEST_QUEUES \<equiv> 4"
abbreviation (input) HYPER_SCSI_SG_PREALLOC :: u32 where "HYPER_SCSI_SG_PREALLOC \<equiv> 128"
abbreviation (input) INT_MAX :: u32 where "INT_MAX \<equiv> 2147483647"

fun resource_digits :: "u32 \<Rightarrow> string \<Rightarrow> u32 option" where
  "resource_digits result [] = Some result"
| "resource_digits result (c # cs) =
     (if \<not> isdigit c then None
      else let digit = of_nat (digit_value c)
           in if result > (INT_MAX - digit) div 10 then None
              else resource_digits (result * 10 + digit) cs)"

definition hyper_network_resource_number :: "string \<Rightarrow> u32 option" where
  "hyper_network_resource_number s = (if s = [] then None else resource_digits 0 s)"

definition hyper_network_resources_parse :: "string \<Rightarrow> string \<Rightarrow> hyper_network_resources option" where
  "hyper_network_resources_parse rx tx =
     (case hyper_network_resource_number rx of
        None \<Rightarrow> None
      | Some r \<Rightarrow> (case hyper_network_resource_number tx of
          None \<Rightarrow> None
        | Some t \<Rightarrow>
            if r = 0 \<or> r > HYPER_NET_RX_BACKLOG_MAX \<or> (t \<noteq> 0 \<and> t < HYPER_NET_TX_BUFFER_MIN) then None
            else Some \<lparr>rx_backlog_packets = r, tx_buffer_bytes = t\<rparr>))"

definition mac_digit :: "char \<Rightarrow> nat option" where
  "mac_digit c =
     (if isdigit c then Some (code c - 48)
      else if 97 \<le> code c \<and> code c \<le> 102 then Some (code c - 97 + 10)
      else None)"

text \<open>Byte \<open>i\<close> of a MAC text: two digits, and a colon after all but the last.\<close>

definition mac_byte :: "string \<Rightarrow> nat \<Rightarrow> u8 option" where
  "mac_byte s i =
     (case mac_digit (s ! (3 * i)) of
        None \<Rightarrow> None
      | Some h \<Rightarrow> (case mac_digit (s ! (3 * i + 1)) of
          None \<Rightarrow> None
        | Some l \<Rightarrow>
            if i \<noteq> 5 \<and> s ! (3 * i + 2) \<noteq> CHR '':'' then None else Some (of_nat (h * 16 + l))))"

definition hyper_mac_parse :: "string \<Rightarrow> bytes option" where
  "hyper_mac_parse s =
     (if length s \<noteq> 17 then None
      else case those (map (mac_byte s) [0..<6]) of
        None \<Rightarrow> None
      | Some address \<Rightarrow> if address ! 0 AND 3 = 2 then Some address else None)"

section \<open>The client inventory\<close>

record hyper_client =
  c_id :: u32
  c_request_queues :: u32
  c_sg_prealloc :: u32
  c_net_resources :: hyper_network_resources
  c_network :: string
  c_mac :: string

definition network_name :: "string \<Rightarrow> bool" where
  "network_name name \<longleftrightarrow> name \<noteq> [] \<and> islower (hd name) \<and>
     list_all (\<lambda>c. islower c \<or> isdigit c \<or> c = CHR ''-'') name"

text \<open>The three versions of the file: \<open>(resources, net_res)\<close>.\<close>

definition clients_version :: "string \<Rightarrow> (bool \<times> bool) option" where
  "clients_version line =
     (if line = ''hyper.clients.v5'' @ [newline] then Some (True, True)
      else if line = ''hyper.clients.v4'' @ [newline] then Some (True, False)
      else if line = ''hyper.clients.v3'' @ [newline] then Some (False, False)
      else None)"

definition client_widths :: "bool \<Rightarrow> bool \<Rightarrow> nat list" where
  "client_widths resources net_res =
     [7, 31, 17] @ (if resources then [7, 7] else []) @ (if net_res then [11, 11] else [])"

definition default_net_resources :: hyper_network_resources where
  "default_net_resources = \<lparr>rx_backlog_packets = HYPER_NET_RX_BACKLOG_PACKETS, tx_buffer_bytes = 0\<rparr>"

text \<open>The resource columns of a line: network, then SCSI.\<close>

definition client_net_resources :: "bool \<Rightarrow> string list \<Rightarrow> hyper_network_resources option" where
  "client_net_resources net_res ws =
     (if net_res then hyper_network_resources_parse (ws ! 5) (ws ! 6) else Some default_net_resources)"

definition client_scsi_resources :: "bool \<Rightarrow> string list \<Rightarrow> (u32 \<times> u32) option" where
  "client_scsi_resources resources ws =
     (if \<not> resources then Some (HYPER_SCSI_REQUEST_QUEUES, HYPER_SCSI_SG_PREALLOC)
      else if \<not> list_all isdigit (ws ! 3) \<or> \<not> list_all isdigit (ws ! 4) then None
      else let queues = ucast (fst (strtoul (ws ! 3))); sg = ucast (fst (strtoul (ws ! 4)))
           in if hyper_scsi_resources_valid queues sg then Some (queues, sg) else None)"

text \<open>The identity columns: number, network name and MAC, and their clash with earlier lines.\<close>

definition client_identity_ok :: "hyper_client list \<Rightarrow> u64 \<Rightarrow> string \<Rightarrow> string \<Rightarrow> bool" where
  "client_identity_ok clients number net_name mac_text =
     (let net_used = (net_name \<noteq> ''-'')
      in number < of_nat HYPER_BLOCK_CLIENTS \<and>
         \<not> (net_used \<and> (number = 0 \<or> \<not> network_name net_name \<or> hyper_mac_parse mac_text = None)) \<and>
         \<not> (\<not> net_used \<and> mac_text \<noteq> ''-'') \<and>
         \<not> list_ex (\<lambda>c. c_id c = ucast number \<or> (net_used \<and> c_mac c = mac_text)) clients)"

definition parse_client :: "bool \<Rightarrow> bool \<Rightarrow> hyper_client list \<Rightarrow> string \<Rightarrow> hyper_client option" where
  "parse_client resources net_res clients line =
     (if length clients = HYPER_BLOCK_CLIENTS \<or> newline \<notin> set line then None
      else case scan_exactly (client_widths resources net_res) line of
        None \<Rightarrow> None
      | Some ws \<Rightarrow> (case client_net_resources net_res ws of
          None \<Rightarrow> None
        | Some nr \<Rightarrow> (case client_scsi_resources resources ws of
            None \<Rightarrow> None
          | Some (queues, sg) \<Rightarrow>
              if \<not> list_all isdigit (ws ! 0) then None
              else if \<not> client_identity_ok clients (fst (strtoul (ws ! 0))) (ws ! 1) (ws ! 2) then None
              else Some \<lparr>c_id = ucast (fst (strtoul (ws ! 0))), c_request_queues = queues,
                c_sg_prealloc = sg, c_net_resources = nr, c_network = ws ! 1, c_mac = ws ! 2\<rparr>)))"

fun parse_clients ::
    "bool \<Rightarrow> bool \<Rightarrow> hyper_client list \<Rightarrow> nat \<Rightarrow> string list \<Rightarrow> (hyper_client list \<times> nat) option" where
  "parse_clients resources net_res clients owner [] = Some (clients, owner)"
| "parse_clients resources net_res clients owner (line # lines) =
     (case parse_client resources net_res clients line of
        None \<Rightarrow> None
      | Some c \<Rightarrow> parse_clients resources net_res (clients @ [c])
          (owner + (if c_id c = 0 then 1 else 0)) lines)"

definition clients_of_file :: "string \<Rightarrow> bool \<Rightarrow> hyper_client list option" where
  "clients_of_file contents read_error =
     (case file_lines 160 contents of
        [] \<Rightarrow> None
      | header # lines \<Rightarrow> (case clients_version header of
          None \<Rightarrow> None
        | Some (resources, net_res) \<Rightarrow>
            (case parse_clients resources net_res [] 0 lines of
               None \<Rightarrow> None
             | Some (clients, owner) \<Rightarrow> if read_error \<or> owner \<noteq> 1 then None else Some clients)))"

definition hyper_clients_read :: "env \<Rightarrow> string \<Rightarrow> ('a host_scheme, hyper_client list option) state" where
  "hyper_clients_read env path = do {
     f \<leftarrow> call env (Fopen path);
     if ret f = 0 then State_Monad.return None
     else do {
       call env Fclose;
       State_Monad.return (clients_of_file (str f) (out f 0 \<noteq> 0)) } }"

section \<open>The network inventory\<close>

record hyper_network =
  nw_name :: string
  nw_bridge :: string
  nw_uplink :: string

abbreviation (input) HYPER_MAX_NETWORKS :: nat where "HYPER_MAX_NETWORKS \<equiv> 8"

definition name_valid :: "string \<Rightarrow> bool \<Rightarrow> bool" where
  "name_valid name interface \<longleftrightarrow>
     \<not> (name = [] \<or> (\<not> interface \<and> \<not> islower (hd name))) \<and>
     list_all (\<lambda>c. islower c \<or> isdigit c \<or> c = CHR ''-'' \<or> (interface \<and> (isupper c \<or> c = CHR ''_''))) name"

definition network_clash :: "hyper_network \<Rightarrow> hyper_network \<Rightarrow> bool" where
  "network_clash n m \<longleftrightarrow> nw_name n = nw_name m \<or> nw_bridge n = nw_bridge m \<or> nw_uplink n = nw_uplink m \<or>
     nw_bridge n = nw_uplink m \<or> nw_uplink n = nw_bridge m"

definition parse_network :: "hyper_network list \<Rightarrow> string \<Rightarrow> hyper_network option" where
  "parse_network networks line =
     (if length networks = HYPER_MAX_NETWORKS \<or> newline \<notin> set line then None
      else case scan_exactly [31, 15, 15] line of
        None \<Rightarrow> None
      | Some ws \<Rightarrow>
          let n = \<lparr>nw_name = ws ! 0, nw_bridge = ws ! 1, nw_uplink = ws ! 2\<rparr>
          in if \<not> name_valid (nw_name n) False \<or> \<not> name_valid (nw_bridge n) True \<or>
               \<not> name_valid (nw_uplink n) True \<or> nw_bridge n = nw_uplink n \<or>
               list_ex (network_clash n) networks
             then None else Some n)"

fun parse_networks :: "hyper_network list \<Rightarrow> string list \<Rightarrow> hyper_network list option" where
  "parse_networks networks [] = Some networks"
| "parse_networks networks (line # lines) =
     (case parse_network networks line of
        None \<Rightarrow> None
      | Some n \<Rightarrow> parse_networks (networks @ [n]) lines)"

definition networks_of_file :: "string \<Rightarrow> bool \<Rightarrow> hyper_network list option" where
  "networks_of_file contents read_error =
     (case file_lines 128 contents of
        [] \<Rightarrow> None
      | header # lines \<Rightarrow>
          if header \<noteq> ''hyper.networks.v1'' @ [newline] then None
          else (case parse_networks [] lines of
                  None \<Rightarrow> None
                | Some networks \<Rightarrow> if read_error then None else Some networks))"

definition hyper_networks_read :: "env \<Rightarrow> string \<Rightarrow> ('a host_scheme, hyper_network list option) state" where
  "hyper_networks_read env path = do {
     f \<leftarrow> call env (Fopen path);
     if ret f = 0 then State_Monad.return None
     else do {
       call env Fclose;
       State_Monad.return (networks_of_file (str f) (out f 0 \<noteq> 0)) } }"

definition network_bridge :: "env \<Rightarrow> string \<Rightarrow> string \<Rightarrow> ('a host_scheme, string option) state" where
  "network_bridge env path name = do {
     networks \<leftarrow> hyper_networks_read env path;
     State_Monad.return (case networks of
         None \<Rightarrow> None
       | Some ns \<Rightarrow> map_option nw_bridge (List.find (\<lambda>n. nw_name n = name) ns)) }"

section \<open>What the number parser accepts\<close>

lemma decimal_value_snoc_bound:
  "foldl (\<lambda>v c. 10 * v + digit_value c) a s \<ge> a"
proof (induction s arbitrary: a)
  case (Cons c s)
  have "a \<le> 10 * a + digit_value c" by simp
  also have "\<dots> \<le> foldl (\<lambda>v c. 10 * v + digit_value c) (10 * a + digit_value c) s" by (rule Cons.IH)
  finally show ?case by simp
qed simp

lemma isdigit_value: "isdigit c \<Longrightarrow> digit_value c < 10"
  by (auto simp: isdigit_def digit_value_def)

lemma resource_digits_iff:
  assumes "unat result \<le> 2147483647"
  shows "resource_digits result s = Some v \<longleftrightarrow>
    list_all isdigit s \<and> foldl (\<lambda>v c. 10 * v + digit_value c) (unat result) s \<le> 2147483647 \<and>
    unat v = foldl (\<lambda>v c. 10 * v + digit_value c) (unat result) s"
  using assms
proof (induction s arbitrary: result)
  case Nil
  then show ?case by (auto simp: word_unat_eq_iff)
next
  case (Cons c s)
  show ?case
  proof (cases "isdigit c")
    case True
    define d :: u32 where "d = of_nat (digit_value c)"
    have d: "unat d = digit_value c" "unat d < 10"
      using isdigit_value [OF True] by (simp_all add: d_def unat_of_nat)
    have room: "result > (INT_MAX - d) div 10 \<longleftrightarrow> \<not> 10 * unat result + unat d \<le> 2147483647"
    proof -
      have "unat (INT_MAX - d) = 2147483647 - unat d"
        using d(2) by (subst unat_sub_le) simp_all
      then have "unat ((INT_MAX - d) div 10) = (2147483647 - unat d) div 10"
        by (simp add: unat_div_distrib)
      then show ?thesis using d(2) by (simp add: word_less_nat_alt) linarith
    qed
    show ?thesis
    proof (cases "10 * unat result + unat d \<le> 2147483647")
      case True
      then have "unat (result * 10) = unat result * 10" by (subst unat_mult_le) simp_all
      with True have "unat (result * 10 + d) = 10 * unat result + unat d"
        by (subst unat_add_le) simp_all
      then show ?thesis
        using Cons.IH [of "result * 10 + d"] True \<open>isdigit c\<close> room d
        by (simp add: Let_def d_def [symmetric])
    next
      case False
      then have "\<not> foldl (\<lambda>v c. 10 * v + digit_value c) (10 * unat result + digit_value c) s \<le> 2147483647"
        using decimal_value_snoc_bound [of "10 * unat result + digit_value c" s] d(1) by simp
      with False room \<open>isdigit c\<close> show ?thesis by (simp add: Let_def d_def [symmetric])
    qed
  qed simp
qed

lemma resource_number_iff:
  "hyper_network_resource_number s = Some v \<longleftrightarrow>
     s \<noteq> [] \<and> list_all isdigit s \<and> decimal_value s \<le> 2147483647 \<and> unat v = decimal_value s"
  using resource_digits_iff [of 0 s v] by (simp add: hyper_network_resource_number_def decimal_value_def)

text \<open>Printing a resource with \<open>%u\<close> and parsing it again.\<close>

lemma resource_number_decimal:
  assumes "unat v \<le> 2147483647"
  shows "hyper_network_resource_number (decimal (unat v)) = Some v"
  using assms by (simp add: resource_number_iff list_all_iff decimal_isdigit)

definition net_resources_valid :: "hyper_network_resources \<Rightarrow> bool" where
  "net_resources_valid r \<longleftrightarrow> 1 \<le> unat (rx_backlog_packets r) \<and> unat (rx_backlog_packets r) \<le> 65536 \<and>
     unat (tx_buffer_bytes r) \<le> 2147483647 \<and>
     (unat (tx_buffer_bytes r) = 0 \<or> 65536 \<le> unat (tx_buffer_bytes r))"

lemma network_resources_parse_valid:
  "hyper_network_resources_parse rx tx = Some r \<Longrightarrow> net_resources_valid r"
  by (auto simp: hyper_network_resources_parse_def net_resources_valid_def resource_number_iff
      word_less_nat_alt word_le_nat_alt unat_gt_0 [symmetric] Suc_le_eq split: option.splits if_splits)

lemma network_resources_parse_decimal:
  assumes "net_resources_valid r"
  shows "hyper_network_resources_parse (decimal (unat (rx_backlog_packets r)))
     (decimal (unat (tx_buffer_bytes r))) = Some r"
proof -
  have "hyper_network_resource_number (decimal (unat (rx_backlog_packets r))) = Some (rx_backlog_packets r)"
    "hyper_network_resource_number (decimal (unat (tx_buffer_bytes r))) = Some (tx_buffer_bytes r)"
    using assms by (simp_all add: net_resources_valid_def resource_number_decimal)
  then show ?thesis
    using assms
    by (auto simp: hyper_network_resources_parse_def net_resources_valid_def word_less_nat_alt unat_eq_0)
qed

section \<open>MAC texts are canonical\<close>

lemma mac_digit_bound: "mac_digit c = Some v \<Longrightarrow> v < 16"
  by (auto simp: mac_digit_def isdigit_def split: if_splits)

lemma mac_digit_inj: "mac_digit c = Some v \<Longrightarrow> mac_digit c' = Some v \<Longrightarrow> c = c'"
proof -
  assume "mac_digit c = Some v" "mac_digit c' = Some v"
  then have "code c = code c'"
    by (auto simp: mac_digit_def isdigit_def simp del: of_char_eq_iff split: if_splits)
  then show "c = c'" by (rule of_char_eq_iff [THEN iffD1])
qed

lemma mac_byte_inj:
  assumes "mac_byte s i = Some v" and "mac_byte s' i = Some v"
  shows "s ! (3 * i) = s' ! (3 * i) \<and> s ! (3 * i + 1) = s' ! (3 * i + 1) \<and>
    (i \<noteq> 5 \<longrightarrow> s ! (3 * i + 2) = s' ! (3 * i + 2))"
proof -
  obtain h l where s: "mac_digit (s ! (3 * i)) = Some h" "mac_digit (s ! (3 * i + 1)) = Some l"
    "v = of_nat (h * 16 + l)" "i \<noteq> 5 \<longrightarrow> s ! (3 * i + 2) = CHR '':''"
    using assms(1) by (auto simp: mac_byte_def split: option.splits if_splits)
  obtain h' l' where s': "mac_digit (s' ! (3 * i)) = Some h'" "mac_digit (s' ! (3 * i + 1)) = Some l'"
    "v = of_nat (h' * 16 + l')" "i \<noteq> 5 \<longrightarrow> s' ! (3 * i + 2) = CHR '':''"
    using assms(2) by (auto simp: mac_byte_def split: option.splits if_splits)
  have b: "h < 16" "l < 16" "h' < 16" "l' < 16"
    using s s' by (auto dest: mac_digit_bound)
  then have "h * 16 + l < 256" "h' * 16 + l' < 256" by linarith+
  moreover have "unat (of_nat n :: u8) = n mod 256" for n by (simp add: unat_of_nat)
  then have "unat v = (h * 16 + l) mod 256" "unat v = (h' * 16 + l') mod 256"
    by (metis s(3), metis s'(3))
  ultimately have "h * 16 + l = h' * 16 + l'" by simp
  then have "(h * 16 + l) div 16 = (h' * 16 + l') div 16" "(h * 16 + l) mod 16 = (h' * 16 + l') mod 16"
    by simp_all
  with b have "h = h' \<and> l = l'" by simp
  then show ?thesis using s s' mac_digit_inj by metis
qed

lemma those_nth: "those xs = Some ys \<Longrightarrow> length ys = length xs \<and> (\<forall>i<length xs. xs ! i = Some (ys ! i))"
  by (induction xs arbitrary: ys) (auto split: option.splits simp: nth_Cons' less_Suc_eq_0_disj)

lemma mac_parse_bytes:
  assumes "hyper_mac_parse s = Some m"
  shows "length s = 17" and "length m = 6" and "i < 6 \<Longrightarrow> mac_byte s i = Some (m ! i)" and "m ! 0 AND 3 = 2"
  using assms those_nth [of "map (mac_byte s) [0..<6]" m]
  by (auto simp: hyper_mac_parse_def split: if_splits option.splits)

lemma mac_parse_inj:
  assumes "hyper_mac_parse s = Some m" and "hyper_mac_parse s' = Some m"
  shows "s = s'"
proof (rule nth_equalityI)
  show "length s = length s'" using mac_parse_bytes(1) assms by simp
  fix j assume "j < length s"
  then have j: "j < 17" using mac_parse_bytes(1) [OF assms(1)] by simp
  define i where "i = j div 3"
  have i: "i < 6" "j = 3 * i \<or> j = 3 * i + 1 \<or> (j = 3 * i + 2 \<and> i \<noteq> 5)"
    using j by (auto simp: i_def)
  have "mac_byte s i = Some (m ! i)" "mac_byte s' i = Some (m ! i)"
    using mac_parse_bytes(3) assms i(1) by blast+
  from mac_byte_inj [OF this] i(2) show "s ! j = s' ! j" by auto
qed


section \<open>The inventories are well formed\<close>

definition networked :: "hyper_client \<Rightarrow> bool" where
  "networked c \<longleftrightarrow> c_network c \<noteq> ''-''"

definition client_ok :: "hyper_client \<Rightarrow> bool" where
  "client_ok c \<longleftrightarrow> unat (c_id c) < HYPER_BLOCK_CLIENTS \<and>
     hyper_scsi_resources_valid (c_request_queues c) (c_sg_prealloc c) \<and>
     net_resources_valid (c_net_resources c) \<and>
     (if networked c then c_id c \<noteq> 0 \<and> network_name (c_network c) \<and> hyper_mac_parse (c_mac c) \<noteq> None
      else c_mac c = ''-'')"

text \<open>No two clients share a number, and no two share the address their MAC text stands for.\<close>

definition clients_distinct :: "hyper_client \<Rightarrow> hyper_client \<Rightarrow> bool" where
  "clients_distinct c d \<longleftrightarrow> c_id c \<noteq> c_id d \<and>
     (networked c \<and> networked d \<longrightarrow> hyper_mac_parse (c_mac c) \<noteq> hyper_mac_parse (c_mac d))"

definition inventory :: "hyper_client list \<Rightarrow> bool" where
  "inventory cs \<longleftrightarrow> length cs \<le> HYPER_BLOCK_CLIENTS \<and> list_all client_ok cs \<and>
     sorted_wrt clients_distinct cs"

lemma client_scsi_valid:
  "client_scsi_resources resources ws = Some (queues, sg) \<Longrightarrow> hyper_scsi_resources_valid queues sg"
  by (auto simp: client_scsi_resources_def hyper_scsi_resources_valid_def Let_def split: if_splits)

lemma client_net_valid: "client_net_resources net_res ws = Some nr \<Longrightarrow> net_resources_valid nr"
  by (auto simp: client_net_resources_def default_net_resources_def dest: network_resources_parse_valid
      split: if_splits) (simp add: net_resources_valid_def)

lemma identity_number:
  "client_identity_ok cs number n m \<Longrightarrow> unat (ucast number :: u32) < HYPER_BLOCK_CLIENTS \<and>
     ((ucast number :: u32) = 0 \<longleftrightarrow> number = 0)"
proof -
  assume "client_identity_ok cs number n m"
  then have "unat number < 128" by (simp add: client_identity_ok_def Let_def word_less_nat_alt)
  then have "unat (ucast number :: u32) = unat number"
    by (simp add: unsigned_ucast_eq take_bit_nat_eq_self)
  with \<open>unat number < 128\<close> show ?thesis by (metis unat_eq_0)
qed

lemma parse_client_step:
  assumes "inventory cs" and "parse_client resources net_res cs line = Some c"
  shows "inventory (cs @ [c])"
proof -
  obtain ws nr queues sg where p: "length cs \<noteq> 128"
    "client_net_resources net_res ws = Some nr" "client_scsi_resources resources ws = Some (queues, sg)"
    "client_identity_ok cs (fst (strtoul (ws ! 0))) (ws ! 1) (ws ! 2)"
    "c = \<lparr>c_id = ucast (fst (strtoul (ws ! 0))), c_request_queues = queues, c_sg_prealloc = sg,
      c_net_resources = nr, c_network = ws ! 1, c_mac = ws ! 2\<rparr>"
    using assms(2) by (auto simp: parse_client_def split: if_splits option.splits)
  note id = identity_number [OF p(4)]
  have "client_ok c"
    using p id client_scsi_valid [OF p(3)] client_net_valid [OF p(2)]
    by (auto simp: client_ok_def networked_def client_identity_ok_def Let_def)
  moreover have "clients_distinct d c" if "d \<in> set cs" for d
  proof -
    have "c_id d \<noteq> c_id c" using that p(4,5) by (auto simp: client_identity_ok_def Let_def list_ex_iff)
    moreover have "hyper_mac_parse (c_mac d) \<noteq> hyper_mac_parse (c_mac c)"
      if "networked d" and net: "networked c"
    proof
      assume eq: "hyper_mac_parse (c_mac d) = hyper_mac_parse (c_mac c)"
      obtain m where m: "hyper_mac_parse (c_mac c) = Some m"
        using \<open>client_ok c\<close> net by (auto simp: client_ok_def)
      with eq have "c_mac d = c_mac c" by (intro mac_parse_inj [of _ m]) simp_all
      with net \<open>d \<in> set cs\<close> p(4,5) show False
        by (auto simp: client_identity_ok_def networked_def Let_def list_ex_iff)
    qed
    ultimately show ?thesis by (simp add: clients_distinct_def)
  qed
  ultimately show ?thesis
    using assms(1) p(1) by (auto simp: inventory_def sorted_wrt_append)
qed

lemma parse_clients_inventory:
  assumes "parse_clients resources net_res cs owner lines = Some (cs', owner')" and "inventory cs"
    and "owner = length (filter (\<lambda>c. c_id c = 0) cs)"
  shows "inventory cs' \<and> owner' = length (filter (\<lambda>c. c_id c = 0) cs')"
  using assms
proof (induction lines arbitrary: cs owner)
  case (Cons line lines)
  then obtain c where "parse_client resources net_res cs line = Some c"
    by (auto split: option.splits)
  moreover from this have "inventory (cs @ [c])" using Cons.prems(2) by (rule parse_client_step [rotated])
  ultimately show ?case using Cons.IH [of "cs @ [c]"] Cons.prems(1,3) by (simp split: if_splits)
qed simp

lemma clients_of_file_inventory:
  assumes "clients_of_file contents e = Some cs"
  shows "inventory cs \<and> length (filter (\<lambda>c. c_id c = 0) cs) = 1"
  using assms parse_clients_inventory [of _ _ "[]" 0]
  by (fastforce simp: clients_of_file_def inventory_def split: list.splits option.splits if_splits)

definition networks_ok :: "hyper_network list \<Rightarrow> bool" where
  "networks_ok ns \<longleftrightarrow> length ns \<le> HYPER_MAX_NETWORKS \<and>
     (\<forall>n\<in>set ns. name_valid (nw_name n) False \<and> name_valid (nw_bridge n) True \<and>
        name_valid (nw_uplink n) True \<and> length (nw_bridge n) \<le> 15 \<and> length (nw_uplink n) \<le> 15) \<and>
     distinct (map nw_name ns) \<and> distinct (map nw_bridge ns @ map nw_uplink ns)"

lemma parse_network_step:
  assumes "networks_ok ns" and "parse_network ns line = Some n"
  shows "networks_ok (ns @ [n])"
proof -
  obtain ws where ws: "scan_exactly [31, 15, 15] line = Some ws"
    and n: "n = \<lparr>nw_name = ws ! 0, nw_bridge = ws ! 1, nw_uplink = ws ! 2\<rparr>" "length ns \<noteq> 8"
    "name_valid (nw_name n) False" "name_valid (nw_bridge n) True" "name_valid (nw_uplink n) True"
    "nw_bridge n \<noteq> nw_uplink n" "\<not> list_ex (network_clash n) ns"
    using assms(2) by (auto simp: parse_network_def Let_def split: if_splits option.splits)
  have "length (ws ! 1) \<le> 15" "length (ws ! 2) \<le> 15"
    using scan_exactly_props(2) [OF ws, of 1] scan_exactly_props(2) [OF ws, of 2] by simp_all
  with n assms(1) show ?thesis
    by (auto simp: networks_ok_def list_ex_iff network_clash_def)
qed

lemma parse_networks_ok:
  "parse_networks ns lines = Some ns' \<Longrightarrow> networks_ok ns \<Longrightarrow> networks_ok ns'"
  by (induction lines arbitrary: ns) (auto split: option.splits intro: parse_network_step)

lemma networks_of_file_ok: "networks_of_file contents e = Some ns \<Longrightarrow> networks_ok ns"
  by (auto simp: networks_of_file_def split: list.splits if_splits option.splits
      dest!: parse_networks_ok) (simp add: networks_ok_def)

end
