(* ===== verification/Block_Target.thy ===== *)
theory Block_Target
  imports Config Retirement
begin

text \<open>
  \<open>service/block-target.c\<close>: publication of a block range as a device mapper device and a LUN of
  the kernel target. Loops that retry a call interrupted by a signal take \<open>fuel\<close>, and \<open>None\<close>
  means that the retries did not end within it; \<open>write_retry_done\<close> gives a sufficient amount.
  The buffer of a device mapper request is the argument of the request's constructor.
\<close>

section \<open>Operations\<close>

definition device_major :: "u64 \<Rightarrow> nat" where
  "device_major d = unat ((drop_bit 8 d AND 0xfff) OR (drop_bit 32 d AND NOT 0xfff))"

definition device_minor :: "u64 \<Rightarrow> nat" where
  "device_minor d = unat ((d AND 0xff) OR (drop_bit 12 d AND NOT 0xff))"

text \<open>The linear table of a range, in 512-byte units: its length and its parameter string.\<close>

definition linear_length :: "u32 \<Rightarrow> hyper_block_range \<Rightarrow> u64" where
  "linear_length logical r = r_count r * ucast (logical div 512)"

definition linear_start :: "u32 \<Rightarrow> hyper_block_range \<Rightarrow> u64" where
  "linear_start logical r = r_first r * ucast (logical div 512)"

definition linear_parameters :: "u64 \<Rightarrow> u32 \<Rightarrow> hyper_block_range \<Rightarrow> string" where
  "linear_parameters device logical r =
     decimal (device_major device) @ '':'' @ decimal (device_minor device) @ '' '' @
     decimal (unat (linear_start logical r))"

definition mapper_create ::
    "env \<Rightarrow> int \<Rightarrow> string \<Rightarrow> u64 \<Rightarrow> u32 \<Rightarrow> hyper_block_range \<Rightarrow> (backend, int) state" where
  "mapper_create env control name device logical r = do {
     c \<leftarrow> call env (Ioctl control (DM_DEV_CREATE name));
     if ret c \<noteq> 0 then State_Monad.return (- 1)
     else do {
       let mapper_device = out c 0;
       let parameters = linear_parameters device logical r;
       failed \<leftarrow> for_return (\<lambda>step. do {
           a \<leftarrow> call env step;
           State_Monad.return (if ret a \<noteq> 0 then Some () else None) })
         [Ioctl control (DM_TABLE_LOAD name (r_read_only r \<noteq> 0) (linear_length logical r) parameters
            (of_nat (40 + length parameters + 1 + 7) AND NOT 7)),
          Ioctl control (DM_DEV_SUSPEND name (r_read_only r \<noteq> 0)),
          Mknod (''/dev/mapper/'' @ name) mapper_device];
       if failed \<noteq> None then do {
         call env (Ioctl control (DM_DEV_REMOVE name));
         State_Monad.return (- 1) }
       else State_Monad.return 0 } }"

text \<open>The retry loop of \<open>write_attribute\<close>: the final result of \<open>write\<close>.\<close>

primrec write_retry :: "env \<Rightarrow> nat \<Rightarrow> int \<Rightarrow> bytes \<Rightarrow> ('a host_scheme, int option) state" where
  "write_retry env 0 fd bs = State_Monad.return None"
| "write_retry env (Suc fuel) fd bs = do {
     w \<leftarrow> call env (Write fd bs);
     if ret w < 0 \<and> err w = EINTR then write_retry env fuel fd bs
     else State_Monad.return (Some (ret w)) }"

definition string_bytes :: "string \<Rightarrow> bytes" where
  "string_bytes s = map (\<lambda>c. of_nat (code c)) s"

definition write_attribute :: "env \<Rightarrow> nat \<Rightarrow> string \<Rightarrow> string \<Rightarrow> ('a host_scheme, int option) state" where
  "write_attribute env fuel path contents = do {
     f \<leftarrow> call env (Open path [O_WRONLY, O_CLOEXEC]);
     if ret f < 0 then State_Monad.return (Some (- 1))
     else do {
       written \<leftarrow> write_retry env fuel (ret f) (string_bytes contents);
       (case written of
          None \<Rightarrow> State_Monad.return None
        | Some w \<Rightarrow> do {
            c \<leftarrow> call env (Close (ret f));
            State_Monad.return (Some (if w = int (length contents) \<and> ret c = 0 then 0 else - 1)) }) } }"

text \<open>
  The setup of a target is a sequence of directory, attribute and link steps. After each step
  \<open>made\<close> says how many objects the rollback has to remove.
\<close>

datatype setup_step = Make_dir string | Attribute string string | Link string string

definition setup_step_run :: "env \<Rightarrow> nat \<Rightarrow> setup_step \<Rightarrow> (backend, int option) state" where
  "setup_step_run env fuel step =
     (case step of
        Make_dir path \<Rightarrow> do { a \<leftarrow> call env (Mkdir path); State_Monad.return (Some (ret a)) }
      | Attribute path contents \<Rightarrow> write_attribute env fuel path contents
      | Link to path \<Rightarrow> do { a \<leftarrow> call env (Symlink to path); State_Monad.return (Some (ret a)) })"

text \<open>\<open>Some None\<close>: every step succeeded; \<open>Some (Some made)\<close>: a step failed with \<open>made\<close> objects.\<close>

primrec setup_steps :: "env \<Rightarrow> nat \<Rightarrow> nat \<Rightarrow> (setup_step \<times> nat) list \<Rightarrow> (backend, nat option option) state" where
  "setup_steps env fuel made [] = State_Monad.return (Some None)"
| "setup_steps env fuel made (x # xs) = do {
     r \<leftarrow> setup_step_run env fuel (fst x);
     (case r of
        None \<Rightarrow> State_Monad.return None
      | Some v \<Rightarrow> if v \<noteq> 0 then State_Monad.return (Some (Some made))
                  else setup_steps env fuel (snd x) xs) }"

definition core_path :: "string \<Rightarrow> string" where
  "core_path mapper = ''/sys/kernel/config/target/core/iblock_0/'' @ mapper"

definition client_wwpn :: "u32 \<Rightarrow> string" where
  "client_wwpn client = ''naa.5001405'' @ hex_digits 9 (unat client)"

definition target_path :: "u32 \<Rightarrow> string" where
  "target_path client = ''/sys/kernel/config/target/vhost/'' @ client_wwpn client"

definition group_path :: "u32 \<Rightarrow> string" where
  "group_path client = target_path client @ ''/tpgt_1''"

definition lun_dir :: "u32 \<Rightarrow> string" where
  "lun_dir client = group_path client @ ''/lun/lun_0''"

definition target_setup :: "u32 \<Rightarrow> string \<Rightarrow> u32 \<Rightarrow> (setup_step \<times> nat) list" where
  "target_setup client mapper ro =
     [(Make_dir (core_path mapper), 1),
      (Attribute (core_path mapper @ ''/control'')
         (''udev_path=/dev/mapper/'' @ mapper @ '',readonly='' @ decimal (unat ro) @ [newline]), 1),
      (Attribute (core_path mapper @ ''/enable'') (''1'' @ [newline]), 1),
      (Make_dir (target_path client), 2),
      (Make_dir (group_path client), 3),
      (Make_dir (lun_dir client), 4),
      (Attribute (group_path client @ ''/nexus'') (''naa.5001405000000002'' @ [newline]), 5),
      (Link (core_path mapper) (lun_dir client @ ''/disk''), 5)]"

definition target_rollback :: "env \<Rightarrow> nat \<Rightarrow> u32 \<Rightarrow> string \<Rightarrow> nat \<Rightarrow> (backend, int option) state" where
  "target_rollback env fuel client mapper made = do {
     nexus \<leftarrow> (if 5 \<le> made then write_attribute env fuel (group_path client @ ''/nexus'') (''NULL'' @ [newline])
               else State_Monad.return (Some 0));
     (case nexus of
        None \<Rightarrow> State_Monad.return None
      | Some _ \<Rightarrow> do {
          for_each (\<lambda>path. do { call env (Rmdir path); State_Monad.return () })
            ((if 4 \<le> made then [lun_dir client] else []) @ (if 3 \<le> made then [group_path client] else []) @
             (if 2 \<le> made then [target_path client] else []) @ (if 1 \<le> made then [core_path mapper] else []));
          State_Monad.return (Some (- 1)) }) }"

definition target_create :: "env \<Rightarrow> nat \<Rightarrow> u32 \<Rightarrow> string \<Rightarrow> u32 \<Rightarrow> (backend, int option) state" where
  "target_create env fuel client mapper ro = do {
     r \<leftarrow> setup_steps env fuel 0 (target_setup client mapper ro);
     (case r of
        None \<Rightarrow> State_Monad.return None
      | Some None \<Rightarrow> State_Monad.return (Some 0)
      | Some (Some made) \<Rightarrow>
          if made = 0 then State_Monad.return (Some (- 1))
          else target_rollback env fuel client mapper made) }"

definition mapper_name :: "u32 \<Rightarrow> string" where
  "mapper_name client = ''hyper-client-'' @ decimal (unat client)"

text \<open>The tail of \<open>block_target_publish\<close> once the mapper device exists.\<close>

definition publish_target :: "env \<Rightarrow> nat \<Rightarrow> int \<Rightarrow> u32 \<Rightarrow> u32 \<Rightarrow> (backend, int option) state" where
  "publish_target env fuel control client ro = do {
     t \<leftarrow> target_create env fuel client (mapper_name client) ro;
     (case t of
        None \<Rightarrow> State_Monad.return None
      | Some v \<Rightarrow>
          if v = 0 then State_Monad.return (Some 0)
          else do {
            d \<leftarrow> call env (Ioctl control (DM_DEV_REMOVE (mapper_name client)));
            (if ret d \<noteq> 0 then State_Monad.return ()
             else do { call env (Unlink (''/dev/mapper/'' @ mapper_name client)); State_Monad.return () });
            State_Monad.return (Some (- 1)) }) }"

definition block_target_publish ::
    "env \<Rightarrow> nat \<Rightarrow> u32 \<Rightarrow> u64 \<Rightarrow> u32 \<Rightarrow> hyper_block_range \<Rightarrow> (backend, int option) state" where
  "block_target_publish env fuel client device logical r = do {
     failed \<leftarrow> for_return (\<lambda>path. do {
         a \<leftarrow> call env (Mkdir path);
         State_Monad.return (if ret a \<noteq> 0 \<and> err a \<noteq> EEXIST then Some () else None) })
       [''/dev/mapper'', ''/sys/kernel/config/target/core/iblock_0'', ''/sys/kernel/config/target/vhost''];
     if failed \<noteq> None then State_Monad.return (Some (- 1))
     else do {
       f \<leftarrow> call env (Open ''/dev/mapper/control'' [O_RDWR, O_CLOEXEC]);
       if ret f < 0 then State_Monad.return (Some (- 1))
       else do {
         m \<leftarrow> mapper_create env (ret f) (mapper_name client) device logical r;
         result \<leftarrow> (if m \<noteq> 0 then State_Monad.return (Some m)
                    else publish_target env fuel (ret f) client (r_read_only r));
         (case result of
            None \<Rightarrow> State_Monad.return None
          | Some v \<Rightarrow> do {
              call env (Close (ret f));
              State_Monad.return (Some (if v \<noteq> 0 then - 1 else 0)) }) } } }"

section \<open>Arithmetic of the mapping\<close>

text \<open>
  A range that passed the policy check is mapped without wrap-around: the table addresses exactly
  the bytes of the range, in 512-byte units, inside the device.
\<close>

lemma linear_exact:
  assumes "hyper_block_range_valid extent logical ro r"
  shows "unat (linear_start logical r) * 512 = unat (r_first r) * unat logical"
    and "unat (linear_length logical r) * 512 = unat (r_count r) * unat logical"
    and "(unat (linear_start logical r) + unat (linear_length logical r)) * 512 \<le> unat extent"
proof -
  have v: "sector_size_ok logical" "unat (r_first r) + unat (r_count r) \<le> unat extent div unat logical"
    using assms by (auto simp: range_valid_nat range_in_disk_def)
  obtain q where q: "unat logical = 512 * q" "0 < q"
    using sector_size_ok_dvd [OF v(1)] by (auto elim: dvdE)
  have mult: "unat (logical div 512) = q"
    using q by (simp add: unat_div_distrib)
  have "(unat (r_first r) + unat (r_count r)) * (512 * q) \<le> unat extent div (512 * q) * (512 * q)"
    using v(2) q by (intro mult_le_mono1) simp
  also have "\<dots> \<le> unat extent" by (rule div_times_less_eq_dividend)
  finally have bound: "(unat (r_first r) * q + unat (r_count r) * q) * 512 \<le> unat extent"
    by (simp add: algebra_simps)
  then have small: "unat (r_first r) * q < 2 ^ 64" "unat (r_count r) * q < 2 ^ 64"
    using u64_bound [of extent] by simp_all
  have start: "unat (linear_start logical r) = unat (r_first r) * q"
    unfolding linear_start_def using small(1) by (subst unat_mult_le) (simp_all add: mult)
  have len: "unat (linear_length logical r) = unat (r_count r) * q"
    unfolding linear_length_def using small(2) by (subst unat_mult_le) (simp_all add: mult)
  show "unat (linear_start logical r) * 512 = unat (r_first r) * unat logical"
    "unat (linear_length logical r) * 512 = unat (r_count r) * unat logical"
    "(unat (linear_start logical r) + unat (linear_length logical r)) * 512 \<le> unat extent"
    using bound by (simp_all add: start len q)
qed

section \<open>Interrupted calls\<close>

definition interrupted :: "event \<Rightarrow> bool" where
  "interrupted e \<longleftrightarrow> ret (snd e) < 0 \<and> err (snd e) = EINTR"

text \<open>The retry loop only runs out of fuel when every one of that many calls was interrupted.\<close>

lemma write_retry_done:
  "wp (write_retry env fuel fd bs) (\<lambda>r t. r = None \<longrightarrow>
     (\<exists>es. events t = events s @ es \<and> length es = fuel \<and> (\<forall>e\<in>set es. interrupted e))) s"
proof (induction fuel arbitrary: s)
  case (Suc fuel)
  let ?c = "Write fd bs"
  have "wp (write_retry env fuel fd bs) (\<lambda>r t. r = None \<longrightarrow>
      (\<exists>es. events t = events s @ es \<and> length es = Suc fuel \<and> (\<forall>e\<in>set es. interrupted e))) (called env ?c s)"
    if "interrupted (?c, env (events s) ?c)"
    by (rule wp_mono [OF Suc.IH]) (use that in auto)
  then show ?case by (simp add: wp_rules interrupted_def)
qed (simp add: wp_rules)

section \<open>Publication\<close>

text \<open>
  A LUN is published by the successful creation of its link. Everything here is quiet: the
  retirement protocol of the clients does not see it.
\<close>

definition lun_link :: "string \<Rightarrow> event \<Rightarrow> bool" where
  "lun_link p e \<longleftrightarrow> (\<exists>to. fst e = Symlink to p) \<and> ret (snd e) = 0"

definition published :: "string \<Rightarrow> event list \<Rightarrow> bool" where
  "published p es \<longleftrightarrow> list_ex (lun_link p) es"

lemma published_snoc [simp]: "published p (es @ [e]) \<longleftrightarrow> published p es \<or> lun_link p e"
  by (auto simp: published_def)

lemma lun_link_simps [simp]:
  "lun_link p (Symlink to p', a) \<longleftrightarrow> p' = p \<and> ret a = 0"
  "\<not> lun_link p (Open x f, a)" "\<not> lun_link p (Write n w, a)" "\<not> lun_link p (Close n, a)"
  "\<not> lun_link p (Mkdir x, a)" "\<not> lun_link p (Rmdir x, a)" "\<not> lun_link p (Unlink x, a)"
  "\<not> lun_link p (Ioctl n q, a)" "\<not> lun_link p (Mknod x d, a)"
  by (auto simp: lun_link_def)

text \<open>\<open>tracks b p v t\<close>: quiet steps from \<open>b\<close> to \<open>t\<close>, which published \<open>p\<close> exactly if \<open>v\<close>.\<close>

definition tracks :: "backend \<Rightarrow> string \<Rightarrow> bool \<Rightarrow> backend \<Rightarrow> bool" where
  "tracks b p v t \<longleftrightarrow> quietly b t \<and> (published p (events t) \<longleftrightarrow> published p (events b) \<or> v)"

lemma tracks_refl [simp]: "tracks b p False b"
  by (simp add: tracks_def)

lemma tracks_called [simp]:
  "quiet c \<Longrightarrow> \<not> lun_link p (c, env (events t) c) \<Longrightarrow> tracks b p v (called env c t) \<longleftrightarrow> tracks b p v t"
  by (simp add: tracks_def)

lemma write_retry_tracks: "tracks b p v s \<Longrightarrow> wp (write_retry env fuel fd bs) (\<lambda>_. tracks b p v) s"
  by (induction fuel arbitrary: s) (simp_all add: wp_rules)

lemma write_attribute_tracks: "tracks b p v s \<Longrightarrow> wp (write_attribute env fuel q x) (\<lambda>_. tracks b p v) s"
  unfolding write_attribute_def wp_rules
  by (auto simp: wp_rules split: option.split intro!: wp_mono [OF write_retry_tracks])

lemma wp_write_attribute:
  "tracks b p v s \<Longrightarrow> (\<And>r t. tracks b p v t \<Longrightarrow> Q r t) \<Longrightarrow> wp (write_attribute env fuel q x) Q s"
  by (rule wp_mono [OF write_attribute_tracks])

lemma wp_for_return_tracks:
  assumes "tracks b p v s" and "\<And>i t. i \<in> set is \<Longrightarrow> tracks b p v t \<Longrightarrow> wp (f i) (\<lambda>_. tracks b p v) t"
    and "\<And>r t. tracks b p v t \<Longrightarrow> Q r t"
  shows "wp (for_return f is) Q s"
  by (rule wp_mono [OF wp_for_return [where I = "\<lambda>_. tracks b p v"]]) (use assms in auto)

lemma wp_for_each_tracks:
  assumes "tracks b p v s" and "\<And>i t. i \<in> set is \<Longrightarrow> tracks b p v t \<Longrightarrow> wp (f i) (\<lambda>_. tracks b p v) t"
    and "\<And>r t. tracks b p v t \<Longrightarrow> Q r t"
  shows "wp (for_each f is) Q s"
  by (rule wp_mono [OF wp_for_each [where I = "tracks b p v"]]) (use assms in auto)

primrec is_link :: "setup_step \<Rightarrow> bool" where
  "is_link (Make_dir x) = False"
| "is_link (Attribute x y) = False"
| "is_link (Link x y) = True"

lemma setup_step_tracks:
  "tracks b p v s \<Longrightarrow> \<not> is_link x \<Longrightarrow> wp (setup_step_run env fuel x) (\<lambda>_. tracks b p v) s"
  by (cases x) (simp_all add: setup_step_run_def wp_rules write_attribute_tracks)

lemma setup_steps_tracks:
  assumes "tracks b p False s" and "\<forall>x\<in>set xs. \<not> is_link (fst x)"
  shows "wp (setup_steps env fuel made (xs @ [(Link to p, m)])) (\<lambda>r. tracks b p (r = Some None)) s"
  using assms
proof (induction xs arbitrary: s made)
  case Nil
  then show ?case by (auto simp: setup_step_run_def wp_rules tracks_def)
next
  case (Cons x xs)
  show ?case
    unfolding append_Cons setup_steps.simps wp_rules
    by (rule wp_mono [OF setup_step_tracks [OF Cons.prems(1)]])
       (use Cons in \<open>auto simp: wp_rules split: option.split\<close>)
qed

definition lun_published :: "u32 \<Rightarrow> string" where
  "lun_published client = lun_dir client @ ''/disk''"

lemma target_setup_tracks:
  "wp (setup_steps env fuel 0 (target_setup client mapper ro)) (\<lambda>r. tracks b (lun_published client) (r = Some None)) s"
  if "tracks b (lun_published client) False s"
proof -
  have "target_setup client mapper ro =
      butlast (target_setup client mapper ro) @ [(Link (core_path mapper) (lun_published client), 5)]"
    by (simp add: target_setup_def lun_published_def)
  moreover have "\<forall>x\<in>set (butlast (target_setup client mapper ro)). \<not> is_link (fst x)"
    by (simp add: target_setup_def)
  ultimately show ?thesis using setup_steps_tracks [OF that] by metis
qed

lemma target_rollback_tracks:
  "tracks b p v s \<Longrightarrow> wp (target_rollback env fuel client mapper made) (\<lambda>r t. tracks b p v t \<and> r \<noteq> Some 0) s"
  unfolding target_rollback_def wp_rules
  by (auto simp: wp_rules simp del: for_each.simps split: option.split split del: if_split
      intro!: if_bool_eq_conj [THEN iffD2] wp_write_attribute [where b = b and p = p and v = v]
        wp_for_each_tracks [where b = b and p = p and v = v])

lemma target_create_tracks:
  assumes "tracks b (lun_published client) False s"
  shows "wp (target_create env fuel client mapper ro) (\<lambda>r. tracks b (lun_published client) (r = Some 0)) s"
proof -
  have roll: "wp (target_rollback env fuel client mapper made) (\<lambda>r. tracks b (lun_published client) (r = Some 0)) t"
    if "tracks b (lun_published client) False t" for made t
    by (rule wp_mono [OF target_rollback_tracks [OF that]]) auto
  show ?thesis
    unfolding target_create_def wp_rules
    by (rule wp_mono [OF target_setup_tracks [OF assms]])
       (auto simp: wp_rules roll split: option.split)
qed

lemma mapper_create_tracks:
  "tracks b p v s \<Longrightarrow> wp (mapper_create env control name device logical r) (\<lambda>_. tracks b p v) s"
  unfolding mapper_create_def Let_def
  by (auto simp: wp_rules simp del: for_return.simps intro!: wp_for_return_tracks [where b = b and p = p and v = v])

lemma publish_target_tracks:
  assumes "tracks b (lun_published client) False s"
  shows "wp (publish_target env fuel control client ro) (\<lambda>r. tracks b (lun_published client) (r = Some 0)) s"
  unfolding publish_target_def wp_rules
  by (rule wp_mono [OF target_create_tracks [OF assms]]) (auto simp: wp_rules split: option.split)

lemma block_target_publish_spec:
  "wp (block_target_publish env fuel client device logical r) (\<lambda>v. tracks b (lun_published client) (v = Some 0)) b"
proof -
  have pub: "wp (publish_target env fuel control client ro) Q t"
    if "tracks b (lun_published client) False t" "\<And>v u. tracks b (lun_published client) (v = Some 0) u \<Longrightarrow> Q v u"
    for control ro Q t
    by (rule wp_mono [OF publish_target_tracks [OF that(1)]]) (rule that(2))
  have map: "wp (mapper_create env control name device logical r) Q t"
    if "tracks b (lun_published client) False t" "\<And>v u. tracks b (lun_published client) False u \<Longrightarrow> Q v u"
    for control name Q t
    by (rule wp_mono [OF mapper_create_tracks [OF that(1)]]) (rule that(2))
  show ?thesis
    unfolding block_target_publish_def
    by (auto simp: wp_rules simp del: for_return.simps split: option.split
        intro!: map pub wp_for_return_tracks [where b = b and p = "lun_published client" and v = False])
qed

end
