(* ===== verification/Block.thy ===== *)
theory Block
  imports Block_Target Vhost
begin

text \<open>
  \<open>service/block.c\<close>: the block owner, which discovers the physical disks, answers reads and binds
  ranges to clients. The owner structure is the \<open>blocks\<close> field of the backend; \<open>disk_count\<close> is the
  length of the disk list, and the disk with identifier \<open>n\<close> is element \<open>n - 1\<close>.
\<close>

section \<open>Operations\<close>

definition no_range :: hyper_block_range where
  "no_range = \<lparr>r_disk = 0, r_first = 0, r_count = 0, r_read_only = 0\<rparr>"

definition modify_owner :: "(block_owner \<Rightarrow> block_owner) \<Rightarrow> (backend, unit) state" where
  "modify_owner f = State_Monad.update (\<lambda>b. b\<lparr>blocks := map_option f (blocks b)\<rparr>)"

definition owner_of :: "backend \<Rightarrow> block_owner" where
  "owner_of b = the (blocks b)"

text \<open>The chain of queries on an opened disk; \<open>None\<close> as soon as one fails.\<close>

definition query :: "env \<Rightarrow> syscall \<Rightarrow> (backend, answer option) state" where
  "query env c = do { a \<leftarrow> call env c; State_Monad.return (if ret a \<noteq> 0 then None else Some a) }"

definition geometry_ok :: "physical_disk \<Rightarrow> bool" where
  "geometry_ok d \<longleftrightarrow>
     \<not> (pd_bytes d = 0 \<or> pd_logical d < 512 \<or> pd_logical d > 65536 \<or>
        pd_logical d AND (pd_logical d - 1) \<noteq> 0 \<or> pd_bytes d mod ucast (pd_logical d) \<noteq> 0 \<or>
        pd_physical d < pd_logical d \<or> pd_physical d AND (pd_physical d - 1) \<noteq> 0)"

definition probe_disk :: "env \<Rightarrow> int \<Rightarrow> (backend, physical_disk option) state" where
  "probe_disk env fd = do {
     st \<leftarrow> query env (Fstat fd);
     (case st of None \<Rightarrow> State_Monad.return None | Some st \<Rightarrow>
       if out st 0 = 0 then State_Monad.return None
       else do {
         sz \<leftarrow> query env (Ioctl fd BLKGETSIZE64);
         (case sz of None \<Rightarrow> State_Monad.return None | Some sz \<Rightarrow> do {
           sq \<leftarrow> query env (Ioctl fd BLKGETDISKSEQ);
           (case sq of None \<Rightarrow> State_Monad.return None | Some sq \<Rightarrow> do {
             lg \<leftarrow> query env (Ioctl fd BLKSSZGET);
             (case lg of None \<Rightarrow> State_Monad.return None | Some lg \<Rightarrow> do {
               ph \<leftarrow> query env (Ioctl fd BLKPBSZGET);
               (case ph of None \<Rightarrow> State_Monad.return None | Some ph \<Rightarrow> do {
                 ro \<leftarrow> query env (Ioctl fd BLKROGET);
                 (case ro of None \<Rightarrow> State_Monad.return None | Some ro \<Rightarrow>
                   let d = \<lparr>pd_fd = fd, pd_device = out st 1, pd_bytes = out sz 0, pd_sequence = out sq 0,
                     pd_logical = ucast (out lg 0), pd_physical = ucast (out ph 0),
                     pd_read_only = ucast (out ro 0)\<rparr>
                   in State_Monad.return (if geometry_ok d then Some d else None)) }) }) }) }) }) }"

text \<open>A probed disk against the table: known, changed, or new and then appended.\<close>

definition record_disk :: "env \<Rightarrow> physical_disk \<Rightarrow> (backend, int option) state" where
  "record_disk env d = do {
     b \<leftarrow> State_Monad.get;
     (case List.find (\<lambda>e. pd_device e = pd_device d) (bo_disks (owner_of b)) of
        Some e \<Rightarrow> do {
          call env (Close (pd_fd d));
          State_Monad.return (if pd_sequence e \<noteq> pd_sequence d \<or> pd_bytes e \<noteq> pd_bytes d \<or>
            pd_logical e \<noteq> pd_logical d then Some (- 1) else None) }
      | None \<Rightarrow>
          if length (bo_disks (owner_of b)) = HYPER_BLOCK_DISKS then do {
            call env (Close (pd_fd d));
            State_Monad.return (Some (- 1)) }
          else do {
            modify_owner (\<lambda>q. q\<lparr>bo_disks := bo_disks q @ [d]\<rparr>);
            State_Monad.return None }) }"

text \<open>One directory entry: \<open>Some (-1)\<close> ends the scan with an error, \<open>None\<close> goes on.\<close>

definition discover_entry :: "env \<Rightarrow> string \<Rightarrow> (backend, int option) state" where
  "discover_entry env name =
     (if take 1 name = ''.'' then State_Monad.return None
      else do {
        p \<leftarrow> call env (Access (''/sys/class/block/'' @ name @ ''/partition''));
        if ret p = 0 then State_Monad.return None
        else do {
          d \<leftarrow> call env (Access (''/sys/class/block/'' @ name @ ''/device''));
          if ret d \<noteq> 0 then State_Monad.return None
          else do {
            f \<leftarrow> call env (Open (''/dev/'' @ name) [O_RDONLY, O_CLOEXEC, O_NOFOLLOW]);
            if ret f < 0 \<and> (err f = ENOENT \<or> err f = ENXIO \<or> err f = ENOMEDIUM)
            then State_Monad.return None
            else if ret f < 0 then State_Monad.return (Some (- 1))
            else do {
              probed \<leftarrow> probe_disk env (ret f);
              (case probed of
                 None \<Rightarrow> do { call env (Close (ret f)); State_Monad.return (Some (- 1)) }
               | Some d \<Rightarrow> record_disk env d) } } } })"

definition discover_disks :: "env \<Rightarrow> (backend, int) state" where
  "discover_disks env = do {
     s \<leftarrow> call env (Scandir ''/sys/class/block'');
     if ret s < 0 then State_Monad.return (- 1)
     else do {
       r \<leftarrow> for_return (discover_entry env) (names s);
       State_Monad.return (case r of Some v \<Rightarrow> v | None \<Rightarrow> 0) } }"

definition notification_path :: "u32 \<Rightarrow> string" where
  "notification_path client = ''/dev/hyper-io-notification-'' @ decimal (unat client)"

definition block_owner_create :: "env \<Rightarrow> string \<Rightarrow> (backend, int) state" where
  "block_owner_create env clients_path = do {
     m \<leftarrow> call env (Calloc 1);
     if ret m = 0 then State_Monad.return (- 1)
     else do {
       cs \<leftarrow> hyper_clients_read env clients_path;
       (case cs of
          None \<Rightarrow> State_Monad.return (- 1)
        | Some cs \<Rightarrow> do {
            State_Monad.update (\<lambda>b. b\<lparr>blocks := Some \<lparr>bo_disks = [],
              bo_clients = replicate HYPER_BLOCK_CLIENTS False,
              bo_bindings = replicate HYPER_BLOCK_CLIENTS no_range\<rparr>\<rparr>);
            for_each (\<lambda>c. do {
                present \<leftarrow> (if c_id c = 0 then State_Monad.return False
                  else do { a \<leftarrow> call env (Access (notification_path (c_id c))); State_Monad.return (ret a = 0) });
                modify_owner (\<lambda>q. q\<lparr>bo_clients := (bo_clients q)[unat (c_id c) := present]\<rparr>) }) cs;
            State_Monad.return 0 }) } }"

definition block_owner_destroy :: "env \<Rightarrow> (backend, unit) state" where
  "block_owner_destroy env = do {
     b \<leftarrow> State_Monad.get;
     (case blocks b of
        None \<Rightarrow> State_Monad.return ()
      | Some q \<Rightarrow> do {
          for_each (\<lambda>d. do { call env (Close (pd_fd d)); State_Monad.return () }) (bo_disks q);
          State_Monad.update (\<lambda>b. b\<lparr>blocks := None\<rparr>) }) }"

definition disk_current :: "env \<Rightarrow> physical_disk \<Rightarrow> (backend, bool) state" where
  "disk_current env d = do {
     s \<leftarrow> query env (Ioctl (pd_fd d) BLKGETDISKSEQ);
     (case s of
        None \<Rightarrow> State_Monad.return False
      | Some s \<Rightarrow> do {
          z \<leftarrow> query env (Ioctl (pd_fd d) BLKGETSIZE64);
          State_Monad.return (case z of
              None \<Rightarrow> False
            | Some z \<Rightarrow> out s 0 = pd_sequence d \<and> out z 0 = pd_bytes d) }) }"

definition range_of :: "hyper_io_block_bind \<Rightarrow> hyper_block_range" where
  "range_of m = \<lparr>r_disk = b_disk m, r_first = b_first_lba m, r_count = b_sectors m, r_read_only = b_flags m\<rparr>"

definition bind_range :: "env \<Rightarrow> nat \<Rightarrow> hyper_io_block_bind \<Rightarrow> (backend, u32 option) state" where
  "bind_range env fuel m = do {
     b \<leftarrow> State_Monad.get;
     let q = owner_of b;
     let client = b_client m;
     let r = range_of m;
     if client = 0 \<or> unat client \<ge> HYPER_BLOCK_CLIENTS \<or> \<not> bo_clients q ! unat client \<or>
        r_disk r = 0 \<or> unat (r_disk r) > length (bo_disks q)
     then State_Monad.return (Some HYPER_IO_INVALID)
     else do {
       let d = bo_disks q ! (unat (r_disk r) - 1);
       current \<leftarrow> disk_current env d;
       if \<not> current then State_Monad.return (Some HYPER_IO_BACKEND_FAILURE)
       else if \<not> hyper_block_range_valid (pd_bytes d) (pd_logical d) (pd_read_only d) r
       then State_Monad.return (Some HYPER_IO_INVALID)
       else let old = bo_bindings q ! unat client in
         if r_disk old \<noteq> 0 then State_Monad.return (Some (if old = r then HYPER_IO_OK else HYPER_IO_BUSY))
         else if list_ex (\<lambda>i. hyper_block_ranges_conflict (bo_bindings q ! i) r) [1..<HYPER_BLOCK_CLIENTS]
         then State_Monad.return (Some HYPER_IO_BUSY)
         else do {
           p \<leftarrow> block_target_publish env fuel client (pd_device d) (pd_logical d) r;
           (case p of
              None \<Rightarrow> State_Monad.return None
            | Some v \<Rightarrow>
                if v \<noteq> 0 then State_Monad.return (Some HYPER_IO_BACKEND_FAILURE)
                else do {
                  modify_owner (\<lambda>q. q\<lparr>bo_bindings := (bo_bindings q)[unat client := r]\<rparr>);
                  State_Monad.return (Some HYPER_IO_OK) }) } } }"

text \<open>The copy loop of a read; \<open>None\<close> when it has not ended within the fuel.\<close>

fun read_loop :: "env \<Rightarrow> nat \<Rightarrow> int \<Rightarrow> u64 \<Rightarrow> u64 \<Rightarrow> u64 \<Rightarrow> u64 \<Rightarrow> (backend, u32 option) state" where
  "read_loop env fuel fd destination len offset copied =
     (if \<not> copied < len then State_Monad.return (Some HYPER_IO_OK)
      else case fuel of
        0 \<Rightarrow> State_Monad.return None
      | Suc n \<Rightarrow> do {
          a \<leftarrow> call env (Pread fd (destination + copied) (len - copied) (offset + copied));
          if ret a < 0 \<and> err a = EINTR then read_loop env n fd destination len offset copied
          else if ret a \<le> 0 then State_Monad.return (Some HYPER_IO_BACKEND_FAILURE)
          else read_loop env n fd destination len offset (copied + word_of_int (ret a)) })"

declare read_loop.simps [simp del]

definition INT64_MAX :: u64 where "INT64_MAX = 0x7fffffffffffffff"

definition block_read :: "env \<Rightarrow> nat \<Rightarrow> hyper_io_block_read \<Rightarrow> (backend, u32 option) state" where
  "block_read env fuel m = do {
     b \<leftarrow> State_Monad.get;
     let q = owner_of b;
     if rd_disk m = 0 \<or> unat (rd_disk m) > length (bo_disks q) \<or> memory b = MAP_FAILED
     then State_Monad.return (Some HYPER_IO_INVALID)
     else do {
       let d = bo_disks q ! (unat (rd_disk m) - 1);
       current \<leftarrow> disk_current env d;
       if \<not> current then State_Monad.return (Some HYPER_IO_BACKEND_FAILURE)
       else if \<not> hyper_block_read_valid (pd_bytes d) (pd_logical d) (rd_offset m) (rd_length m)
              (mi_length (region b)) (rd_memory_offset m) \<or>
            rd_offset m > INT64_MAX \<or> rd_length m > INT64_MAX - rd_offset m
       then State_Monad.return (Some HYPER_IO_INVALID)
       else read_loop env fuel (pd_fd d) (memory b + rd_memory_offset m) (rd_length m) (rd_offset m) 0 } }"

text \<open>The 32 bytes of \<open>hyper_io_block_info\<close> from its field \<open>disk\<close> on.\<close>

definition block_info_bytes :: "u32 \<Rightarrow> physical_disk \<Rightarrow> bytes" where
  "block_info_bytes cursor d =
     htole64 (ucast (cursor + 1)) @ htole64 (pd_bytes d) @ htole32 (pd_logical d) @ htole32 (pd_physical d) @
     htole32 (if pd_read_only d \<noteq> 0 then HYPER_IO_BLOCK_READ_ONLY else 0) @ htole32 (cursor + 1)"

type_synonym dispatched = "u32 \<times> bytes \<times> nat"

definition block_enum :: "env \<Rightarrow> hyper_io_block_enum \<Rightarrow> bytes \<Rightarrow> nat \<Rightarrow> (backend, dispatched) state" where
  "block_enum env m reply reply_size =
     (if e_reserved m \<noteq> 0 then State_Monad.return (HYPER_IO_INVALID, reply, reply_size)
      else do {
        failed \<leftarrow> (if e_cursor m = 0 then discover_disks env else State_Monad.return 0);
        if failed \<noteq> 0 then State_Monad.return (HYPER_IO_BACKEND_FAILURE, reply, reply_size)
        else do {
          b \<leftarrow> State_Monad.get;
          let q = owner_of b;
          let cursor = e_cursor m;
          State_Monad.return
            (if unat cursor > length (bo_disks q) then (HYPER_IO_INVALID, reply, reply_size)
             else if unat cursor = length (bo_disks q) then (HYPER_IO_OK, reply, 80)
             else (HYPER_IO_OK, splice 48 (block_info_bytes cursor (bo_disks q ! unat cursor)) reply, 80)) } })"

definition block_dispatch ::
    "env \<Rightarrow> nat \<Rightarrow> bytes \<Rightarrow> bytes \<Rightarrow> nat \<Rightarrow> (backend, dispatched option) state" where
  "block_dispatch env fuel message reply reply_size = do {
     b \<leftarrow> State_Monad.get;
     let operation = h_operation (header_of message);
     if blocks b = None then State_Monad.return (Some (HYPER_IO_UNSUPPORTED, reply, reply_size))
     else if operation = HYPER_IO_BLOCK_HELLO \<and> length message = 40
     then State_Monad.return (Some (HYPER_IO_OK,
       splice 48 (htole64 7) (splice 56 (htole32 HYPER_IO_BLOCK_MAX_READ) reply), 64))
     else if operation = HYPER_IO_BLOCK_ENUM \<and> length message = 48
     then do { d \<leftarrow> block_enum env (block_enum_of message) reply reply_size; State_Monad.return (Some d) }
     else if operation = HYPER_IO_BLOCK_READ \<and> length message = 72
     then do {
       s \<leftarrow> block_read env fuel (block_read_of message);
       State_Monad.return (map_option (\<lambda>s. (s, reply, reply_size)) s) }
     else if operation = HYPER_IO_BLOCK_BIND \<and> length message = 72
     then do {
       s \<leftarrow> bind_range env fuel (block_bind_of message);
       State_Monad.return (map_option (\<lambda>s. (s, reply, reply_size)) s) }
     else State_Monad.return (Some (HYPER_IO_INVALID, reply, reply_size)) }"

section \<open>The invariant of the owner\<close>

definition binding_ok :: "physical_disk list \<Rightarrow> hyper_block_range \<Rightarrow> bool" where
  "binding_ok ds r \<longleftrightarrow> unat (r_disk r) \<le> length ds \<and>
     (let d = ds ! (unat (r_disk r) - 1)
      in hyper_block_range_valid (pd_bytes d) (pd_logical d) (pd_read_only d) r)"

definition bindings_ok :: "block_owner \<Rightarrow> bool" where
  "bindings_ok q \<longleftrightarrow>
     (\<forall>i<HYPER_BLOCK_CLIENTS. r_disk (bo_bindings q ! i) \<noteq> 0 \<longrightarrow>
        0 < i \<and> bo_clients q ! i \<and> binding_ok (bo_disks q) (bo_bindings q ! i)) \<and>
     (\<forall>i<HYPER_BLOCK_CLIENTS. \<forall>j<HYPER_BLOCK_CLIENTS. i \<noteq> j \<longrightarrow>
        \<not> hyper_block_ranges_conflict (bo_bindings q ! i) (bo_bindings q ! j))"

definition owner_inv :: "block_owner \<Rightarrow> bool" where
  "owner_inv q \<longleftrightarrow> length (bo_clients q) = HYPER_BLOCK_CLIENTS \<and>
     length (bo_bindings q) = HYPER_BLOCK_CLIENTS \<and> length (bo_disks q) \<le> HYPER_BLOCK_DISKS \<and>
     list_all geometry_ok (bo_disks q) \<and> distinct (map pd_device (bo_disks q)) \<and> bindings_ok q"

text \<open>Disk identifiers and bindings never change once issued.\<close>

definition owner_extends :: "block_owner \<Rightarrow> block_owner \<Rightarrow> bool" where
  "owner_extends q q' \<longleftrightarrow> bo_clients q' = bo_clients q \<and>
     (\<exists>ds. bo_disks q' = bo_disks q @ ds) \<and>
     (\<forall>i<HYPER_BLOCK_CLIENTS. r_disk (bo_bindings q ! i) \<noteq> 0 \<longrightarrow> bo_bindings q' ! i = bo_bindings q ! i)"

lemma owner_extends_refl [simp]: "owner_extends q q"
  by (simp add: owner_extends_def)

lemma owner_extends_trans: "owner_extends q r \<Longrightarrow> owner_extends r s \<Longrightarrow> owner_extends q s"
  by (auto simp: owner_extends_def)

lemma binding_ok_append: "r_disk r \<noteq> 0 \<Longrightarrow> binding_ok ds r \<Longrightarrow> binding_ok (ds @ es) r"
proof -
  assume "r_disk r \<noteq> 0" "binding_ok ds r"
  moreover from this have "unat (r_disk r) - 1 < length ds"
    using unat_gt_0 [of "r_disk r"] by (auto simp: binding_ok_def Let_def)
  ultimately show ?thesis by (auto simp: binding_ok_def nth_append)
qed

lemma owner_append_disk:
  assumes "owner_inv q" and "geometry_ok d" and "length (bo_disks q) \<noteq> HYPER_BLOCK_DISKS"
    and "pd_device d \<notin> pd_device ` set (bo_disks q)"
  shows "owner_inv (q\<lparr>bo_disks := bo_disks q @ [d]\<rparr>)" and "owner_extends q (q\<lparr>bo_disks := bo_disks q @ [d]\<rparr>)"
  using assms by (auto simp: owner_inv_def bindings_ok_def owner_extends_def intro: binding_ok_append)

lemma owner_bind:
  assumes "owner_inv q" and "0 < i" and "i < HYPER_BLOCK_CLIENTS" and "bo_clients q ! i"
    and "binding_ok (bo_disks q) r" and "r_disk (bo_bindings q ! i) = 0"
    and free: "\<not> list_ex (\<lambda>j. hyper_block_ranges_conflict (bo_bindings q ! j) r) [1..<HYPER_BLOCK_CLIENTS]"
  shows "owner_inv (q\<lparr>bo_bindings := (bo_bindings q)[i := r]\<rparr>)"
    and "owner_extends q (q\<lparr>bo_bindings := (bo_bindings q)[i := r]\<rparr>)"
proof -
  have none: "\<not> hyper_block_ranges_conflict (bo_bindings q ! j) r" if "j < HYPER_BLOCK_CLIENTS" for j
  proof (cases "j = 0")
    case True
    then have "r_disk (bo_bindings q ! j) = 0"
      using assms(1) by (force simp: owner_inv_def bindings_ok_def)
    then show ?thesis by (simp add: hyper_block_ranges_conflict_def)
  next
    case False
    then show ?thesis using free that by (auto simp: list_ex_iff)
  qed
  then have "\<not> hyper_block_ranges_conflict r (bo_bindings q ! j)" if "j < HYPER_BLOCK_CLIENTS" for j
    using that ranges_conflict_sym by blast
  with none show "owner_inv (q\<lparr>bo_bindings := (bo_bindings q)[i := r]\<rparr>)"
    using assms(1-5) by (auto simp: owner_inv_def bindings_ok_def nth_list_update)
  show "owner_extends q (q\<lparr>bo_bindings := (bo_bindings q)[i := r]\<rparr>)"
    using assms by (auto simp: owner_extends_def owner_inv_def nth_list_update)
qed

section \<open>Steps of the owner\<close>

text \<open>A block operation changes nothing but the owner, and extends it.\<close>

definition owned :: "backend \<Rightarrow> backend \<Rightarrow> bool" where
  "owned b t \<longleftrightarrow> blocks b \<noteq> None \<and> blocks t \<noteq> None \<and> owner_inv (owner_of t) \<and>
     owner_extends (owner_of b) (owner_of t) \<and> quietly (b\<lparr>blocks := blocks t\<rparr>) t"

lemma owned_refl: "blocks b \<noteq> None \<Longrightarrow> owner_inv (owner_of b) \<Longrightarrow> owned b b"
  by (simp add: owned_def)

lemma owner_of_called [simp]: "owner_of (called env c b) = owner_of b"
  by (simp add: owner_of_def)

lemma owned_called [simp]: "quiet c \<Longrightarrow> owned b (called env c t) \<longleftrightarrow> owned b t"
  by (simp add: owned_def)

lemma owned_quietly: "owned b t \<Longrightarrow> quietly t u \<Longrightarrow> owned b u"
  by (auto simp: owned_def owner_of_def quietly_def config_def shared_def)

text \<open>Two bindings of one disk share no sector as long as one of them may write.\<close>

lemma owner_inv_exclusive:
  assumes "owner_inv q" and "i < HYPER_BLOCK_CLIENTS" and "j < HYPER_BLOCK_CLIENTS" and "i \<noteq> j"
    and "r_disk (bo_bindings q ! i) \<noteq> 0" and "r_disk (bo_bindings q ! i) = r_disk (bo_bindings q ! j)"
    and "r_read_only (bo_bindings q ! i) = 0"
  shows "range_sectors (bo_bindings q ! i) \<inter> range_sectors (bo_bindings q ! j) = {}"
proof -
  have b: "bindings_ok q" using assms(1) by (simp add: owner_inv_def)
  then have "binding_ok (bo_disks q) (bo_bindings q ! i)" "binding_ok (bo_disks q) (bo_bindings q ! j)"
    and c: "\<not> hyper_block_ranges_conflict (bo_bindings q ! i) (bo_bindings q ! j)"
    using assms unfolding bindings_ok_def by auto
  then obtain n m where r: "range_in_disk n (bo_bindings q ! i)" "range_in_disk m (bo_bindings q ! j)"
    "n < 2 ^ 64" "m < 2 ^ 64"
    by (fastforce simp: binding_ok_def Let_def range_valid_nat intro: le_less_trans [OF div_le_dividend u64_bound])
  from c assms(5-7) show ?thesis by (auto simp: ranges_conflict_sectors [OF r])
qed

lemma owned_owner:
  "owned b t \<Longrightarrow> blocks b = Some q \<Longrightarrow> \<exists>q'. blocks t = Some q' \<and> owner_extends q q' \<and> owner_inv q'"
  by (auto simp: owned_def owner_of_def)

lemma owned_modify:
  assumes "owned b t" and "owner_inv (f (owner_of t))" and "owner_extends (owner_of t) (f (owner_of t))"
  shows "owned b (t\<lparr>blocks := map_option f (blocks t)\<rparr>)"
  using assms
  by (auto simp: owned_def owner_of_def quietly_def config_def shared_def elim: owner_extends_trans)

lemma backend_inv_blocks [simp]: "backend_inv (b\<lparr>blocks := x\<rparr>) \<longleftrightarrow> backend_inv b"
  by (simp add: backend_inv_def linked_def closed_def)

lemma owned_inv: "owned b t \<Longrightarrow> backend_inv b \<Longrightarrow> backend_inv t"
  unfolding owned_def by (metis quietly_inv backend_inv_blocks)

lemma owned_shared:
  "owned b t \<Longrightarrow> config t = config b \<and> shared t = shared b \<and> disk t = disk b \<and> net t = net b \<and> tap t = tap b"
  by (simp add: owned_def quietly_def config_def shared_def)

lemma wp_modify_owner [wp_rules]:
  "wp (modify_owner f) Q = (\<lambda>b. Q () (b\<lparr>blocks := map_option f (blocks b)\<rparr>))"
  by (simp add: modify_owner_def wp_rules)

lemma wp_query [wp_rules]:
  "wp (query env c) Q = (\<lambda>b. Q (if ret (env (events b) c) \<noteq> 0 then None else Some (env (events b) c)) (called env c b))"
  by (simp add: query_def wp_rules)

lemma probe_disk_spec:
  "owned b t \<Longrightarrow> wp (probe_disk env fd) (\<lambda>r u. owned b u \<and> owner_of u = owner_of t \<and>
     (\<forall>d. r = Some d \<longrightarrow> geometry_ok d)) t"
  unfolding probe_disk_def by (auto simp: wp_rules Let_def split: option.split if_split_asm)

lemma record_disk_spec:
  assumes "owned b t" and "geometry_ok d"
  shows "wp (record_disk env d) (\<lambda>_. owned b) t"
proof -
  have inv: "owner_inv (owner_of t)" using assms(1) by (simp add: owned_def)
  have "owned b (t\<lparr>blocks := map_option (\<lambda>q. q\<lparr>bo_disks := bo_disks q @ [d]\<rparr>) (blocks t)\<rparr>)"
    if "length (bo_disks (owner_of t)) \<noteq> HYPER_BLOCK_DISKS"
      "List.find (\<lambda>e. pd_device e = pd_device d) (bo_disks (owner_of t)) = None"
  proof -
    have "pd_device d \<notin> pd_device ` set (bo_disks (owner_of t))"
      using that(2) by (auto simp: find_None_iff)
    with owner_append_disk [OF inv assms(2) that(1)] assms(1) show ?thesis by (intro owned_modify) simp_all
  qed
  with assms show ?thesis
    unfolding record_disk_def by (auto simp: wp_rules split: option.split)
qed


lemma wp_probe_disk:
  assumes "owned b t" and "\<And>r u. owned b u \<Longrightarrow> (\<And>d. r = Some d \<Longrightarrow> geometry_ok d) \<Longrightarrow> Q r u"
  shows "wp (probe_disk env fd) Q t"
  by (rule wp_mono [OF probe_disk_spec [OF assms(1)]]) (use assms(2) in auto)

lemma discover_entry_spec: "owned b t \<Longrightarrow> wp (discover_entry env name) (\<lambda>_. owned b) t"
  unfolding discover_entry_def
  by (auto simp: wp_rules record_disk_spec split: option.split intro!: wp_probe_disk [where b = b])

lemma discover_disks_spec: "owned b t \<Longrightarrow> wp (discover_disks env) (\<lambda>_. owned b) t"
  unfolding discover_disks_def
  by (auto simp: wp_rules intro!: wp_for_return [where I = "\<lambda>_. owned b"] discover_entry_spec)

section \<open>Binding a range\<close>

lemma disk_current_spec: "wp (disk_current env d) (\<lambda>_. tracks b p v) t" if "tracks b p v t"
  using that unfolding disk_current_def by (auto simp: wp_rules split: option.split)

lemma tracks_blocks: "tracks b p v t \<Longrightarrow> blocks t = blocks b"
  by (simp add: tracks_def quietly_def)

lemma tracks_trans: "tracks b p False t \<Longrightarrow> tracks t p v u \<Longrightarrow> tracks b p v u"
  by (auto simp: tracks_def intro: quietly_trans)

text \<open>
  \<open>bind_range\<close>: on success the client is bound to exactly the requested range, otherwise nothing
  is bound; and the LUN of the client is published exactly when a new binding is made.
\<close>

definition bind_post :: "backend \<Rightarrow> hyper_io_block_bind \<Rightarrow> u32 option \<Rightarrow> backend \<Rightarrow> bool" where
  "bind_post b m r t \<longleftrightarrow> owned b t \<and>
     (if r = Some HYPER_IO_OK
      then bo_bindings (owner_of t) = (bo_bindings (owner_of b))[unat (b_client m) := range_of m] \<and>
           0 < unat (b_client m) \<and> unat (b_client m) < HYPER_BLOCK_CLIENTS \<and> r_disk (range_of m) \<noteq> 0
      else blocks t = blocks b) \<and>
     (published (lun_published (b_client m)) (events t) \<longleftrightarrow>
        published (lun_published (b_client m)) (events b) \<or>
        (r = Some HYPER_IO_OK \<and> r_disk (bo_bindings (owner_of b) ! unat (b_client m)) = 0))"

lemma bind_unchanged:
  assumes "owner_inv (owner_of b)" and "blocks b \<noteq> None" and "tracks b (lun_published (b_client m)) False t"
    and "r \<noteq> Some HYPER_IO_OK"
  shows "bind_post b m r t"
  using assms owned_quietly [OF owned_refl [OF assms(2,1)]]
  by (simp add: bind_post_def tracks_def) (simp add: quietly_def)

lemma bind_repeated:
  assumes "owner_inv (owner_of b)" and "blocks b \<noteq> None" and "tracks b (lun_published (b_client m)) False t"
    and "bo_bindings (owner_of b) ! unat (b_client m) = range_of m" and "r_disk (range_of m) \<noteq> 0"
    and "b_client m \<noteq> 0" and "unat (b_client m) < HYPER_BLOCK_CLIENTS"
  shows "bind_post b m (Some HYPER_IO_OK) t"
proof -
  have "owned b t" using assms(1-3) by (auto simp: tracks_def intro: owned_quietly owned_refl)
  moreover have "owner_of t = owner_of b" using tracks_blocks [OF assms(3)] by (simp add: owner_of_def)
  ultimately show ?thesis
    using assms list_update_id [of "bo_bindings (owner_of b)" "unat (b_client m)"]
    by (simp add: bind_post_def tracks_def unat_gt_0)
qed

lemma bind_new:
  assumes "owner_inv (owner_of b)" and "blocks b \<noteq> None" and "tracks b (lun_published (b_client m)) True t"
    and "b_client m \<noteq> 0" and "unat (b_client m) < HYPER_BLOCK_CLIENTS" and "bo_clients (owner_of b) ! unat (b_client m)"
    and "r_disk (range_of m) \<noteq> 0" and "binding_ok (bo_disks (owner_of b)) (range_of m)"
    and "r_disk (bo_bindings (owner_of b) ! unat (b_client m)) = 0"
    and "\<not> list_ex (\<lambda>j. hyper_block_ranges_conflict (bo_bindings (owner_of b) ! j) (range_of m)) [1..<HYPER_BLOCK_CLIENTS]"
  shows "bind_post b m (Some HYPER_IO_OK)
    (t\<lparr>blocks := map_option (\<lambda>q. q\<lparr>bo_bindings := (bo_bindings q)[unat (b_client m) := range_of m]\<rparr>) (blocks t)\<rparr>)"
proof -
  let ?f = "\<lambda>q. q\<lparr>bo_bindings := (bo_bindings q)[unat (b_client m) := range_of m]\<rparr>"
  have t: "blocks t = blocks b" "owner_of t = owner_of b"
    using tracks_blocks [OF assms(3)] by (simp_all add: owner_of_def)
  have pos: "0 < unat (b_client m)" using assms(4) by (simp add: unat_gt_0)
  have own: "owned b t" using assms(1-3) by (auto simp: tracks_def intro: owned_quietly owned_refl)
  have "owned b (t\<lparr>blocks := map_option ?f (blocks t)\<rparr>)"
    using own owner_bind [OF assms(1) pos assms(5,6,8-10)] t by (intro owned_modify) simp_all
  then show ?thesis
    using assms t pos by (auto simp: bind_post_def tracks_def owner_of_def)
qed

lemma bind_range_spec:
  assumes "owner_inv (owner_of b)" and "blocks b \<noteq> None"
  shows "wp (bind_range env fuel m) (bind_post b m) b"
proof -
  let ?p = "lun_published (b_client m)"
  let ?d = "bo_disks (owner_of b) ! (unat (r_disk (range_of m)) - 1)"
  have current: "wp (disk_current env d) Q t"
    if "tracks b ?p False t" "\<And>r u. tracks b ?p False u \<Longrightarrow> Q r u" for d Q t
    by (rule wp_mono [OF disk_current_spec [OF that(1)]]) (rule that(2))
  have publish: "wp (block_target_publish env fuel (b_client m) dev lg r) Q t"
    if "tracks b ?p False t" "\<And>v u. tracks b ?p (v = Some 0) u \<Longrightarrow> Q v u" for dev lg r Q t
    by (rule wp_mono [OF block_target_publish_spec [where b = t]]) (use that tracks_trans in blast)
  have same: "bind_post b m r t" if "tracks b ?p False t" "r \<noteq> Some HYPER_IO_OK" for r t
    using assms that by (intro bind_unchanged) simp_all
  show ?thesis
    unfolding bind_range_def Let_def
    by (auto simp: wp_rules same assms binding_ok_def Let_def bind_repeated bind_new split: option.split
        intro!: current publish)
qed

section \<open>Reading a disk\<close>

text \<open>
  A copy into the mapping: the buffer of every \<open>pread\<close> lies in the client's memory, and the read
  lies in the range the request named.
\<close>

definition read_event_ok :: "int \<Rightarrow> u64 \<Rightarrow> u64 \<Rightarrow> u64 \<Rightarrow> event \<Rightarrow> bool" where
  "read_event_ok fd destination len offset e \<longleftrightarrow> (case fst e of
     Pread fd' address n at \<Rightarrow> fd' = fd \<and>
       unat destination \<le> unat address \<and> unat address + unat n = unat destination + unat len \<and>
       unat offset \<le> unat at \<and> unat at + unat n = unat offset + unat len
   | _ \<Rightarrow> False)"

lemma read_step_ok:
  assumes "copied < len" and "unat destination + unat len < 2 ^ 64" and "unat offset + unat len < 2 ^ 64"
  shows "read_event_ok fd destination len offset (Pread fd (destination + copied) (len - copied) (offset + copied), a)"
proof -
  have d: "unat copied < unat len" using assms(1) by (simp add: word_less_nat_alt)
  then have "unat (destination + copied) = unat destination + unat copied"
    "unat (offset + copied) = unat offset + unat copied"
    using assms by (simp_all add: unat_add_le)
  moreover have "unat (len - copied) = unat len - unat copied"
    using d by (simp add: unat_sub_le)
  ultimately show ?thesis using d by (simp add: read_event_ok_def)
qed

definition read_safe :: "backend \<Rightarrow> int \<Rightarrow> u64 \<Rightarrow> u64 \<Rightarrow> u64 \<Rightarrow> backend \<Rightarrow> bool" where
  "read_safe b fd destination len offset t \<longleftrightarrow> quietly b t \<and>
     (\<exists>es. events t = events b @ es \<and> list_all (read_event_ok fd destination len offset) es)"

lemma read_safe_refl: "read_safe b fd destination len offset b"
  by (simp add: read_safe_def)

lemma read_safe_called:
  assumes "read_safe b fd destination len offset t" and "read_event_ok fd destination len offset (c, env (events t) c)"
    and "quiet c"
  shows "read_safe b fd destination len offset (called env c t)"
  using assms by (auto simp: read_safe_def)

lemma read_loop_safe:
  assumes "unat destination + unat len < 2 ^ 64" and "unat offset + unat len < 2 ^ 64"
    and "read_safe b fd destination len offset t"
  shows "wp (read_loop env fuel fd destination len offset copied) (\<lambda>_. read_safe b fd destination len offset) t"
  using assms(3)
proof (induction fuel arbitrary: copied t)
  case 0
  then show ?case by (simp add: read_loop.simps wp_rules)
next
  case (Suc fuel)
  have "read_safe b fd destination len offset
      (called env (Pread fd (destination + copied) (len - copied) (offset + copied)) t)" if "copied < len"
    using Suc.prems read_step_ok [OF that assms(1,2)] by (intro read_safe_called) simp_all
  with Suc show ?case
    by (subst read_loop.simps) (simp add: wp_rules)
qed

text \<open>
  A kernel that never returns more than it was asked for: then the loop ends unless it is
  interrupted more often than the fuel allows beyond the number of bytes to read.
\<close>

definition honest_reads :: "env \<Rightarrow> bool" where
  "honest_reads env \<longleftrightarrow> (\<forall>es fd a n at. ret (env es (Pread fd a n at)) \<le> int (unat n))"

definition read_unfinished :: "backend \<Rightarrow> nat \<Rightarrow> nat \<Rightarrow> u32 option \<Rightarrow> backend \<Rightarrow> bool" where
  "read_unfinished b fuel left r t \<longleftrightarrow> (r = None \<longrightarrow>
     (\<exists>es. events t = events b @ es \<and> fuel \<le> length (filter interrupted es) + left))"

lemma read_progress:
  fixes copied len :: u64
  assumes "copied < len" and "0 < n" and "n \<le> int (unat (len - copied))"
  shows "unat (len - (copied + word_of_int n)) < unat (len - copied)"
proof -
  have l: "unat (len - copied) = unat len - unat copied" "unat copied < unat len"
    using assms(1) by (simp_all add: unat_sub_le word_less_nat_alt)
  have "n < 18446744073709551616" using assms(3) u64_bound [of "len - copied"] by linarith
  then have w: "unat (word_of_int n :: u64) = nat n"
    using assms(2) by (simp add: unsigned_of_int take_bit_int_eq_self)
  have b: "nat n \<le> unat len - unat copied" "0 < nat n"
    using assms(2,3) by (simp_all only: l nat_le_iff zero_less_nat_eq)
  have "unat (copied + word_of_int n) = unat copied + nat n"
    using w l b u64_bound [of len] by (subst unat_add_le) simp_all
  moreover from this have "unat (len - (copied + word_of_int n)) = unat len - (unat copied + nat n)"
    using l b by (subst unat_sub_le) simp_all
  ultimately show ?thesis using l b by simp
qed

lemma read_unfinished_step:
  assumes "read_unfinished (called env c b) fuel left r t"
    and "if interrupted (c, env (events b) c) then left \<le> left' else left < left'"
  shows "read_unfinished b (Suc fuel) left' r t"
  using assms by (auto simp: read_unfinished_def split: if_splits)

lemma read_loop_done:
  assumes "honest_reads env"
  shows "wp (read_loop env fuel fd destination len offset copied) (read_unfinished b fuel (unat (len - copied))) b"
proof (induction fuel arbitrary: copied b)
  case 0
  then show ?case by (auto simp: read_loop.simps wp_rules read_unfinished_def)
next
  case (Suc fuel)
  let ?c = "Pread fd (destination + copied) (len - copied) (offset + copied)"
  let ?a = "env (events b) ?c"
  have again: "wp (read_loop env fuel fd destination len offset copied')
      (read_unfinished b (Suc fuel) (unat (len - copied))) (called env ?c b)"
    if "if interrupted (?c, ?a) then unat (len - copied') \<le> unat (len - copied)
        else unat (len - copied') < unat (len - copied)" for copied'
    by (rule wp_mono [OF Suc.IH]) (erule read_unfinished_step [where env = env and c = ?c], rule that)
  have progress: "unat (len - (copied + word_of_int (ret ?a))) < unat (len - copied)"
    if "copied < len" "0 < ret ?a"
    using that assms by (intro read_progress) (auto simp: honest_reads_def)
  show ?case
    by (subst read_loop.simps)
       (use again [of copied] again [of "copied + word_of_int (ret ?a)"] progress in
         \<open>auto simp: wp_rules read_unfinished_def interrupted_def\<close>)
qed

text \<open>Reads of the whole operation: inside the disk and inside the mapping of the client.\<close>

definition pread_bounds :: "backend \<Rightarrow> physical_disk \<Rightarrow> event \<Rightarrow> bool" where
  "pread_bounds b d e \<longleftrightarrow> (case fst e of
     Pread fd address n at \<Rightarrow> fd = pd_fd d \<and>
       unat (memory b) \<le> unat address \<and>
       unat address + unat n \<le> unat (memory b) + unat (mi_length (region b)) \<and>
       unat at + unat n \<le> unat (pd_bytes d)
   | _ \<Rightarrow> True)"

definition block_read_post :: "backend \<Rightarrow> hyper_io_block_read \<Rightarrow> backend \<Rightarrow> bool" where
  "block_read_post b m t \<longleftrightarrow> quietly b t \<and> (\<exists>es. events t = events b @ es \<and>
     list_all (pread_bounds b (bo_disks (owner_of b) ! (unat (rd_disk m) - 1))) es)"

lemma block_read_post_called:
  "block_read_post b m t \<Longrightarrow> quiet_ioctl r \<Longrightarrow> block_read_post b m (called env (Ioctl n r) t)"
  by (auto simp: block_read_post_def pread_bounds_def)

lemma disk_current_post: "block_read_post b m t \<Longrightarrow> wp (disk_current env d) (\<lambda>_. block_read_post b m) t"
  unfolding disk_current_def by (auto simp: wp_rules block_read_post_called split: option.split)

lemma read_event_bounds:
  assumes "read_event_ok (pd_fd d) (memory b + moff) len offset e"
    and "unat (memory b + moff) = unat (memory b) + unat moff"
    and "unat moff + unat len \<le> unat (mi_length (region b))" and "unat offset + unat len \<le> unat (pd_bytes d)"
  shows "pread_bounds b d e"
  using assms by (cases "fst e") (auto simp: read_event_ok_def pread_bounds_def)

lemma block_read_spec:
  assumes "unat (memory b) + unat (mi_length (region b)) < 2 ^ 64"
  shows "wp (block_read env fuel m) (\<lambda>_. block_read_post b m) b"
proof -
  define d where "d = bo_disks (owner_of b) ! (unat (rd_disk m) - 1)"
  have loop: "wp (read_loop env fuel (pd_fd d) (memory b + rd_memory_offset m) (rd_length m) (rd_offset m) 0)
      (\<lambda>_. block_read_post b m) t"
    if v: "hyper_block_read_valid (pd_bytes d) (pd_logical d) (rd_offset m) (rd_length m)
        (mi_length (region b)) (rd_memory_offset m)" and t: "block_read_post b m t" for t
  proof -
    have n: "unat (rd_offset m) + unat (rd_length m) \<le> unat (pd_bytes d)"
      "unat (rd_memory_offset m) + unat (rd_length m) \<le> unat (mi_length (region b))"
      using v by (simp_all add: read_valid_nat)
    have dest: "unat (memory b + rd_memory_offset m) = unat (memory b) + unat (rd_memory_offset m)"
      using n assms by (subst unat_add_le) simp_all
    have "wp (read_loop env fuel (pd_fd d) (memory b + rd_memory_offset m) (rd_length m) (rd_offset m) 0)
        (\<lambda>_. read_safe t (pd_fd d) (memory b + rd_memory_offset m) (rd_length m) (rd_offset m)) t"
      using n dest assms u64_bound [of "pd_bytes d"] by (intro read_loop_safe read_safe_refl) simp_all
    then show ?thesis
    proof (rule wp_mono)
      fix u assume "read_safe t (pd_fd d) (memory b + rd_memory_offset m) (rd_length m) (rd_offset m) u"
      then obtain es where u: "quietly t u" "events u = events t @ es"
        "list_all (read_event_ok (pd_fd d) (memory b + rd_memory_offset m) (rd_length m) (rd_offset m)) es"
        by (auto simp: read_safe_def)
      then have "list_all (pread_bounds b d) es"
        using read_event_bounds [OF _ dest n(2,1)] by (auto simp: list_all_iff)
      with t u show "block_read_post b m u"
        by (auto simp: block_read_post_def d_def intro: quietly_trans)
    qed
  qed
  have cur: "wp (disk_current env d) Q t"
    if "block_read_post b m t" "\<And>r u. block_read_post b m u \<Longrightarrow> Q r u" for Q t
    by (rule wp_mono [OF disk_current_post [OF that(1)]]) (rule that(2))
  have "block_read_post b m b" by (simp add: block_read_post_def)
  then show ?thesis
    unfolding block_read_def Let_def wp_rules d_def [symmetric] by (auto simp: wp_rules loop intro!: cur)
qed


section \<open>Dispatch of the block operations\<close>

lemma read_loop_quietly: "quietly b t \<Longrightarrow> wp (read_loop env fuel fd destination len offset copied) (\<lambda>_. quietly b) t"
proof (induction fuel arbitrary: copied t)
  case (Suc fuel)
  then show ?case by (subst read_loop.simps) (simp add: wp_rules)
qed (simp add: read_loop.simps wp_rules)

lemma block_read_quietly: "wp (block_read env fuel m) (\<lambda>_. quietly b) b"
proof -
  have "wp (disk_current env d) Q t" if "quietly b t" "\<And>r u. quietly b u \<Longrightarrow> Q r u" for d Q t
    unfolding disk_current_def using that by (auto simp: wp_rules split: option.split)
  then show ?thesis
    unfolding block_read_def Let_def by (auto simp: wp_rules read_loop_quietly)
qed

text \<open>A dispatched reply keeps the header it was given and stays inside the 80-byte structure.\<close>

definition reply_kept :: "bytes \<Rightarrow> nat \<Rightarrow> dispatched \<Rightarrow> bool" where
  "reply_kept reply n r \<longleftrightarrow> (case r of (status, reply', n') \<Rightarrow>
     length reply' = length reply \<and> take 48 reply' = take 48 reply \<and> n' \<in> {n, 64, 80})"

lemma length_block_info [simp]: "length (block_info_bytes cursor d) = 32"
  by (simp add: block_info_bytes_def)

lemma block_enum_spec:
  assumes "owned b b" and "length reply = 80"
  shows "wp (block_enum env m reply n) (\<lambda>r t. owned b t \<and> reply_kept reply n r) b"
proof -
  have disc: "wp (discover_disks env) Q b" if "\<And>r u. owned b u \<Longrightarrow> Q r u" for Q
    by (rule wp_mono [OF discover_disks_spec [OF assms(1)]]) (rule that)
  show ?thesis
    unfolding block_enum_def Let_def using assms
    by (auto simp: wp_rules reply_kept_def take_splice split: if_splits intro!: disc)
qed

lemma block_dispatch_spec:
  assumes "\<And>q. blocks b = Some q \<Longrightarrow> owner_inv q" and "length reply = 80"
  shows "wp (block_dispatch env fuel message reply n) (\<lambda>r t.
    (if blocks b = None then t = b else owned b t) \<and> (\<forall>d. r = Some d \<longrightarrow> reply_kept reply n d)) b"
proof (cases "blocks b")
  case None
  then show ?thesis by (simp add: block_dispatch_def wp_rules Let_def reply_kept_def)
next
  case (Some q)
  then have own: "owner_inv (owner_of b)" "blocks b \<noteq> None" using assms(1) by (simp_all add: owner_of_def)
  then have refl: "owned b b" by (intro owned_refl)
  have enum: "wp (block_enum env m reply n) Q b" if "\<And>r u. owned b u \<Longrightarrow> reply_kept reply n r \<Longrightarrow> Q r u" for Q m
    by (rule wp_mono [OF block_enum_spec [OF refl assms(2)]]) (use that in blast)
  have read: "wp (block_read env fuel m) Q b" if "\<And>r u. owned b u \<Longrightarrow> Q r u" for Q m
    by (rule wp_mono [OF block_read_quietly]) (use that owned_quietly [OF refl] in blast)
  have bind: "wp (bind_range env fuel m) Q b" if "\<And>r u. owned b u \<Longrightarrow> Q r u" for Q m
    by (rule wp_mono [OF bind_range_spec [OF own]]) (use that in \<open>auto simp: bind_post_def\<close>)
  have kept: "reply_kept reply n (s, reply, n)" for s by (simp add: reply_kept_def)
  show ?thesis
    unfolding block_dispatch_def Let_def using Some assms(2) refl
    by (auto simp: wp_rules kept reply_kept_def [of _ _ "(_, splice _ _ _, _)"] take_splice
        intro!: enum read bind)
qed

text \<open>The readiness test of a client looks for exactly the link that publication creates.\<close>

lemma lun_path_published: "lun_path (client_wwpn client) = lun_published client"
  by (simp add: lun_path_def lun_published_def lun_dir_def group_path_def target_path_def)


section \<open>Creating the owner\<close>

definition fresh_owner :: "backend \<Rightarrow> backend \<Rightarrow> bool" where
  "fresh_owner b t \<longleftrightarrow> quietly (b\<lparr>blocks := blocks t\<rparr>) t \<and> (\<exists>q. blocks t = Some q \<and> bo_disks q = [] \<and>
     length (bo_clients q) = HYPER_BLOCK_CLIENTS \<and> bo_bindings q = replicate HYPER_BLOCK_CLIENTS no_range)"

lemma fresh_owner_inv: "fresh_owner b t \<Longrightarrow> owner_inv (owner_of t)"
  by (auto simp: fresh_owner_def owner_of_def owner_inv_def bindings_ok_def no_range_def
      hyper_block_ranges_conflict_def)

lemma fresh_owner_called [simp]: "quiet c \<Longrightarrow> fresh_owner b (called env c t) \<longleftrightarrow> fresh_owner b t"
  by (simp add: fresh_owner_def)

lemma fresh_owner_clients:
  "fresh_owner b t \<Longrightarrow> z = blocks t \<Longrightarrow>
     fresh_owner b (t\<lparr>blocks := map_option (\<lambda>q. q\<lparr>bo_clients := (bo_clients q)[i := x]\<rparr>) z\<rparr>)"
  by (auto simp: fresh_owner_def quietly_def config_def shared_def)

lemma block_owner_create_spec:
  "wp (block_owner_create env path)
     (\<lambda>r t. if r = 0 then fresh_owner b t \<and> owner_inv (owner_of t) else quietly b t) b"
proof -
  let ?set = "\<lambda>c. do {
     present \<leftarrow> (if c_id c = 0 then State_Monad.return False
       else do { a \<leftarrow> call env (Access (notification_path (c_id c))); State_Monad.return (ret a = 0) });
     modify_owner (\<lambda>q. q\<lparr>bo_clients := (bo_clients q)[unat (c_id c) := present]\<rparr>) }"
  have set: "wp (for_each ?set cs) (\<lambda>_. fresh_owner b) t" if "fresh_owner b t" for cs t
    using that by (intro wp_for_each) (auto simp: wp_rules fresh_owner_clients)
  have start: "fresh_owner b (t\<lparr>blocks := Some \<lparr>bo_disks = [], bo_clients = replicate HYPER_BLOCK_CLIENTS False,
      bo_bindings = replicate HYPER_BLOCK_CLIENTS no_range\<rparr>\<rparr>)" if "quietly b t" for t
    using that by (auto simp: fresh_owner_def quietly_def config_def shared_def)
  have all: "wp (for_each ?set cs) Q t" if "fresh_owner b t" "\<And>u. fresh_owner b u \<Longrightarrow> Q () u" for Q cs t
    by (rule wp_mono [OF set [OF that(1)]]) (use that(2) in simp)
  show ?thesis
    unfolding block_owner_create_def hyper_clients_read_def
    by (auto simp: wp_rules start fresh_owner_inv split: option.split intro!: all)
qed

lemma block_owner_destroy_spec:
  "backend_inv b \<Longrightarrow> wp (block_owner_destroy env) (\<lambda>_ t. backend_inv t \<and> blocks t = None \<and> shared t = shared b) b"
proof -
  assume inv: "backend_inv b"
  have "wp (for_each (\<lambda>d. do { call env (Close (pd_fd d)); State_Monad.return () }) ds) (\<lambda>_. quietly b) b" for ds
    by (rule wp_for_each) (simp_all add: wp_rules)
  then have "wp (for_each (\<lambda>d. do { call env (Close (pd_fd d)); State_Monad.return () }) ds)
      (\<lambda>_ t. backend_inv (t\<lparr>blocks := None\<rparr>) \<and> shared (t\<lparr>blocks := None\<rparr>) = shared b) b" for ds
    by (rule wp_mono) (use inv quietly_inv in \<open>auto simp: quietly_def shared_def\<close>)
  with inv show ?thesis
    unfolding block_owner_destroy_def by (auto simp: wp_rules split: option.split)
qed

end
