(* ===== verification/Session.thy ===== *)
theory Session
  imports Prelude
begin

text \<open>
  \<open>include/hyper_io_session.h\<close>: admission of a control request into a client session. The
  binding and the transaction numbers belong to the client, the two epochs to its storage
  (device 0) and network (device 1) endpoints.
\<close>

record hyper_io_session =
  binding :: u64
  epoch :: "u64 list"
  retired :: bool

definition initial_session :: hyper_io_session where
  "initial_session = \<lparr>binding = 0, epoch = [0, 0], retired = False\<rparr>"

definition hyper_io_session_admit ::
    "hyper_io_session \<Rightarrow> u64 \<Rightarrow> u64 \<Rightarrow> bool \<Rightarrow> bool \<Rightarrow> u32 \<Rightarrow> int \<times> hyper_io_session" where
  "hyper_io_session_admit s b e hello idle device =
     (if b = 0 \<or> e = 0 \<or> e > 4294967295 \<or> device > 1 then (- 1, s)
      else if binding s \<noteq> b then
        (if \<not> hello \<or> \<not> idle \<or> b \<le> binding s then (- 1, s)
         else (1, s\<lparr>binding := b, epoch := [0, 0][unat device := e], retired := False\<rparr>))
      else if e < epoch s ! unat device then (- 1, s)
      else (0, s))"

definition hyper_io_session_preparable :: "hyper_io_session \<Rightarrow> bool" where
  "hyper_io_session_preparable s \<longleftrightarrow> binding s \<noteq> 0 \<and> \<not> retired s"

definition hyper_io_session_retire :: "hyper_io_session \<Rightarrow> hyper_io_session" where
  "hyper_io_session_retire s = s\<lparr>retired := True\<rparr>"

section \<open>The order in which sessions advance\<close>

text \<open>
  A session only moves forward: to a larger binding, or, within one binding, to epochs that are
  no smaller and to a retirement that is never taken back.
\<close>

definition session_wf :: "hyper_io_session \<Rightarrow> bool" where
  "session_wf s \<longleftrightarrow> length (epoch s) = 2"

definition session_advances :: "hyper_io_session \<Rightarrow> hyper_io_session \<Rightarrow> bool" where
  "session_advances s t \<longleftrightarrow> binding s < binding t \<or>
     (binding s = binding t \<and> list_all2 (\<le>) (epoch s) (epoch t) \<and> (retired s \<longrightarrow> retired t))"

lemma session_advances_refl [simp]: "session_advances s s"
  by (simp add: session_advances_def list_all2_refl)

lemma session_advances_trans:
  "session_advances s t \<Longrightarrow> session_advances t u \<Longrightarrow> session_advances s u"
  unfolding session_advances_def
  by (auto intro: list_all2_trans [of "(\<le>)" "(\<le>)" "(\<le>)"] order.trans)

lemma initial_session_wf [simp]: "session_wf initial_session"
  by (simp add: session_wf_def initial_session_def)

lemma device_index: "\<not> (device :: u32) > 1 \<Longrightarrow> unat device < 2"
  by (simp add: word_less_nat_alt not_less)

lemma session_admit_cases:
  assumes "hyper_io_session_admit s b e hello idle device = (r, t)"
  obtains (rejected) "r = - 1" "t = s"
  | (same) "r = 0" "t = s" "binding s = b" "b \<noteq> 0" "epoch s ! unat device \<le> e" "unat device < 2"
  | (fresh) "r = 1" "binding s < b" "hello" "idle" "binding t = b" "\<not> retired t"
      "epoch t = [0, 0][unat device := e]" "unat device < 2"
  using assms
  by (auto simp: hyper_io_session_admit_def not_le not_less device_index split: if_splits)

lemma session_admit_wf:
  "session_wf s \<Longrightarrow> hyper_io_session_admit s b e hello idle device = (r, t) \<Longrightarrow> session_wf t"
  by (erule session_admit_cases) (auto simp: session_wf_def split: nat.splits)

lemma session_admit_advances:
  "hyper_io_session_admit s b e hello idle device = (r, t) \<Longrightarrow> session_advances s t"
  by (erule session_admit_cases) (auto simp: session_advances_def list_all2_refl)

lemma session_admit_binding:
  "hyper_io_session_admit s b e hello idle device = (r, t) \<Longrightarrow> 0 \<le> r \<Longrightarrow> binding t = b \<and> b \<noteq> 0"
  by (erule session_admit_cases) (auto simp: word_less_nat_alt)

lemma session_set_epoch_advances:
  assumes "epoch s ! i \<le> e"
  shows "session_advances s (s\<lparr>epoch := (epoch s)[i := e]\<rparr>)"
proof -
  have "list_all2 (\<le>) (epoch s) ((epoch s)[i := e])"
    using assms
    by (cases "i < length (epoch s)") (auto simp: list_all2_conv_all_nth nth_list_update list_update_beyond)
  then show ?thesis by (simp add: session_advances_def)
qed

end
