(* ===== verification/Service.thy ===== *)
theory Service
  imports Shared_Memory Block Session
begin

text \<open>
  \<open>service/hyper-io-service.c\<close>: the control loop of one client service. The local variables that
  live across iterations of \<open>serve\<close> are the record \<open>server\<close>; \<open>previous\<close> holds the first
  \<open>previous_size\<close> bytes of the C array. The reply structure is a list of 80 bytes, and a field
  assignment is a \<open>splice\<close> at the offset of the field. Loops that may not end (the retries of
  interrupted calls and the service loop itself) take fuel; \<open>None\<close> means "still running".
\<close>

section \<open>Operations\<close>

record server =
  sv_session :: hyper_io_session
  sv_last :: u64
  sv_previous :: bytes
  sv_previous_size :: nat
  sv_previous_reply :: bytes

definition initial_server :: server where
  "initial_server = \<lparr>sv_session = initial_session, sv_last = 0, sv_previous = [], sv_previous_size = 0,
     sv_previous_reply = replicate 80 0\<rparr>"

definition idle :: "backend \<Rightarrow> bool" where
  "idle b \<longleftrightarrow> memory b = MAP_FAILED \<and> memory_fd b < 0 \<and> token b = 0 \<and> ep_fd (disk b) < 0 \<and>
     \<not> ep_bound (disk b) \<and> ep_fd (net b) < 0 \<and> \<not> ep_bound (net b) \<and> tap b < 0"

text \<open>The two \<open>HELLO\<close> operations.\<close>

definition hello_reply :: "env \<Rightarrow> bool \<Rightarrow> bytes \<Rightarrow> nat \<Rightarrow> (backend, dispatched) state" where
  "hello_reply env net_hello response reply_size = do {
     b \<leftarrow> State_Monad.get;
     if (net_hello \<and> \<not> network b) \<or> (\<not> net_hello \<and> target b = [])
     then State_Monad.return (HYPER_IO_UNSUPPORTED, response, reply_size)
     else do {
       ready \<leftarrow> (if net_hello then State_Monad.return True else block_target_ready env);
       if \<not> ready then State_Monad.return (HYPER_IO_BUSY, response, reply_size)
       else do {
         let response = splice 48 (htole64 (if net_hello then NETWORK_FEATURES else VERSION_1)) response;
         let response = splice 56 (htole32 (if net_hello then of_nat HYPER_IO_NETWORK_QUEUES
                                            else request_queues (scsi b) + 2)) response;
         let response = splice 60 (htole32 128) response;
         State_Monad.return (if net_hello
           then (HYPER_IO_OK, splice 70 (htole16 1500) (splice 64 (mac b) response), 80)
           else (HYPER_IO_OK, response, 64)) } } }"

text \<open>\<open>RESET\<close> and \<open>STOP_QUEUE\<close> of either device.\<close>

definition reset_device :: "env \<Rightarrow> u16 \<Rightarrow> bytes \<Rightarrow> (backend, u32) state" where
  "reset_device env operation message = do {
     b \<leftarrow> State_Monad.get;
     let net_reset = (operation \<ge> HYPER_IO_NETWORK_RESET);
     let queue_stop = (operation = HYPER_IO_STOP_QUEUE \<or> operation = HYPER_IO_NETWORK_STOP_QUEUE);
     if length message \<noteq> (if queue_stop then 48 else 40) then State_Monad.return HYPER_IO_INVALID
     else if (net_reset \<and> \<not> network b) \<or> (\<not> net_reset \<and> target b = [])
     then State_Monad.return HYPER_IO_UNSUPPORTED
     else if queue_stop \<and> (le32toh (slice 44 4 message) \<noteq> 0 \<or>
            unat (le32toh (slice 40 4 message)) \<ge> (if net_reset then HYPER_IO_NETWORK_QUEUES else HYPER_IO_QUEUES))
     then State_Monad.return HYPER_IO_INVALID
     else do {
       r \<leftarrow> (if net_reset then quiesce_network env else quiesce_disk env);
       State_Monad.return (if r \<noteq> 0 then HYPER_IO_QUIESCENCE_FAILED else HYPER_IO_OK) } }"

definition with_status :: "(backend, u32) state \<Rightarrow> bytes \<Rightarrow> nat \<Rightarrow> (backend, dispatched option) state" where
  "with_status m response reply_size = do {
     status \<leftarrow> m;
     State_Monad.return (Some (status, response, reply_size)) }"

text \<open>The \<open>switch\<close> of \<open>dispatch\<close>, behind the session check.\<close>

definition dispatch_operation ::
    "env \<Rightarrow> nat \<Rightarrow> u16 \<Rightarrow> bytes \<Rightarrow> bytes \<Rightarrow> nat \<Rightarrow> (backend, dispatched option) state" where
  "dispatch_operation env fuel operation message response reply_size = do {
     b \<leftarrow> State_Monad.get;
     let n = length message;
     let invalid = State_Monad.return (Some (HYPER_IO_INVALID, response, reply_size));
     if HYPER_IO_BLOCK_HELLO \<le> operation \<and> operation \<le> HYPER_IO_BLOCK_BIND
     then block_dispatch env fuel message response reply_size
     else if operation = HYPER_IO_HELLO \<or> operation = HYPER_IO_NETWORK_HELLO
     then (if n \<noteq> 40 then invalid
           else do {
             d \<leftarrow> hello_reply env (operation = HYPER_IO_NETWORK_HELLO) response reply_size;
             State_Monad.return (Some d) })
     else if operation = HYPER_IO_PREPARE_MEMORY
     then (if n = 72 \<and> managed b
           then with_status (prepare_memory env (prepare_memory_of message)) response reply_size else invalid)
     else if operation = HYPER_IO_ACTIVATE
     then (if n = 240
           then with_status (activate_disk env (activate_of HYPER_IO_QUEUES message)) response reply_size
           else invalid)
     else if operation = HYPER_IO_NETWORK_ACTIVATE
     then (if n = 112
           then with_status (activate_network env (activate_of HYPER_IO_NETWORK_QUEUES message)) response reply_size
           else invalid)
     else if operation = HYPER_IO_RESET \<or> operation = HYPER_IO_STOP_QUEUE \<or>
             operation = HYPER_IO_NETWORK_RESET \<or> operation = HYPER_IO_NETWORK_STOP_QUEUE
     then with_status (reset_device env operation message) response reply_size
     else State_Monad.return (Some (HYPER_IO_UNSUPPORTED, response, reply_size)) }"

definition dispatch ::
    "env \<Rightarrow> nat \<Rightarrow> hyper_io_session \<Rightarrow> bytes \<Rightarrow> bytes \<Rightarrow> nat \<Rightarrow>
     (backend, (hyper_io_session \<times> dispatched) option) state" where
  "dispatch env fuel session message response reply_size = do {
     b \<leftarrow> State_Monad.get;
     let operation = h_operation (header_of response);
     if operation = HYPER_IO_RELEASE_MEMORY \<and> length message = 40 \<and> managed b then do {
       status \<leftarrow> release_memory env;
       State_Monad.return (Some
         (if status = HYPER_IO_OK then hyper_io_session_retire session else session,
          status, response, reply_size)) }
     else if \<not> hyper_io_session_preparable session
     then State_Monad.return (Some (session, HYPER_IO_INVALID, response, reply_size))
     else do {
       r \<leftarrow> dispatch_operation env fuel operation message response reply_size;
       State_Monad.return (map_option (\<lambda>d. (session, d)) r) } }"

definition request_ok :: "bytes \<Rightarrow> bool" where
  "request_ok message =
     (let h = header_of message
      in \<not> (h_magic h \<noteq> HYPER_IO_MAGIC \<or> h_version h \<noteq> HYPER_IO_VERSION \<or>
            h_length h \<noteq> of_nat (length message) \<or> h_flags h \<noteq> 0 \<or> h_binding h = 0 \<or>
            h_transaction h = 0 \<or> h_epoch h = 0 \<or> h_epoch h > 4294967295))"

definition primary :: "backend \<Rightarrow> u32" where
  "primary b = (if blocks b \<noteq> None \<or> target b \<noteq> [] then 0 else 1)"

definition request_device :: "backend \<Rightarrow> u16 \<Rightarrow> u32" where
  "request_device b operation =
     (if operation = HYPER_IO_PREPARE_MEMORY \<or> operation = HYPER_IO_RELEASE_MEMORY then primary b
      else if HYPER_IO_NETWORK_HELLO \<le> operation \<and> operation \<le> HYPER_IO_NETWORK_STOP_QUEUE then 1 else 0)"

definition hello_operation :: "backend \<Rightarrow> u16" where
  "hello_operation b =
     (if blocks b \<noteq> None then HYPER_IO_BLOCK_HELLO
      else if primary b \<noteq> 0 then HYPER_IO_NETWORK_HELLO else HYPER_IO_HELLO)"

text \<open>\<open>memset\<close> of the reply and assignment of the request's header; then the final reply fields.\<close>

definition blank_reply :: "bytes \<Rightarrow> bytes" where
  "blank_reply message = take 40 message @ replicate 40 0"

definition finish_reply :: "u32 \<Rightarrow> nat \<Rightarrow> bytes \<Rightarrow> bytes" where
  "finish_reply status reply_size response =
     splice 40 (htole32 status) (splice 12 (htole32 HYPER_IO_REPLY) (splice 8 (htole32 (of_nat reply_size)) response))"

definition admit_request :: "backend \<Rightarrow> server \<Rightarrow> bytes \<Rightarrow> int \<times> server" where
  "admit_request b sv message =
     (let h = header_of message; operation = h_operation h;
          (admission, session) = hyper_io_session_admit (sv_session sv) (h_binding h) (h_epoch h)
            (operation = hello_operation b \<and> length message = 40)
            (if managed b then idle b else binding (sv_session sv) = 0) (request_device b operation);
          sv = sv\<lparr>sv_session := session\<rparr>
      in (admission, if admission > 0 then sv\<lparr>sv_last := 0, sv_previous_size := 0\<rparr> else sv))"

definition is_replay :: "int \<Rightarrow> server \<Rightarrow> bytes \<Rightarrow> bool" where
  "is_replay admission sv message \<longleftrightarrow> 0 \<le> admission \<and> h_transaction (header_of message) = sv_last sv \<and>
     length message = sv_previous_size sv \<and>
     take (sv_previous_size sv) (sv_previous sv) = take (sv_previous_size sv) message"

text \<open>The body of the service loop between the header check and the write of the reply.\<close>

definition handle_request :: "env \<Rightarrow> nat \<Rightarrow> server \<Rightarrow> bytes \<Rightarrow> (backend, (server \<times> bytes) option) state" where
  "handle_request env fuel sv0 message = do {
     diagnostic;
     b \<leftarrow> State_Monad.get;
     let h = header_of message;
     let device = request_device b (h_operation h);
     let (admission, sv) = admit_request b sv0 message;
     if is_replay admission sv message
     then do { diagnostic; State_Monad.return (Some (sv, sv_previous_reply sv)) }
     else if 0 \<le> admission \<and> h_transaction h > sv_last sv then do {
       r \<leftarrow> dispatch env fuel (sv_session sv) message (blank_reply message) 48;
       (case r of
          None \<Rightarrow> State_Monad.return None
        | Some (session, status, response, reply_size) \<Rightarrow> do {
            let reply = finish_reply status reply_size response;
            diagnostic;
            State_Monad.return (Some
              (sv\<lparr>sv_session := session\<lparr>epoch := (epoch session)[unat device := h_epoch h]\<rparr>,
                 sv_last := h_transaction h, sv_previous_size := length message, sv_previous := message,
                 sv_previous_reply := reply\<rparr>, reply)) }) }
     else do {
       diagnostic;
       State_Monad.return (Some (sv, finish_reply HYPER_IO_INVALID 48 (blank_reply message))) } }"

text \<open>The two retry loops of \<open>serve\<close>; a termination signal ends them.\<close>

primrec read_control :: "env \<Rightarrow> nat \<Rightarrow> int \<Rightarrow> (backend, answer option) state" where
  "read_control env 0 control = State_Monad.return None"
| "read_control env (Suc fuel) control = do {
     a \<leftarrow> call env (Read control HYPER_IO_RECORD);
     b \<leftarrow> State_Monad.get;
     if ret a < 0 \<and> err a = EINTR \<and> \<not> stopping b then read_control env fuel control
     else State_Monad.return (Some a) }"

primrec write_control :: "env \<Rightarrow> nat \<Rightarrow> int \<Rightarrow> bytes \<Rightarrow> (backend, answer option) state" where
  "write_control env 0 control reply = State_Monad.return None"
| "write_control env (Suc fuel) control reply = do {
     a \<leftarrow> call env (Write control reply);
     b \<leftarrow> State_Monad.get;
     if ret a < 0 \<and> err a = EINTR \<and> \<not> stopping b then write_control env fuel control reply
     else State_Monad.return (Some a) }"

text \<open>The bytes of the record buffer that a successful read of \<open>n\<close> bytes defines.\<close>

definition received :: "answer \<Rightarrow> bytes" where
  "received a = map (\<lambda>i. if i < length (data a) then data a ! i else 0) [0..<nat (ret a)]"

definition reply_length :: "bytes \<Rightarrow> nat" where
  "reply_length reply = unat (le32toh (slice 8 4 reply))"

text \<open>One iteration: \<open>Inl\<close> goes on with the new server state, \<open>Inr\<close> returns from \<open>serve\<close>.\<close>

definition serve_step :: "env \<Rightarrow> nat \<Rightarrow> int \<Rightarrow> server \<Rightarrow> (backend, (server + int) option) state" where
  "serve_step env fuel control sv = do {
     a \<leftarrow> read_control env fuel control;
     (case a of
        None \<Rightarrow> State_Monad.return None
      | Some a \<Rightarrow> do {
          b \<leftarrow> State_Monad.get;
          if stopping b \<or> (ret a < 0 \<and> err a = EPIPE) then State_Monad.return (Some (Inr 0))
          else if ret a < 40 then State_Monad.return (Some (Inr (- 1)))
          else if \<not> request_ok (received a) then State_Monad.return (Some (Inr (- 1)))
          else do {
            r \<leftarrow> handle_request env fuel sv (received a);
            (case r of
               None \<Rightarrow> State_Monad.return None
             | Some (sv, reply) \<Rightarrow> do {
                 w \<leftarrow> write_control env fuel control (take (reply_length reply) reply);
                 (case w of
                    None \<Rightarrow> State_Monad.return None
                  | Some w \<Rightarrow> do {
                      b \<leftarrow> State_Monad.get;
                      State_Monad.return (Some
                        (if stopping b \<or> (ret w < 0 \<and> err w = EPIPE) then Inr 0
                         else if ret w \<noteq> int (reply_length reply) then Inr (- 1)
                         else Inl sv)) }) }) } }) }"

primrec serve :: "env \<Rightarrow> nat \<Rightarrow> int \<Rightarrow> server \<Rightarrow> (backend, int option) state" where
  "serve env 0 control sv = State_Monad.return None"
| "serve env (Suc fuel) control sv = do {
     b \<leftarrow> State_Monad.get;
     if stopping b then State_Monad.return (Some 0)
     else do {
       r \<leftarrow> serve_step env fuel control sv;
       (case r of
          None \<Rightarrow> State_Monad.return None
        | Some (Inr v) \<Rightarrow> State_Monad.return (Some v)
        | Some (Inl sv) \<Rightarrow> serve env fuel control sv) } }"

definition probe_backend :: "env \<Rightarrow> string \<Rightarrow> u64 \<Rightarrow> (backend, int) state" where
  "probe_backend env path required = do {
     f \<leftarrow> call env (Open path [O_RDWR, O_CLOEXEC]);
     if ret f < 0 then State_Monad.return (- 1)
     else do {
       a \<leftarrow> call env (Ioctl (ret f) VHOST_GET_FEATURES);
       call env (Close (ret f));
       State_Monad.return (if ret a \<noteq> 0 \<or> out a 0 AND required \<noteq> required then - 1 else 0) } }"


section \<open>Start-up\<close>

text \<open>
  \<open>main\<close> as a sequence of steps, each of which may end the process with an exit code
  (\<open>Some code\<close>). \<open>vhost_wwpn\<close> is an array of 224 bytes. Descriptors left open by an early exit
  are closed by the end of the process.
\<close>

abbreviation (input) WWPN_SIZE :: nat where "WWPN_SIZE \<equiv> 224"

definition initial_backend :: backend where
  "initial_backend = \<lparr>events = [], stopping = False, disk = endpoint_init closed_endpoint,
     net = endpoint_init closed_endpoint, memory_fd = - 1, tap = - 1, memory = MAP_FAILED,
     region = no_region, target = [], managed = False, network = False, memory_path = [],
     bridge = [], mac = replicate 6 0, token = 0, diagnostics = 0,
     scsi = \<lparr>request_queues = HYPER_SCSI_REQUEST_QUEUES, sg_prealloc = HYPER_SCSI_SG_PREALLOC\<rparr>,
     net_resources = default_net_resources, blocks = None\<rparr>"

definition scsi_arguments :: "string list \<Rightarrow> hyper_scsi_resources option" where
  "scsi_arguments argv =
     (if length argv < 10
      then Some \<lparr>request_queues = HYPER_SCSI_REQUEST_QUEUES, sg_prealloc = HYPER_SCSI_SG_PREALLOC\<rparr>
      else let (queues, end_q) = strtoul (argv ! 8); (sg, end_s) = strtoul (argv ! 9)
           in if argv ! 8 = [] \<or> end_q \<noteq> [] \<or> queues > ucast HYPER_SCSI_REQUEST_QUEUES then None
              else if argv ! 9 = [] \<or> end_s \<noteq> [] \<or> sg > 2048 \<or>
                \<not> hyper_scsi_resources_valid (ucast queues) (ucast sg) then None
              else Some \<lparr>request_queues = ucast queues, sg_prealloc = ucast sg\<rparr>)"

definition net_arguments :: "string list \<Rightarrow> hyper_network_resources option" where
  "net_arguments argv =
     (if length argv = 12 then hyper_network_resources_parse (argv ! 10) (argv ! 11)
      else Some default_net_resources)"

definition parse_arguments :: "string list \<Rightarrow> (backend, int option) state" where
  "parse_arguments argv =
     (if (length argv \<noteq> 3 \<and> length argv \<noteq> 8 \<and> length argv \<noteq> 10 \<and> length argv \<noteq> 12) \<or>
         length (argv ! 2) \<ge> WWPN_SIZE
      then State_Monad.return (Some 2)
      else case scsi_arguments argv of
        None \<Rightarrow> State_Monad.return (Some 2)
      | Some sc \<Rightarrow> (case net_arguments argv of
          None \<Rightarrow> State_Monad.return (Some 2)
        | Some nr \<Rightarrow> do {
            State_Monad.update (\<lambda>b. b\<lparr>managed := length argv \<ge> 8, scsi := sc, net_resources := nr,
              memory_path := argv ! 1\<rparr>);
            State_Monad.return None }))"

definition install_handlers :: "env \<Rightarrow> (backend, int option) state" where
  "install_handlers env = do {
     t \<leftarrow> call env Sigaction;
     if ret t \<noteq> 0 then State_Monad.return (Some 1)
     else do { i \<leftarrow> call env Sigaction; State_Monad.return (if ret i \<noteq> 0 then Some 1 else None) } }"

definition is_owner :: "string list \<Rightarrow> bool" where
  "is_owner argv \<longleftrightarrow> length argv \<ge> 8 \<and> argv ! 2 = ''owner''"

definition create_owner :: "env \<Rightarrow> string list \<Rightarrow> (backend, int option) state" where
  "create_owner env argv =
     (if is_owner argv then do {
        r \<leftarrow> block_owner_create env ''/etc/hyper-clients.conf'';
        State_Monad.return (if r \<noteq> 0 then Some 1
          else if argv ! 3 \<noteq> ''/dev/hyper-io-control-0'' \<or> argv ! 5 \<noteq> ''-'' then Some 2 else None) }
      else do {
        (if argv ! 2 \<noteq> ''-'' then State_Monad.update (\<lambda>b. b\<lparr>target := argv ! 2\<rparr>) else State_Monad.return ());
        State_Monad.return None })"

definition setup_network :: "env \<Rightarrow> string list \<Rightarrow> (backend, int option) state" where
  "setup_network env argv = do {
     b \<leftarrow> State_Monad.get;
     if is_owner argv \<or> \<not> managed b \<or> argv ! 5 = ''-'' then State_Monad.return None
     else (case hyper_mac_parse (argv ! 6) of
         None \<Rightarrow> State_Monad.return (Some 1)
       | Some m \<Rightarrow> do {
           br \<leftarrow> network_bridge env ''/etc/hyper-networks.conf'' (argv ! 5);
           (case br of
              None \<Rightarrow> State_Monad.return (Some 1)
            | Some br \<Rightarrow> do {
                State_Monad.update (\<lambda>b. b\<lparr>mac := m, bridge := br\<rparr>);
                f \<leftarrow> call env (Open (argv ! 7) [O_RDWR, O_CLOEXEC]);
                modify_endpoint Net (\<lambda>e. e\<lparr>ep_notification := ret f\<rparr>);
                if ret f < 0 then State_Monad.return (Some 1)
                else do {
                  v \<leftarrow> probe_backend env ''/dev/vhost-net'' VERSION_1;
                  if v \<noteq> 0 then State_Monad.return (Some 1)
                  else do {
                    p \<leftarrow> probe_network env;
                    if p \<noteq> 0 then State_Monad.return (Some 1)
                    else do {
                      State_Monad.update (\<lambda>b. b\<lparr>network := True\<rparr>);
                      State_Monad.return None } } } }) }) }"

definition map_standalone :: "env \<Rightarrow> string list \<Rightarrow> (backend, int option) state" where
  "map_standalone env argv = do {
     b \<leftarrow> State_Monad.get;
     if argv ! 1 = ''--standby'' \<or> managed b then State_Monad.return None
     else do {
       f \<leftarrow> call env (Open (argv ! 1) [O_RDWR, O_CLOEXEC]);
       State_Monad.update (\<lambda>b. b\<lparr>memory_fd := ret f\<rparr>);
       if ret f < 0 then State_Monad.return (Some 1)
       else do {
         i \<leftarrow> call env (Ioctl (ret f) HYPER_MEMORY_INFO);
         State_Monad.update (\<lambda>b. b\<lparr>region := \<lparr>mi_guest_base = out i 0, mi_length = out i 1\<rparr>\<rparr>);
         if ret i \<noteq> 0 \<or> out i 1 = 0 then State_Monad.return (Some 1)
         else do {
           m \<leftarrow> call env (Mmap (out i 1) (ret f));
           State_Monad.update (\<lambda>b. b\<lparr>memory := word_of_int (ret m)\<rparr>);
           State_Monad.return (if word_of_int (ret m) = MAP_FAILED then Some 1 else None) } } } }"

definition open_notification :: "env \<Rightarrow> string list \<Rightarrow> (backend, int option) state" where
  "open_notification env argv = do {
     b \<leftarrow> State_Monad.get;
     if (argv ! 1 \<noteq> ''--standby'' \<or> managed b) \<and> target b \<noteq> [] then do {
       f \<leftarrow> call env (Open (if managed b then argv ! 4 else ''/dev/hyper-io-notification'') [O_RDWR, O_CLOEXEC]);
       modify_endpoint Disk (\<lambda>e. e\<lparr>ep_notification := ret f\<rparr>);
       State_Monad.return (if ret f < 0 then Some 1 else None) }
     else State_Monad.return None }"

definition main_setup :: "env \<Rightarrow> string list \<Rightarrow> (backend, int option) state" where
  "main_setup env argv = for_return (\<lambda>step. step)
     [parse_arguments argv, install_handlers env, create_owner env argv, setup_network env argv,
      map_standalone env argv, open_notification env argv]"

text \<open>The opening of the control file: its descriptor, or the exit code.\<close>

definition open_control :: "env \<Rightarrow> string list \<Rightarrow> (backend, int + int) state" where
  "open_control env argv = do {
     b \<leftarrow> State_Monad.get;
     f \<leftarrow> call env (Open (if managed b then argv ! 3 else ''/dev/hyper-io-control'') [O_RDWR, O_CLOEXEC]);
     if ret f < 0 then State_Monad.return (Inl 1)
     else do {
       p \<leftarrow> (if target b \<noteq> [] then probe_backend env ''/dev/vhost-scsi'' VERSION_1 else State_Monad.return 0);
       State_Monad.return (if p \<noteq> 0 then Inl 1 else Inr (ret f)) } }"

text \<open>The end of \<open>main\<close>: a failed release leaves the process waiting forever (\<open>None\<close>).\<close>

definition shut_down :: "env \<Rightarrow> int \<Rightarrow> int \<Rightarrow> (backend, int option) state" where
  "shut_down env control result = do {
     r \<leftarrow> release_memory env;
     if r \<noteq> HYPER_IO_OK then do { call env Pause; State_Monad.return None }
     else do {
       call env (Close control);
       b \<leftarrow> State_Monad.get;
       (if 0 \<le> ep_notification (disk b) then do { call env (Close (ep_notification (disk b))); State_Monad.return () }
        else State_Monad.return ());
       (if 0 \<le> ep_notification (net b) then do { call env (Close (ep_notification (net b))); State_Monad.return () }
        else State_Monad.return ());
       block_owner_destroy env;
       State_Monad.return (Some (if result \<noteq> 0 then 1 else 0)) } }"

definition service_main :: "env \<Rightarrow> nat \<Rightarrow> string list \<Rightarrow> (backend, int option) state" where
  "service_main env fuel argv = do {
     s \<leftarrow> main_setup env argv;
     (case s of
        Some status \<Rightarrow> State_Monad.return (Some status)
      | None \<Rightarrow> do {
          c \<leftarrow> open_control env argv;
          (case c of
             Inl status \<Rightarrow> State_Monad.return (Some status)
           | Inr control \<Rightarrow> do {
               r \<leftarrow> serve env fuel control initial_server;
               (case r of
                  None \<Rightarrow> State_Monad.return None
                | Some v \<Rightarrow> shut_down env control v) }) }) }"

section \<open>The invariant of the service\<close>

definition client_inv :: "backend \<Rightarrow> bool" where
  "client_inv b \<longleftrightarrow> backend_inv b \<and> (\<forall>q. blocks b = Some q \<longrightarrow> owner_inv q) \<and> length (mac b) = 6"

text \<open>What the operations on memory and devices keep.\<close>

definition op_kept :: "backend \<Rightarrow> backend \<Rightarrow> bool" where
  "op_kept b t \<longleftrightarrow> backend_inv t \<and> config t = config b \<and> blocks t = blocks b"

lemma op_kept_inv: "client_inv b \<Longrightarrow> op_kept b t \<Longrightarrow> client_inv t"
  by (auto simp: client_inv_def op_kept_def config_def)

lemma op_kept_untouched: "backend_inv t \<Longrightarrow> untouched d b t \<Longrightarrow> op_kept b t"
  by (simp add: op_kept_def untouched_def)

lemma op_kept_quietly: "backend_inv b \<Longrightarrow> quietly b t \<Longrightarrow> op_kept b t"
  using quietly_inv [of b t] by (simp add: op_kept_def) (simp add: quietly_def)

lemma client_inv_diagnosed [simp]: "client_inv (diagnosed b) \<longleftrightarrow> client_inv b"
  by (simp add: client_inv_def)

lemma client_inv_called [simp]: "quiet c \<Longrightarrow> client_inv (called env c b) \<longleftrightarrow> client_inv b"
  by (simp add: client_inv_def)

text \<open>The contract of an operation that answers a request with a status.\<close>

locale status_operation =
  fixes operate :: "env \<Rightarrow> 'm \<Rightarrow> (backend, u32) state"
  assumes operate_kept: "backend_inv b \<Longrightarrow> wp (operate env m) (\<lambda>_. op_kept b) b"
begin

lemma with_status_kept:
  assumes "backend_inv b"
  shows "wp (with_status (operate env m) response n) (\<lambda>r t. op_kept b t \<and> (\<exists>s. r = Some (s, response, n))) b"
  unfolding with_status_def wp_rules
  by (rule wp_mono [OF operate_kept [OF assms]]) simp

end

interpretation prepare_op: status_operation prepare_memory
proof
  fix b env m assume "backend_inv b"
  from prepare_memory_spec [OF this] show "wp (prepare_memory env m) (\<lambda>_. op_kept b) b"
    by (rule wp_mono) (simp add: prepare_post_def op_kept_def)
qed

interpretation activate_disk_op: status_operation activate_disk
proof
  fix b env m assume "backend_inv b"
  from disk_activation.activate_spec [OF this] show "wp (activate_disk env m) (\<lambda>_. op_kept b) b"
    by (rule wp_mono) (auto simp: activate_post_def intro: op_kept_untouched)
qed

interpretation activate_network_op: status_operation activate_network
proof
  fix b env m assume "backend_inv b"
  from net_activation.activate_spec [OF this] show "wp (activate_network env m) (\<lambda>_. op_kept b) b"
    by (rule wp_mono) (auto simp: activate_post_def intro: op_kept_untouched)
qed

lemma wp_quiesce:
  assumes "backend_inv b" and "\<And>r t. op_kept b t \<Longrightarrow> Q r t"
  shows "wp (quiesce_disk env) Q b" and "wp (quiesce_network env) Q b"
  using wp_mono [OF disk_drain.quiesce_spec [OF assms(1)], of Q] wp_mono [OF net_drain.quiesce_spec [OF assms(1)], of Q]
    assms(2) op_kept_untouched by blast+

interpretation reset_op: status_operation "\<lambda>env (operation, message). reset_device env operation message"
proof
  fix b env and m :: "u16 \<times> bytes" assume inv: "backend_inv b"
  then have "op_kept b b" by (simp add: op_kept_def)
  then show "wp (case m of (operation, message) \<Rightarrow> reset_device env operation message) (\<lambda>_. op_kept b) b"
    unfolding reset_device_def Let_def
    by (auto simp: wp_rules inv split: prod.split intro!: wp_quiesce)
qed

section \<open>Dispatch\<close>

lemma hello_reply_spec:
  assumes "backend_inv b" and "length response = 80" and "length (mac b) = 6"
  shows "wp (hello_reply env net_hello response n) (\<lambda>r t. op_kept b t \<and> reply_kept response n r) b"
proof -
  have ready: "wp (block_target_ready env) Q b" if "\<And>r t. op_kept b t \<Longrightarrow> Q r t" for Q
    unfolding block_target_ready_def
    using that op_kept_quietly [OF assms(1)] by (auto simp: wp_rules)
  have "op_kept b b" using assms(1) by (simp add: op_kept_def)
  then show ?thesis
    unfolding hello_reply_def Let_def using assms(2,3)
    by (auto simp: wp_rules reply_kept_def take_splice intro!: ready)
qed

text \<open>The configuration of a client and its being a block owner never change.\<close>

definition same_client :: "backend \<Rightarrow> backend \<Rightarrow> bool" where
  "same_client b t \<longleftrightarrow> config t = config b \<and> (blocks t = None \<longleftrightarrow> blocks b = None)"

lemma same_client_refl [simp]: "same_client b b"
  by (simp add: same_client_def)

lemma same_client_trans: "same_client b t \<Longrightarrow> same_client t u \<Longrightarrow> same_client b u"
  by (simp add: same_client_def)

lemma same_client_diagnosed [simp]:
  "same_client b (diagnosed t) \<longleftrightarrow> same_client b t" "same_client (diagnosed b) t \<longleftrightarrow> same_client b t"
  by (simp_all add: same_client_def config_def)

definition dispatch_post :: "backend \<Rightarrow> bytes \<Rightarrow> nat \<Rightarrow> dispatched option \<Rightarrow> backend \<Rightarrow> bool" where
  "dispatch_post b response n r t \<longleftrightarrow> client_inv t \<and> same_client b t \<and>
     (\<forall>d. r = Some d \<longrightarrow> reply_kept response n d)"

lemma dispatch_post_kept:
  "client_inv b \<Longrightarrow> op_kept b t \<Longrightarrow> (\<And>d. r = Some d \<Longrightarrow> reply_kept response n d) \<Longrightarrow> dispatch_post b response n r t"
  using op_kept_inv [of b t] by (auto simp: dispatch_post_def op_kept_def same_client_def)

lemma dispatch_operation_spec:
  assumes "client_inv b" and "length response = 80"
  shows "wp (dispatch_operation env fuel operation message response n) (dispatch_post b response n) b"
proof -
  have inv: "backend_inv b" "length (mac b) = 6" using assms(1) by (simp_all add: client_inv_def)
  have kept: "reply_kept response n (s, response, n)" for s by (simp add: reply_kept_def)
  have none: "dispatch_post b response n (Some (s, response, n)) b" for s
    using assms(1) kept by (simp add: dispatch_post_def)
  have status: "wp m (dispatch_post b response n) b"
    if "wp m (\<lambda>r t. op_kept b t \<and> (\<exists>s. r = Some (s, response, n))) b" for m
    using that by (rule wp_mono) (use dispatch_post_kept [OF assms(1)] kept in blast)
  have hello: "wp (hello_reply env net_hello response n) (\<lambda>d. dispatch_post b response n (Some d)) b" for net_hello
    by (rule wp_mono [OF hello_reply_spec [OF inv(1) assms(2) inv(2)]])
       (auto intro: dispatch_post_kept [OF assms(1)])
  have block: "wp (block_dispatch env fuel message response n) (dispatch_post b response n) b"
  proof (rule wp_mono [OF block_dispatch_spec [OF _ assms(2)]])
    fix q assume "blocks b = Some q"
    then show "owner_inv q" using assms(1) by (simp add: client_inv_def)
  next
    fix r t assume "(if blocks b = None then t = b else owned b t) \<and> (\<forall>d. r = Some d \<longrightarrow> reply_kept response n d)"
    then show "dispatch_post b response n r t"
      using assms(1) owned_inv [of b t] owned_shared [of b t]
      by (auto simp: dispatch_post_def client_inv_def owned_def owner_of_def config_def same_client_def split: if_splits)
  qed
  note ops = prepare_op.with_status_kept [OF inv(1)] activate_disk_op.with_status_kept [OF inv(1)]
    activate_network_op.with_status_kept [OF inv(1)] reset_op.with_status_kept [OF inv(1), of _ "(_, _)", simplified]
  show ?thesis
    unfolding dispatch_operation_def Let_def
    by (auto simp: wp_rules none hello block intro!: status ops)
qed


text \<open>A request to a retired session is answered without touching the backend.\<close>

definition dispatched_session :: "hyper_io_session \<Rightarrow> hyper_io_session \<Rightarrow> backend \<Rightarrow> bool" where
  "dispatched_session s s' t \<longleftrightarrow> s' = s \<or> (s' = hyper_io_session_retire s \<and> released t)"

lemma dispatch_spec:
  assumes "client_inv b" and "length response = 80"
  shows "wp (dispatch env fuel session message response n) (\<lambda>r t. client_inv t \<and> same_client b t \<and>
    (\<forall>session' d. r = Some (session', d) \<longrightarrow> reply_kept response n d \<and> dispatched_session session session' t)) b"
proof -
  have inv: "backend_inv b" using assms(1) by (simp add: client_inv_def)
  have release: "wp (release_memory env) Q b"
    if "\<And>r t. client_inv t \<Longrightarrow> same_client b t \<Longrightarrow> (r = HYPER_IO_OK \<Longrightarrow> released t) \<Longrightarrow> Q r t" for Q
    by (rule wp_mono [OF release_memory_spec [OF inv]])
       (use assms(1) in \<open>auto simp: release_post_def client_inv_def config_def same_client_def intro!: that\<close>)
  have operation: "wp (dispatch_operation env fuel op message response n) Q b"
    if "\<And>r t. dispatch_post b response n r t \<Longrightarrow> Q r t" for op Q
    by (rule wp_mono [OF dispatch_operation_spec [OF assms]]) (rule that)
  show ?thesis
    unfolding dispatch_def Let_def using assms
    by (auto simp: wp_rules reply_kept_def dispatched_session_def dispatch_post_def intro!: release operation)
qed

section \<open>Handling a request\<close>

text \<open>
  The reply repeats the request's header with the reply flag and the length of the reply.
\<close>

definition reply_ok :: "bytes \<Rightarrow> bytes \<Rightarrow> bool" where
  "reply_ok message reply \<longleftrightarrow> length reply = 80 \<and> reply_length reply \<in> {48, 64, 80} \<and>
     header_of reply = header_of message\<lparr>h_length := of_nat (reply_length reply), h_flags := HYPER_IO_REPLY\<rparr>"

text \<open>A stored request comes with the reply that was sent for it.\<close>

definition server_ok :: "server \<Rightarrow> bool" where
  "server_ok sv \<longleftrightarrow> session_wf (sv_session sv) \<and> (sv_previous_size sv \<noteq> 0 \<longrightarrow>
     sv_previous_size sv = length (sv_previous sv) \<and> reply_ok (sv_previous sv) (sv_previous_reply sv))"

text \<open>The server state advances: a later binding, or the same with a transaction no earlier.\<close>

definition server_advances :: "server \<Rightarrow> server \<Rightarrow> bool" where
  "server_advances sv sv' \<longleftrightarrow> session_advances (sv_session sv) (sv_session sv') \<and>
     (binding (sv_session sv') = binding (sv_session sv) \<longrightarrow> sv_last sv \<le> sv_last sv')"

lemma blank_reply_length [simp]: "40 \<le> length message \<Longrightarrow> length (blank_reply message) = 80"
  by (simp add: blank_reply_def)

lemma finish_reply_length [simp]: "48 \<le> length response \<Longrightarrow> length (finish_reply s n response) = length response"
  by (simp add: finish_reply_def)

lemma admit_request_cases:
  assumes "admit_request b sv message = (admission, sv')" and "server_ok sv"
  shows "server_ok sv' \<and> sv_previous_reply sv' = sv_previous_reply sv \<and>
    session_advances (sv_session sv) (sv_session sv') \<and>
    (0 \<le> admission \<longrightarrow> binding (sv_session sv') = h_binding (header_of message)) \<and>
    (admission \<le> 0 \<longrightarrow> sv' = sv) \<and>
    (0 < admission \<longrightarrow> binding (sv_session sv) < binding (sv_session sv') \<and> sv_last sv' = 0 \<and>
       sv_previous_size sv' = 0 \<and> \<not> retired (sv_session sv') \<and> (managed b \<longrightarrow> idle b)) \<and>
    (0 \<le> admission \<longrightarrow> epoch (sv_session sv') ! unat (request_device b (h_operation (header_of message))) \<le>
       h_epoch (header_of message))"
proof -
  let ?h = "header_of message"
  obtain session where s: "hyper_io_session_admit (sv_session sv) (h_binding ?h) (h_epoch ?h)
      (h_operation ?h = hello_operation b \<and> length message = 40)
      (if managed b then idle b else binding (sv_session sv) = 0)
      (request_device b (h_operation ?h)) = (admission, session)"
    and sv': "sv' = (if admission > 0 then sv\<lparr>sv_session := session, sv_last := 0, sv_previous_size := 0\<rparr>
      else sv\<lparr>sv_session := session\<rparr>)"
    using assms(1) by (auto simp: admit_request_def Let_def split: prod.splits)
  have adv: "session_wf session" "session_advances (sv_session sv) session"
    using s assms(2) by (auto simp: server_ok_def intro: session_admit_wf session_admit_advances)
  from s show ?thesis
  proof (cases rule: session_admit_cases)
    case fresh
    have "epoch session ! unat (request_device b (h_operation ?h)) = h_epoch ?h"
      unfolding fresh(7) by (rule nth_list_update_eq) (use fresh(8) in simp)
    with fresh adv assms(2) sv' show ?thesis by (auto simp: server_ok_def split: if_splits)
  qed (use adv assms(2) sv' in \<open>auto simp: server_ok_def\<close>)
qed

lemma server_ok_update: "session_wf s \<Longrightarrow> reply_ok m r \<Longrightarrow>
    server_ok (sv\<lparr>sv_session := s, sv_last := l, sv_previous_size := length m, sv_previous := m, sv_previous_reply := r\<rparr>)"
  by (simp add: server_ok_def)

lemma dispatched_session_advances:
  assumes "dispatched_session s s' t" and "epoch s ! i \<le> e"
  shows "session_advances s (s'\<lparr>epoch := (epoch s')[i := e]\<rparr>)"
    and "session_wf s \<Longrightarrow> session_wf (s'\<lparr>epoch := (epoch s')[i := e]\<rparr>)"
    and "binding s' = binding s"
proof -
  have s': "s' = s \<or> s' = hyper_io_session_retire s" using assms(1) by (auto simp: dispatched_session_def)
  then have "session_advances s s'" and e: "epoch s' ! i \<le> e" and "binding s' = binding s"
    using assms(2) by (auto simp: hyper_io_session_retire_def session_advances_def list_all2_refl)
  then show "session_advances s (s'\<lparr>epoch := (epoch s')[i := e]\<rparr>)" "binding s' = binding s"
    using session_advances_trans session_set_epoch_advances [OF e] by blast+
  show "session_wf s \<Longrightarrow> session_wf (s'\<lparr>epoch := (epoch s')[i := e]\<rparr>)"
    using s' by (auto simp: session_wf_def hyper_io_session_retire_def)
qed

lemma header_finish:
  assumes "40 \<le> length message" and "length response = 80" and "take 40 response = take 40 message"
  shows "header_of (finish_reply status n response) =
    header_of message\<lparr>h_length := of_nat n, h_flags := HYPER_IO_REPLY\<rparr>"
proof -
  have hdr: "slice o' k m = slice o' k (take 40 m)" if "o' + k \<le> 40" for o' k and m :: bytes
    using that by (simp add: slice_def drop_take min_def)
  have same: "slice o' k response = slice o' k message" if "o' + k \<le> 40" for o' k
    using hdr [OF that, of response] hdr [OF that, of message] assms(3) by simp
  show ?thesis
    using assms(2) by (simp add: header_of_def finish_reply_def slice_splice_other same)
qed

lemma reply_ok_finish:
  assumes "40 \<le> length message" and "reply_kept (blank_reply message) 48 (status, response, n)"
  shows "reply_ok message (finish_reply status n response)"
proof -
  have r: "length response = 80" "take 48 response = take 48 (blank_reply message)" "n \<in> {48, 64, 80}"
    using assms by (auto simp: reply_kept_def)
  have "take 40 response = take 40 (take 48 response)" by (simp add: min_def)
  also have "\<dots> = take 40 message" using assms(1) by (simp add: r(2) blank_reply_def min_def)
  finally have hdr: "header_of (finish_reply status n response) =
      header_of message\<lparr>h_length := of_nat n, h_flags := HYPER_IO_REPLY\<rparr>"
    using header_finish [OF assms(1) r(1)] by blast
  have "reply_length (finish_reply status n response) = unat (h_length (header_of (finish_reply status n response)))"
    by (simp add: reply_length_def header_of_def)
  also have "\<dots> = n" using r(3) by (auto simp: hdr)
  finally show ?thesis using r(1,3) hdr by (simp add: reply_ok_def)
qed

lemma is_replay_previous:
  assumes "is_replay admission sv message" and "server_ok sv" and "message \<noteq> []"
  shows "message = sv_previous sv" and "reply_ok message (sv_previous_reply sv)"
proof -
  have p: "sv_previous_size sv = length (sv_previous sv)" "reply_ok (sv_previous sv) (sv_previous_reply sv)"
    using assms by (auto simp: is_replay_def server_ok_def)
  have "take (length (sv_previous sv)) (sv_previous sv) = take (length message) message"
    "length message = length (sv_previous sv)"
    using assms(1) p(1) by (simp_all add: is_replay_def)
  then show m: "message = sv_previous sv" by simp
  show "reply_ok message (sv_previous_reply sv)" using p(2) m by simp
qed

definition handle_post :: "backend \<Rightarrow> server \<Rightarrow> bytes \<Rightarrow> (server \<times> bytes) option \<Rightarrow> backend \<Rightarrow> bool" where
  "handle_post b sv message r t \<longleftrightarrow> client_inv t \<and> same_client b t \<and>
     (\<forall>sv' reply. r = Some (sv', reply) \<longrightarrow>
        server_ok sv' \<and> server_advances sv sv' \<and> reply_ok message reply)"

lemma handle_request_spec:
  assumes "client_inv b" and "server_ok sv" and "40 \<le> length message"
  shows "wp (handle_request env fuel sv message) (handle_post b sv message) b"
proof -
  obtain admission sv' where a: "admit_request (diagnosed b) sv message = (admission, sv')"
    by (cases "admit_request (diagnosed b) sv message")
  note ad = admit_request_cases [OF a assms(2)]
  let ?h = "header_of message"
  let ?i = "unat (request_device (diagnosed b) (h_operation ?h))"
  have ok: "server_ok sv'" and ne: "message \<noteq> []" using ad assms(3) by auto
  have adv: "server_advances sv sv'" using ad by (cases "0 < admission") (auto simp: server_advances_def)
  have kept: "reply_kept (blank_reply message) 48 (s, blank_reply message, 48)" for s by (simp add: reply_kept_def)
  have replay: "handle_post b sv message (Some (sv', sv_previous_reply sv')) (diagnosed (diagnosed b))"
    if "is_replay admission sv' message"
    using assms(1) ok adv is_replay_previous(2) [OF that ok ne] by (simp add: handle_post_def)
  have stale: "handle_post b sv message
      (Some (sv', finish_reply HYPER_IO_INVALID 48 (blank_reply message))) (diagnosed (diagnosed b))"
    using assms(1) ok adv reply_ok_finish [OF assms(3) kept] by (simp add: handle_post_def)
  have new: "handle_post b sv message (Some
      (sv'\<lparr>sv_session := session\<lparr>epoch := (epoch session)[?i := h_epoch ?h]\<rparr>, sv_last := h_transaction ?h,
        sv_previous_size := length message, sv_previous := message,
        sv_previous_reply := finish_reply status n response\<rparr>, finish_reply status n response)) (diagnosed t)"
    if "0 \<le> admission" "h_transaction ?h > sv_last sv'" "client_inv t" "same_client b t"
      "reply_kept (blank_reply message) 48 (status, response, n)" "dispatched_session (sv_session sv') session t"
    for session status n response t
  proof -
    have e: "epoch (sv_session sv') ! ?i \<le> h_epoch ?h" using ad that(1) by simp
    note d = dispatched_session_advances [OF that(6) e]
    have reply: "reply_ok message (finish_reply status n response)"
      by (rule reply_ok_finish [OF assms(3) that(5)])
    have "sv_last sv' \<le> h_transaction ?h" using that(2) by simp
    moreover have "session_advances (sv_session sv) (session\<lparr>epoch := (epoch session)[?i := h_epoch ?h]\<rparr>)"
      using adv d(1) by (auto simp: server_advances_def intro: session_advances_trans)
    ultimately have "server_advances sv (sv'\<lparr>sv_session := session\<lparr>epoch := (epoch session)[?i := h_epoch ?h]\<rparr>,
        sv_last := h_transaction ?h, sv_previous_size := length message, sv_previous := message,
        sv_previous_reply := finish_reply status n response\<rparr>)"
      using adv d(3) by (auto simp: server_advances_def)
    then show ?thesis
      using reply d(2) ok that(3,4) by (simp add: handle_post_def server_ok_update) (simp add: server_ok_def)
  qed
  have dispatch: "wp (dispatch env fuel (sv_session sv') message (blank_reply message) 48) Q (diagnosed b)"
    if "\<And>r t. client_inv t \<Longrightarrow> same_client b t \<Longrightarrow> (\<And>session d. r = Some (session, d) \<Longrightarrow>
        reply_kept (blank_reply message) 48 d \<and> dispatched_session (sv_session sv') session t) \<Longrightarrow> Q r t" for Q
    by (rule wp_mono [OF dispatch_spec]) (use assms that in auto)
  have none: "client_inv t \<Longrightarrow> same_client b t \<Longrightarrow> handle_post b sv message None t" for t
    by (simp add: handle_post_def)
  show ?thesis
    unfolding handle_request_def wp_rules Let_def a prod.case
    by (auto simp: replay stale new none wp_rules split: option.split intro!: dispatch)
qed


section \<open>Replays\<close>

text \<open>Only an admitted request with a larger transaction reaches the backend.\<close>

lemma handle_request_undispatched:
  assumes "admit_request (diagnosed b) sv message = (admission, sv')"
    and "\<not> (0 \<le> admission \<and> h_transaction (header_of message) > sv_last sv')"
  shows "run_state (handle_request env fuel sv message) b =
    (Some (sv', if is_replay admission sv' message then sv_previous_reply sv'
       else finish_reply HYPER_IO_INVALID 48 (blank_reply message)), diagnosed (diagnosed b))"
proof -
  have d: "run_state diagnostic s = ((), diagnosed s)" for s
    by (simp add: diagnostic_def diagnosed_def State_Monad.update_def)
  show ?thesis
    using assms by (auto simp: handle_request_def d Let_def)
qed

lemma request_device_bound: "unat (request_device b operation) < 2"
  by (simp add: request_device_def primary_def)

lemma request_device_same: "same_client b t \<Longrightarrow> request_device t operation = request_device b operation"
  by (auto simp: request_device_def primary_def same_client_def config_def)

text \<open>The server state after a dispatched request recognises the same request again.\<close>

lemma readmit:
  assumes "binding (sv_session sv) = h_binding (header_of message)" and "request_ok message"
    and "epoch (sv_session sv) ! unat (request_device b (h_operation (header_of message))) = h_epoch (header_of message)"
  shows "admit_request b sv message = (0, sv)"
proof -
  have h: "h_binding (header_of message) \<noteq> 0" "h_epoch (header_of message) \<noteq> 0"
    "\<not> h_epoch (header_of message) > 4294967295"
    using assms(2) by (auto simp: request_ok_def Let_def)
  have dv: "\<not> request_device b (h_operation (header_of message)) > 1"
    using request_device_bound [of b "h_operation (header_of message)"] by (simp add: word_less_nat_alt)
  have "hyper_io_session_admit (sv_session sv) (h_binding (header_of message)) (h_epoch (header_of message))
      hello can (request_device b (h_operation (header_of message))) = (0, sv_session sv)" for hello can
    using assms h dv by (simp add: hyper_io_session_admit_def)
  then show ?thesis by (simp add: admit_request_def Let_def)
qed

lemma dispatched_request_state:
  assumes "client_inv b" and "server_ok sv" and "40 \<le> length message"
    and "admit_request (diagnosed b) sv message = (admission, sv1)" and "0 \<le> admission"
    and "h_transaction (header_of message) > sv_last sv1"
    and "run_state (handle_request env fuel sv message) b = (Some (sv', reply), t)"
  shows "sv_last sv' = h_transaction (header_of message) \<and> sv_previous_size sv' = length message \<and>
    sv_previous sv' = message \<and> sv_previous_reply sv' = reply \<and>
    binding (sv_session sv') = h_binding (header_of message) \<and>
    epoch (sv_session sv') ! unat (request_device b (h_operation (header_of message))) = h_epoch (header_of message)"
proof -
  let ?h = "header_of message"
  let ?i = "unat (request_device (diagnosed b) (h_operation ?h))"
  have replay: "\<not> is_replay admission sv1 message" using assms(6) by (auto simp: is_replay_def)
  have same: "?i = unat (request_device b (h_operation ?h))" by (simp add: request_device_def primary_def)
  note ad = admit_request_cases [OF assms(4,2)]
  let ?post = "\<lambda>r t. case r of None \<Rightarrow> True | Some (sv', reply) \<Rightarrow> sv_last sv' = h_transaction ?h \<and>
    sv_previous_size sv' = length message \<and> sv_previous sv' = message \<and> sv_previous_reply sv' = reply \<and>
    binding (sv_session sv') = h_binding ?h \<and> epoch (sv_session sv') ! ?i = h_epoch ?h"
  have "wp (dispatch env fuel (sv_session sv1) message (blank_reply message) 48)
      (\<lambda>r t. \<forall>session d. r = Some (session, d) \<longrightarrow> binding session = h_binding ?h \<and> length (epoch session) = 2)
      (diagnosed b)"
    by (rule wp_mono [OF dispatch_spec])
       (use assms ad in \<open>auto simp: dispatched_session_def hyper_io_session_retire_def server_ok_def session_wf_def\<close>)
  then have "wp (handle_request env fuel sv message) ?post b"
    unfolding handle_request_def wp_rules Let_def assms(4) prod.case using assms(5,6) replay
    by (auto simp: wp_rules request_device_bound nth_list_update elim!: wp_mono split: option.split)
  from wp_runD [OF this assms(7)] same show ?thesis by simp
qed

lemma replay_same_reply:
  assumes "client_inv b" and "server_ok sv" and "40 \<le> length message" and "request_ok message"
    and "admit_request (diagnosed b) sv message = (admission, sv1)" and "0 \<le> admission"
    and "h_transaction (header_of message) > sv_last sv1"
    and "run_state (handle_request env fuel sv message) b = (Some (sv', reply), t)"
  shows "run_state (handle_request env' fuel' sv' message) t = (Some (sv', reply), diagnosed (diagnosed t))"
proof -
  note st = dispatched_request_state [OF assms(1,2,3,5,6,7,8)]
  have "same_client b t"
    using wp_runD [OF handle_request_spec [OF assms(1-3)] assms(8)] by (simp add: handle_post_def)
  then have dv: "request_device (diagnosed t) op = request_device b op" for op
    by (intro request_device_same) simp
  have re: "admit_request (diagnosed t) sv' message = (0, sv')"
    using st assms(4) by (intro readmit) (simp_all add: dv)
  have "is_replay 0 sv' message" using st by (simp add: is_replay_def)
  with handle_request_undispatched [OF re, of env' fuel'] st show ?thesis by simp
qed


section \<open>The service loop\<close>

text \<open>An idle client has nothing alive that the host could still reach.\<close>

lemma idle_monitor:
  assumes "backend_inv b" and "idle b"
  shows "monitor_of (events b) = fresh_monitor" and "closed Disk b" and "closed Net b"
proof -
  show c: "closed Disk b" "closed Net b"
    using assms by (simp_all add: idle_def backend_inv_closed)
  then have "\<not> scsi_live (mon b) \<and> \<not> net_live (mon b)" by (intro closed_not_live assms)
  moreover have "\<not> mapped (mon b)" "\<not> prepared (mon b)" "admitted (mon b) = 0"
    using assms by (auto simp: backend_inv_def linked_def idle_def)
  ultimately show "monitor_of (events b) = fresh_monitor"
    by (cases "mon b") (simp add: fresh_monitor_def)
qed

lemma released_idle: "released b \<Longrightarrow> idle b"
  by (simp add: released_def idle_def closed_def ep_closed_def endpoint_of_def)

lemma quietly_same: "quietly b t \<Longrightarrow> client_inv b \<Longrightarrow> client_inv t \<and> same_client b t"
  using op_kept_inv [of b t] op_kept_quietly [of b t]
  by (auto simp: client_inv_def same_client_def) (auto simp: quietly_def)

lemma read_control_quietly: "quietly b t \<Longrightarrow> wp (read_control env fuel control) (\<lambda>_. quietly b) t"
  by (induction fuel arbitrary: t) (simp_all add: wp_rules)

lemma write_control_quietly: "quietly b t \<Longrightarrow> wp (write_control env fuel control reply) (\<lambda>_. quietly b) t"
  by (induction fuel arbitrary: t) (simp_all add: wp_rules)

definition step_post :: "backend \<Rightarrow> server \<Rightarrow> (server + int) option \<Rightarrow> backend \<Rightarrow> bool" where
  "step_post b sv r t \<longleftrightarrow> client_inv t \<and> same_client b t \<and>
     (\<forall>sv'. r = Some (Inl sv') \<longrightarrow> server_ok sv' \<and> server_advances sv sv')"

lemma serve_step_spec:
  assumes "client_inv b" and "server_ok sv"
  shows "wp (serve_step env fuel control sv) (step_post b sv) b"
proof -
  have read: "wp (read_control env fuel control) Q b"
    if "\<And>r t. client_inv t \<Longrightarrow> same_client b t \<Longrightarrow> Q r t" for Q
    by (rule wp_mono [OF read_control_quietly [OF quietly_refl]])
       (use quietly_same [OF _ assms(1)] that in blast)
  have handle: "wp (handle_request env fuel sv (received a)) Q t"
    if "client_inv t" "same_client b t" "40 \<le> ret a"
      "\<And>r u. client_inv u \<Longrightarrow> same_client b u \<Longrightarrow> (\<And>sv' reply. r = Some (sv', reply) \<Longrightarrow>
         server_ok sv' \<and> server_advances sv sv') \<Longrightarrow> Q r u" for a t Q
  proof (rule wp_mono [OF handle_request_spec [OF that(1) assms(2)]])
    show "40 \<le> length (received a)" using that(3) by (simp add: received_def)
  next
    fix r u assume "handle_post t sv (received a) r u"
    with that(2) show "Q r u" by (intro that(4)) (auto simp: handle_post_def elim: same_client_trans)
  qed
  have send: "wp (write_control env fuel control reply) Q t"
    if "client_inv t" "same_client b t" "\<And>r u. client_inv u \<Longrightarrow> same_client b u \<Longrightarrow> Q r u" for reply Q t
    by (rule wp_mono [OF write_control_quietly [OF quietly_refl]])
       (use quietly_same [OF _ that(1)] that(2,3) same_client_trans in blast)
  show ?thesis
    unfolding serve_step_def
    by (auto simp: wp_rules step_post_def split: option.split intro!: read handle send)
qed

definition serve_post :: "backend \<Rightarrow> backend \<Rightarrow> bool" where
  "serve_post b t \<longleftrightarrow> client_inv t \<and> same_client b t"

lemma serve_spec:
  assumes "client_inv b" and "server_ok sv"
  shows "wp (serve env fuel control sv) (\<lambda>_. serve_post b) b"
  using assms
proof (induction fuel arbitrary: b sv)
  case 0
  then show ?case by (simp add: wp_rules serve_post_def)
next
  case (Suc fuel)
  have "wp (serve env fuel control sv') (\<lambda>_. serve_post b) t"
    if "step_post b sv (Some (Inl sv')) t" for sv' t
    by (rule wp_mono [OF Suc.IH])
       (use that in \<open>auto simp: step_post_def serve_post_def elim: same_client_trans\<close>)
  moreover have "step_post b sv r t \<Longrightarrow> serve_post b t" for r t
    by (simp add: step_post_def serve_post_def)
  ultimately have "wp (serve_step env fuel control sv) (\<lambda>r. wp (case r of
      None \<Rightarrow> State_Monad.return None | Some (Inr v) \<Rightarrow> State_Monad.return (Some v)
      | Some (Inl sv) \<Rightarrow> serve env fuel control sv) (\<lambda>_. serve_post b)) b"
    by (intro wp_mono [OF serve_step_spec [OF Suc.prems]])
       (auto simp: wp_rules split: option.split sum.split)
  moreover have "serve_post b b" using Suc.prems by (simp add: serve_post_def)
  ultimately show ?case by (simp add: wp_rules)
qed

section \<open>The whole process\<close>

definition setup_inv :: "backend \<Rightarrow> bool" where
  "setup_inv b \<longleftrightarrow> client_inv b \<and> closed Disk b \<and> closed Net b \<and> \<not> prepared (mon b) \<and> token b = 0"

lemma initial_backend_inv: "setup_inv initial_backend"
  by (simp add: setup_inv_def client_inv_def initial_backend_def backend_inv_def safe_def linked_def
      monitor_of_def fresh_monitor_def closed_def ep_closed_def ep_wf_def endpoint_of_def closed_endpoint_def endpoint_init_def)

lemma initial_server_ok: "server_ok initial_server"
  by (simp add: server_ok_def initial_server_def)

lemma setup_inv_called [simp]: "quiet c \<Longrightarrow> setup_inv (called env c b) \<longleftrightarrow> setup_inv b"
  by (simp add: setup_inv_def closed_def)

lemma setup_quietly: "setup_inv b \<Longrightarrow> quietly b t \<Longrightarrow> setup_inv t"
  using quietly_same [of b t] quietly_endpoint [of b t]
  by (auto simp: setup_inv_def closed_def) (auto simp: quietly_def shared_def)


lemma setup_monitor: "setup_inv b \<Longrightarrow> \<not> scsi_live (mon b) \<and> \<not> net_live (mon b)"
  by (intro closed_not_live) (simp_all add: setup_inv_def client_inv_def)

text \<open>The fields the start-up sets do not occur in the invariant.\<close>

lemma setup_inv_fields [simp]:
  "setup_inv (b\<lparr>managed := m, scsi := sc, net_resources := nr, memory_path := p\<rparr>) \<longleftrightarrow> setup_inv b"
  "setup_inv (b\<lparr>target := w\<rparr>) \<longleftrightarrow> setup_inv b"
  "setup_inv (b\<lparr>network := x\<rparr>) \<longleftrightarrow> setup_inv b"
  by (auto simp: setup_inv_def client_inv_def backend_inv_def linked_def closed_def endpoint_of_def)

lemma setup_inv_mac: "setup_inv b \<Longrightarrow> length x = 6 \<Longrightarrow> setup_inv (b\<lparr>mac := x, bridge := br\<rparr>)"
  by (auto simp: setup_inv_def client_inv_def backend_inv_def linked_def closed_def endpoint_of_def)

lemma setup_inv_notification:
  "setup_inv b \<Longrightarrow> e = endpoint_of d b \<Longrightarrow> setup_inv (set_endpoint d (e\<lparr>ep_notification := n\<rparr>) b)"
  by (cases d) (auto simp: setup_inv_def client_inv_def backend_inv_def linked_def closed_def endpoint_of_def
      ep_closed_def ep_wf_def)

lemma setup_inv_memory_fd: "setup_inv b \<Longrightarrow> setup_inv (b\<lparr>memory_fd := f\<rparr>)"
  by (auto simp: setup_inv_def client_inv_def backend_inv_def linked_def closed_def endpoint_of_def)

lemma setup_inv_region: "setup_inv (b\<lparr>region := g\<rparr>) \<longleftrightarrow> setup_inv b"
  by (auto simp: setup_inv_def client_inv_def backend_inv_def linked_def closed_def endpoint_of_def)

lemma setup_inv_mmap:
  assumes "setup_inv b" and "m = word_of_int (ret (env (events b) (Mmap l f)))"
    and "memory b = MAP_FAILED"
  shows "setup_inv (called env (Mmap l f) b\<lparr>memory := m\<rparr>)"
  using assms
  by (auto simp: setup_inv_def client_inv_def backend_inv_def linked_def closed_def endpoint_of_def safe_snoc)

text \<open>The steps keep the mapping absent until \<open>map_standalone\<close>.\<close>

definition unmapped :: "backend \<Rightarrow> bool" where
  "unmapped b \<longleftrightarrow> setup_inv b \<and> memory b = MAP_FAILED"

lemma unmapped_step:
  "unmapped b \<Longrightarrow> length x = 6 \<Longrightarrow> unmapped (b\<lparr>mac := x, bridge := br\<rparr>)"
  "unmapped b \<Longrightarrow> e = endpoint_of d b \<Longrightarrow> unmapped (set_endpoint d (e\<lparr>ep_notification := n\<rparr>) b)"
  "unmapped b \<Longrightarrow> quiet c \<Longrightarrow> unmapped (called env c b)"
  "unmapped b \<Longrightarrow> unmapped (b\<lparr>network := z\<rparr>)"
  "unmapped b \<Longrightarrow> unmapped (b\<lparr>target := w\<rparr>)"
  by (auto simp: unmapped_def setup_inv_mac setup_inv_notification)

lemma parse_arguments_spec: "unmapped b \<Longrightarrow> wp (parse_arguments argv) (\<lambda>_. unmapped) b"
  unfolding parse_arguments_def by (auto simp: wp_rules unmapped_def split: option.split)

lemma install_handlers_spec: "unmapped b \<Longrightarrow> wp (install_handlers env) (\<lambda>_. unmapped) b"
  unfolding install_handlers_def by (auto simp: wp_rules unmapped_def)

lemma fresh_owner_setup: "unmapped b \<Longrightarrow> fresh_owner b t \<Longrightarrow> unmapped t"
proof -
  assume b: "unmapped b" and t: "fresh_owner b t"
  obtain q where q: "blocks t = Some q" using t by (auto simp: fresh_owner_def)
  have "owner_inv q" using fresh_owner_inv [OF t] q by (simp add: owner_of_def)
  moreover have "quietly (b\<lparr>blocks := Some q\<rparr>) t" using t q by (simp add: fresh_owner_def)
  ultimately have "setup_inv t"
    using b by (rule_tac setup_quietly [of "b\<lparr>blocks := Some q\<rparr>"])
      (auto simp: unmapped_def setup_inv_def client_inv_def closed_def)
  moreover have "memory t = memory b" using t by (simp add: fresh_owner_def quietly_def shared_def)
  ultimately show ?thesis using b by (simp add: unmapped_def)
qed

lemma unmapped_quietly: "unmapped b \<Longrightarrow> quietly b t \<Longrightarrow> unmapped t"
  using setup_quietly [of b t] by (auto simp: unmapped_def) (auto simp: quietly_def shared_def)

lemma create_owner_spec: "unmapped b \<Longrightarrow> wp (create_owner env argv) (\<lambda>_. unmapped) b"
proof -
  assume b: "unmapped b"
  have "wp (block_owner_create env path) (\<lambda>_. unmapped) b" for path
    by (rule wp_mono [OF block_owner_create_spec [where b = b]])
       (auto split: if_splits intro: fresh_owner_setup [OF b] unmapped_quietly [OF b])
  with b show ?thesis
    unfolding create_owner_def by (auto simp: wp_rules unmapped_step)
qed

lemma probe_backend_spec: "unmapped b \<Longrightarrow> wp (probe_backend env path required) (\<lambda>_. unmapped) b"
  unfolding probe_backend_def by (auto simp: wp_rules unmapped_def)

lemma probe_network_unmapped: "unmapped b \<Longrightarrow> wp (probe_network env) (\<lambda>_. unmapped) b"
proof -
  assume b: "unmapped b"
  have "unmapped t" if t: "tap_step b t" "tap t < 0" for t
  proof -
    have "quietly (b\<lparr>tap := tap t\<rparr>) t" using t by (simp add: tap_step_def)
    moreover have "unmapped (b\<lparr>tap := tap t\<rparr>)"
      using b t(2) backend_inv_tap [of b "tap t"]
      by (auto simp: unmapped_def setup_inv_def client_inv_def closed_def)
    ultimately show ?thesis by (rule unmapped_quietly [rotated])
  qed
  then show ?thesis
    by (rule_tac wp_mono [OF probe_network_spec [where b = b]]) auto
qed

lemma setup_network_spec: "unmapped b \<Longrightarrow> wp (setup_network env argv) (\<lambda>_. unmapped) b"
proof -
  assume b: "unmapped b"
  have probe: "wp (probe_backend env path required) Q t" if "unmapped t" "\<And>r u. unmapped u \<Longrightarrow> Q r u"
    for path required Q t
    by (rule wp_mono [OF probe_backend_spec [OF that(1)]]) (rule that(2))
  have net: "wp (probe_network env) Q t" if "unmapped t" "\<And>r u. unmapped u \<Longrightarrow> Q r u" for Q t
    by (rule wp_mono [OF probe_network_unmapped [OF that(1)]]) (rule that(2))
  show ?thesis
    unfolding setup_network_def network_bridge_def hyper_networks_read_def using b
    by (auto simp: wp_rules unmapped_step mac_parse_bytes(2) split: option.split intro!: probe net)
qed

lemma map_standalone_spec: "unmapped b \<Longrightarrow> wp (map_standalone env argv) (\<lambda>_. setup_inv) b"
  unfolding map_standalone_def
  by (auto simp: wp_rules unmapped_def setup_inv_memory_fd setup_inv_region intro!: setup_inv_mmap)

lemma open_notification_spec: "setup_inv b \<Longrightarrow> wp (open_notification env argv) (\<lambda>_. setup_inv) b"
  unfolding open_notification_def by (auto simp: wp_rules setup_inv_notification)

lemma wp_for_return_append:
  "wp (for_return f (xs @ ys)) Q = wp (for_return f xs)
     (\<lambda>r. case r of None \<Rightarrow> wp (for_return f ys) Q | Some v \<Rightarrow> Q (Some v))"
proof (induction xs)
  case (Cons x xs)
  then show ?case by (simp add: wp_rules fun_eq_iff cong: option.case_cong)
qed (simp add: wp_rules fun_eq_iff)

lemma main_setup_spec: "wp (main_setup env argv) (\<lambda>_. setup_inv) initial_backend"
proof -
  let ?first = "[parse_arguments argv, install_handlers env, create_owner env argv, setup_network env argv]"
  have start: "unmapped initial_backend"
    using initial_backend_inv by (simp add: unmapped_def initial_backend_def)
  have "wp (for_return (\<lambda>step. step) ?first) (\<lambda>_. unmapped) initial_backend"
    by (rule wp_for_return [where I = "\<lambda>_. unmapped"])
       (auto simp: start parse_arguments_spec install_handlers_spec create_owner_spec setup_network_spec)
  moreover have "wp (for_return (\<lambda>step. step) [map_standalone env argv, open_notification env argv]) (\<lambda>_. setup_inv) b"
    if "unmapped b" for b
    unfolding for_return.simps wp_rules
    by (rule wp_mono [OF map_standalone_spec [OF that]])
       (auto simp: wp_rules split: option.split intro!: wp_mono [OF open_notification_spec])
  ultimately have "wp (for_return (\<lambda>step. step) ?first) (\<lambda>r. case r of
      None \<Rightarrow> wp (for_return (\<lambda>step. step) [map_standalone env argv, open_notification env argv]) (\<lambda>_. setup_inv)
    | Some v \<Rightarrow> setup_inv) initial_backend"
    by (elim wp_mono) (auto simp: unmapped_def split: option.split)
  moreover have "main_setup env argv =
      for_return (\<lambda>step. step) (?first @ [map_standalone env argv, open_notification env argv])"
    by (simp add: main_setup_def)
  ultimately show ?thesis by (simp only: wp_for_return_append)
qed

lemma open_control_spec: "client_inv b \<Longrightarrow> wp (open_control env argv) (\<lambda>_. client_inv) b"
  unfolding open_control_def probe_backend_def by (auto simp: wp_rules)

text \<open>
  The end of the process: it exits only with everything released; a failed release keeps the
  process, and with it every descriptor, alive.
\<close>

definition shut_post :: "int option \<Rightarrow> backend \<Rightarrow> bool" where
  "shut_post r t \<longleftrightarrow> client_inv t \<and> (r \<noteq> None \<longrightarrow> idle t)"

lemma shut_down_spec:
  assumes "client_inv b"
  shows "wp (shut_down env control result) shut_post b"
proof -
  have inv: "backend_inv b" using assms by (simp add: client_inv_def)
  have release: "wp (release_memory env) Q b"
    if "\<And>r t. client_inv t \<Longrightarrow> (r = HYPER_IO_OK \<Longrightarrow> idle t) \<Longrightarrow> Q r t" for Q
    by (rule wp_mono [OF release_memory_spec [OF inv]])
       (use assms in \<open>auto simp: release_post_def client_inv_def config_def intro!: that released_idle\<close>)
  have destroy: "wp (block_owner_destroy env) (\<lambda>_ t. client_inv t \<and> idle t) b"
    if "client_inv b" "idle b" for b
  proof -
    have "wp (for_each (\<lambda>d. do { call env (Close (pd_fd d)); State_Monad.return () }) ds) (\<lambda>_. quietly b) b" for ds
      by (rule wp_for_each) (simp_all add: wp_rules)
    then have "wp (for_each (\<lambda>d. do { call env (Close (pd_fd d)); State_Monad.return () }) ds)
        (\<lambda>_ t. client_inv (t\<lparr>blocks := None\<rparr>) \<and> idle (t\<lparr>blocks := None\<rparr>)) b" for ds
      by (rule wp_mono) (use that quietly_same in \<open>fastforce simp: client_inv_def idle_def quietly_def shared_def\<close>)
    with that show ?thesis
      unfolding block_owner_destroy_def by (auto simp: wp_rules split: option.split)
  qed
  have idle_called: "idle (called env c t) \<longleftrightarrow> idle t" for c t by (simp add: idle_def)
  show ?thesis
    unfolding shut_down_def
    by (auto simp: wp_rules shut_post_def idle_called intro!: release wp_mono [OF destroy])
qed

text \<open>Every run of the service, from the first call to wherever it is after any amount of fuel.\<close>

lemma service_main_spec: "wp (service_main env fuel argv) (\<lambda>r t. client_inv t) initial_backend"
proof -
  have serve: "wp (serve env fuel control initial_server) Q b"
    if "client_inv b" "\<And>r t. client_inv t \<Longrightarrow> Q r t" for control Q b
    by (rule wp_mono [OF serve_spec [OF that(1) initial_server_ok]]) (use that(2) in \<open>auto simp: serve_post_def\<close>)
  have shut: "wp (shut_down env control v) (\<lambda>_. client_inv) b" if "client_inv b" for control v b
    by (rule wp_mono [OF shut_down_spec [OF that]]) (simp add: shut_post_def)
  have control: "wp (open_control env argv) Q b" if "client_inv b" "\<And>r t. client_inv t \<Longrightarrow> Q r t" for Q b
    by (rule wp_mono [OF open_control_spec [OF that(1)]]) (rule that(2))
  show ?thesis
    unfolding service_main_def wp_rules
    by (rule wp_mono [OF main_setup_spec])
       (auto simp: wp_rules setup_inv_def shut split: option.split sum.split intro!: control serve)
qed

end
