(* ===== verification/Samples.thy ===== *)
theory Samples
  imports Service
begin

text \<open>
  Concrete states, environments and messages on which the properties of the root theory are
  instantiated, with the proofs that they satisfy the invariants.
\<close>

definition sample_endpoint :: endpoint where
  "sample_endpoint = \<lparr>ep_notification = 3, ep_fd = 5, ep_kick = [6, 7, 8, - 1, - 1, - 1],
     ep_call = [9, 10, 11, - 1, - 1, - 1], ep_bound = True, ep_attached = True\<rparr>"

definition sample_prepare :: hyper_memory_prepare where
  "sample_prepare = \<lparr>mp_alias = 0, mp_guest_base = 0, mp_length = 8192, mp_token = 7,
     mp_pages = [4096, 8192], mp_count = 2, mp_reserved = 0\<rparr>"

definition sample_events :: "event list" where
  "sample_events =
     [(Ioctl 3 (HYPER_IO_ADMIT 7 0 8192), success),
      (Ioctl 4 (HYPER_MEMORY_PREPARE sample_prepare), success),
      (Mmap 8192 4, success\<lparr>ret := 65536\<rparr>),
      (Ioctl 5 (VHOST_SCSI_SET_ENDPOINT ''naa.1''), success)]"

text \<open>A managed storage client with nothing open, one with mapped memory, one with a live disk.\<close>

definition idle_client :: backend where
  "idle_client = initial_backend\<lparr>managed := True, target := ''naa.1'',
     disk := closed_endpoint\<lparr>ep_notification := 3\<rparr>, memory_path := ''/dev/hyper-memory-1''\<rparr>"

definition mapped_client :: backend where
  "mapped_client = idle_client\<lparr>events := take 3 sample_events, memory_fd := 4, memory := 65536,
     region := \<lparr>mi_guest_base = 0, mi_length = 8192\<rparr>, token := 7\<rparr>"

definition active_client :: backend where
  "active_client = mapped_client\<lparr>events := sample_events, disk := sample_endpoint\<rparr>"

definition network_client :: backend where
  "network_client = mapped_client\<lparr>network := True, net := closed_endpoint\<lparr>ep_notification := 12\<rparr>\<rparr>"

definition sample_disk :: physical_disk where
  "sample_disk = \<lparr>pd_fd = 20, pd_device = 0x800, pd_bytes = 1048576, pd_sequence = 1,
     pd_logical = 512, pd_physical = 4096, pd_read_only = 0\<rparr>"

definition sample_owner :: block_owner where
  "sample_owner = \<lparr>bo_disks = [sample_disk],
     bo_clients = (replicate HYPER_BLOCK_CLIENTS False)[1 := True, 2 := True],
     bo_bindings = replicate HYPER_BLOCK_CLIENTS no_range\<rparr>"

definition owner_client :: backend where
  "owner_client = mapped_client\<lparr>blocks := Some sample_owner, target := [], memory := 65536\<rparr>"

lemmas sample_defs = idle_client_def mapped_client_def active_client_def network_client_def
  owner_client_def initial_backend_def sample_events_def sample_endpoint_def closed_endpoint_def
  endpoint_init_def success_def

lemma sample_inv:
  "backend_inv idle_client" "backend_inv mapped_client" "backend_inv active_client"
  "backend_inv network_client" "backend_inv owner_client"
  by (simp_all add: backend_inv_def sample_defs safe_def linked_def monitor_of_def fresh_monitor_def
      ep_wf_def closed_def ep_closed_def endpoint_of_def)

lemma sample_owner_inv: "owner_inv sample_owner"
proof -
  have "bo_bindings sample_owner ! i = no_range" if "i < HYPER_BLOCK_CLIENTS" for i
    using that by (simp add: sample_owner_def)
  then have "bindings_ok sample_owner"
    by (simp add: bindings_ok_def no_range_def hyper_block_ranges_conflict_def)
  moreover have "geometry_ok sample_disk" by code_simp
  ultimately show ?thesis by (simp add: owner_inv_def sample_owner_def)
qed

lemma sample_client_inv: "client_inv idle_client" "client_inv active_client" "client_inv owner_client"
proof -
  have "blocks idle_client = None" "blocks active_client = None" "blocks owner_client = Some sample_owner"
    "length (mac idle_client) = 6" "length (mac active_client) = 6" "length (mac owner_client) = 6"
    by (simp_all add: sample_defs)
  then show "client_inv idle_client" "client_inv active_client" "client_inv owner_client"
    using sample_inv sample_owner_inv by (simp_all add: client_inv_def)
qed

text \<open>An environment in which every call succeeds with the result zero.\<close>

definition calm :: env where
  "calm es c = success"

text \<open>
  An environment that grants two one-page extents and accepts every other call, with plausible
  descriptors and a mapping at 65536.
\<close>

definition sample_extent :: "u64 \<Rightarrow> nat \<Rightarrow> u64" where
  "sample_extent i k = (if k = 0 then 0x100000 - 4096 * i else if k = 1 then 4096 * i else 4096)"

definition granting :: env where
  "granting es c = (case c of
     Ioctl f r \<Rightarrow> (case r of
       HYPER_IO_ADMIT t g l \<Rightarrow> success\<lparr>out := (\<lambda>_. 2)\<rparr>
     | HYPER_IO_EXTENT i \<Rightarrow> success\<lparr>out := sample_extent i\<rparr>
     | HYPER_MEMORY_INFO \<Rightarrow> success\<lparr>out := (\<lambda>_. 0x100000)\<rparr>
     | _ \<Rightarrow> success)
   | Open p f \<Rightarrow> success\<lparr>ret := 4\<rparr>
   | Calloc n \<Rightarrow> success\<lparr>ret := 1\<rparr>
   | Mmap l f \<Rightarrow> success\<lparr>ret := 65536\<rparr>
   | Eventfd \<Rightarrow> success\<lparr>ret := 6\<rparr>
   | Socket \<Rightarrow> success\<lparr>ret := 7\<rparr>
   | If_nametoindex n \<Rightarrow> success\<lparr>ret := 2\<rparr>
   | _ \<Rightarrow> success)"

text \<open>Requests of a host: a header with the given operation, and a body.\<close>

definition sample_header :: "u16 \<Rightarrow> nat \<Rightarrow> u64 \<Rightarrow> hyper_io_header" where
  "sample_header operation n transaction = \<lparr>h_magic = HYPER_IO_MAGIC, h_version = HYPER_IO_VERSION,
     h_operation = operation, h_length = of_nat n, h_flags = 0, h_binding = 1, h_epoch = 1,
     h_transaction = transaction\<rparr>"

definition sample_request :: hyper_io_prepare_memory where
  "sample_request = \<lparr>p_header = sample_header HYPER_IO_PREPARE_MEMORY 72 2, p_alias = 0, p_guest_base = 0,
     p_length = 8192, p_token = 7\<rparr>"

definition hello_message :: bytes where
  "hello_message = header_bytes (sample_header HYPER_IO_HELLO 40 1)"

definition sample_queues :: "hyper_io_queue list" where
  "sample_queues = [\<lparr>q_size = 16, q_reserved = 0, q_descriptor = 0, q_available = 0x200, q_used = 0x300\<rparr>,
     \<lparr>q_size = 16, q_reserved = 0, q_descriptor = 0x400, q_available = 0x600, q_used = 0x700\<rparr>]"

definition sample_activate :: hyper_io_activate where
  "sample_activate = \<lparr>a_header = sample_header HYPER_IO_NETWORK_ACTIVATE 112 2, a_features = VERSION_1,
     a_queues = sample_queues\<rparr>"

definition sample_bind :: hyper_io_block_bind where
  "sample_bind = \<lparr>b_header = sample_header HYPER_IO_BLOCK_BIND 72 1, b_client = 1, b_flags = 0,
     b_disk = 1, b_first_lba = 0, b_sectors = 8\<rparr>"

definition sample_read :: hyper_io_block_read where
  "sample_read = \<lparr>rd_header = sample_header HYPER_IO_BLOCK_READ 72 1, rd_disk = 1, rd_offset = 512,
     rd_length = 1024, rd_memory_offset = 0\<rparr>"

definition sample_range :: hyper_block_range where
  "sample_range = \<lparr>r_disk = 1, r_first = 8, r_count = 16, r_read_only = 0\<rparr>"

text \<open>A client inventory and a network inventory in the syntax of the configuration files.\<close>

definition sample_clients :: string where
  "sample_clients = ''hyper.clients.v5'' @ [newline] @
     ''0 - - 4 128 1000 0'' @ [newline] @
     ''1 lan 02:00:00:00:00:01 2 128 1000 0'' @ [newline]"

definition sample_networks :: string where
  "sample_networks = ''hyper.networks.v1'' @ [newline] @ ''lan br0 eth0'' @ [newline]"

section \<open>Runs of the samples\<close>

lemma success_simps [simp]:
  "ret success = 0" "out success = (\<lambda>_. 0)" "data success = []" "str success = []"
  "names success = []" "\<not> sig success"
  by (simp_all add: success_def)

lemma granting_simps:
  "granting es (Ioctl f (HYPER_IO_ADMIT t g l)) = success\<lparr>out := (\<lambda>_. 2)\<rparr>"
  "granting es (Ioctl f (HYPER_IO_EXTENT i)) = success\<lparr>out := sample_extent i\<rparr>"
  "granting es (Ioctl f HYPER_MEMORY_INFO) = success\<lparr>out := (\<lambda>_. 0x100000)\<rparr>"
  "granting es (Ioctl f (HYPER_MEMORY_PREPARE q)) = success"
  "granting es (Open n fl) = success\<lparr>ret := 4\<rparr>"
  "granting es (Calloc l) = success\<lparr>ret := 1\<rparr>"
  "granting es (Mmap l f) = success\<lparr>ret := 65536\<rparr>"
  by (simp_all add: granting_def)

lemma idle_fields:
  "managed idle_client" "memory idle_client = MAP_FAILED" "memory_fd idle_client = - 1"
  "token idle_client = 0" "blocks idle_client = None"
  by (simp_all add: idle_client_def initial_backend_def)

lemma sample_walk:
  "wp (walk_extents granting 8192 2 0 0 [0, 0]) Q s \<longleftrightarrow>
     Q (Some (8192, [0x100000, 0xff000]))
       (called granting (Ioctl (ep_notification (memory_endpoint s)) (HYPER_IO_EXTENT 1))
         (called granting (Ioctl (ep_notification (memory_endpoint s)) (HYPER_IO_EXTENT 0)) s))"
proof -
  have "hyper_io_extent_valid 0 8192 0x100000 0 4096" "hyper_io_extent_valid 4096 8192 0xff000 4096 4096"
    by code_simp+
  moreover have "store_extent 0 0x100000 4096 [0, 0] = [0x100000, 0]"
    "store_extent 4096 0xff000 4096 [0x100000, 0] = [0x100000, 0xff000]"
    by (simp_all add: store_extent_def extent_steps_def)
  ultimately have "wp (walk_extents granting 8192 (Suc (Suc 0)) 0 0 [0, 0]) Q s \<longleftrightarrow>
     Q (Some (8192, [0x100000, 0xff000]))
       (called granting (Ioctl (ep_notification (memory_endpoint s)) (HYPER_IO_EXTENT 1))
         (called granting (Ioctl (ep_notification (memory_endpoint s)) (HYPER_IO_EXTENT 0)) s))"
    by (simp add: wp_rules granting_simps extent_alias_def extent_offset_def extent_length_def
        sample_extent_def memory_endpoint_def)
  then show ?thesis by (simp add: numeral_2_eq_2)
qed

lemma sample_prepared:
  "fst (run_state (prepare_memory granting sample_request) idle_client) = HYPER_IO_OK"
proof -
  have "replicate 2 (0 :: u64) = [0, 0]" by (simp add: numeral_2_eq_2)
  then have "wp (prepare_memory granting sample_request) (\<lambda>r t. r = HYPER_IO_OK) idle_client"
    by (simp add: prepare_memory_def admit_memory_def sample_request_def prepare_of_def wp_rules
        idle_fields granting_simps Let_def sample_walk admission_extents_def map_memory_def)
  then show ?thesis by (simp add: wp_def case_prod_beta)
qed

text \<open>The first \<open>HELLO\<close> of a storage client is admitted and answered.\<close>

lemma hello_header: "header_of hello_message = sample_header HYPER_IO_HELLO 40 1"
  using header_of_bytes [of "sample_header HYPER_IO_HELLO 40 1" "[]"] by (simp add: hello_message_def)

lemma hello_length: "length hello_message = 40"
  by (simp add: hello_message_def)

lemma hello_ok: "request_ok hello_message"
  by (simp add: request_ok_def hello_header hello_length sample_header_def)

definition greeted_server :: server where
  "greeted_server = initial_server\<lparr>sv_session := \<lparr>binding = 1, epoch = [1, 0], retired = False\<rparr>\<rparr>"

lemma hello_admitted:
  "admit_request (diagnosed idle_client) initial_server hello_message = (1, greeted_server)"
  "admit_request idle_client initial_server hello_message = (1, greeted_server)"
  by (simp_all add: admit_request_def hello_header hello_length sample_header_def Let_def
      hello_operation_def primary_def idle_def request_device_def word_le_nat_alt greeted_server_def
      hyper_io_session_admit_def initial_server_def initial_session_def sample_defs)

lemma hello_answered:
  "fst (run_state (handle_request calm fuel initial_server hello_message) idle_client) \<noteq> None"
proof -
  have b: "header_of (blank_reply hello_message) = sample_header HYPER_IO_HELLO 40 1"
    using header_of_bytes by (simp add: blank_reply_def hello_message_def)
  have "wp (handle_request calm fuel initial_server hello_message) (\<lambda>r t. r \<noteq> None) idle_client"
    unfolding handle_request_def wp_rules Let_def hello_admitted
    by (simp add: wp_rules is_replay_def greeted_server_def initial_server_def hello_header sample_header_def)
       (simp add: dispatch_def wp_rules Let_def b sample_header_def hyper_io_session_preparable_def
         dispatch_operation_def word_le_nat_alt hello_reply_def block_target_ready_def hello_length
         split: option.split)
  then show ?thesis by (simp add: wp_def case_prod_beta)
qed

text \<open>An environment that interrupts every call, and the read loop against it.\<close>

definition interrupting :: env where
  "interrupting es c = success\<lparr>ret := - 1, err := EINTR\<rparr>"

lemma interrupted_read:
  "0 < len \<Longrightarrow> wp (read_loop interrupting fuel fd destination len offset 0) (\<lambda>r _. r = None) s"
  by (induction fuel arbitrary: s) (simp_all add: read_loop.simps wp_rules interrupting_def)

section \<open>The sample inventories\<close>

lemma sample_numbers:
  "strtoul ''0'' = (0, [])" "strtoul ''1'' = (1, [])" "strtoul ''4'' = (4, [])"
  "strtoul ''2'' = (2, [])" "strtoul ''128'' = (128, [])"
  by (simp_all add: strtoul_def skip_space_def isdigit_def decimal_value_def digit_value_def Let_def isspace_def)

lemma sample_lines:
  "file_lines 160 sample_clients = [''hyper.clients.v5'' @ [newline],
     ''0 - - 4 128 1000 0'' @ [newline], ''1 lan 02:00:00:00:00:01 2 128 1000 0'' @ [newline]]"
  by code_simp

lemma sample_columns:
  "scan_exactly (client_widths True True) (''0 - - 4 128 1000 0'' @ [newline]) =
     Some [''0'', ''-'', ''-'', ''4'', ''128'', ''1000'', ''0'']"
  "scan_exactly (client_widths True True) (''1 lan 02:00:00:00:00:01 2 128 1000 0'' @ [newline]) =
     Some [''1'', ''lan'', ''02:00:00:00:00:01'', ''2'', ''128'', ''1000'', ''0'']"
  by code_simp+

lemma sample_client_fields:
  "hyper_network_resources_parse ''1000'' ''0'' = Some \<lparr>rx_backlog_packets = 1000, tx_buffer_bytes = 0\<rparr>"
  "hyper_scsi_resources_valid 4 128" "hyper_scsi_resources_valid 2 128"
  "hyper_mac_parse ''02:00:00:00:00:01'' = Some [2, 0, 0, 0, 0, 1]"
  by code_simp+

lemma sample_clients_parsed:
  obtains cs where "clients_of_file sample_clients False = Some cs" and "length cs = 2"
proof -
  note d = parse_client_def client_net_resources_def client_scsi_resources_def client_identity_ok_def
    sample_columns [simplified] sample_client_fields sample_numbers isdigit_def
  have 1: "\<exists>c. parse_client True True [] (''0 - - 4 128 1000 0'' @ [newline]) = Some c \<and> c_id c = 0 \<and> c_mac c = ''-''"
    by (simp add: d)
  have 2: "\<exists>d. parse_client True True [c] (''1 lan 02:00:00:00:00:01 2 128 1000 0'' @ [newline]) = Some d \<and> c_id d = 1"
    if "c_id c = 0" "c_mac c = ''-''" for c
    using that by (simp add: d network_name_def islower_def)
  have "\<exists>cs. clients_of_file sample_clients False = Some cs \<and> length cs = 2"
    using 1 2 by (force simp: clients_of_file_def sample_lines clients_version_def)
  then show thesis using that by blast
qed

end
