(* ===== verification/Kernel.thy ===== *)
theory Kernel
  imports Prelude
begin

text \<open>
  The kernel interface of the two Linux modules. As in the service, the code reaches its
  surroundings only through calls: an environment gives the answer to each call from the history of
  all calls so far, and every call is recorded. A pointer result is \<open>kret\<close>, zero for \<open>NULL\<close>; an
  integer result is \<open>kret\<close>, zero for success and negative for an error code. Values read are \<open>kval\<close>,
  copied words \<open>kvals\<close>, strings \<open>kstr\<close>. Register accesses carry the offset from the mapped base.
\<close>

datatype kcall =
    Kzalloc
  | Kvmalloc_array u64
  | Request_mem_region u64
  | Release_mem_region u64
  | Memremap_pages u64
  | Memunmap_pages u64
  | Xa_store u64
  | Queue_work nat
  | Flush_work nat
  | Alloc_workqueue
  | Destroy_workqueue
  | Copy_from_user
  | Copy_to_user "u64 list"
  | Copy_bytes_from_user nat
  | Copy_bytes_to_user nat "u32 list"
  | Vm_insert_page u64 u64
  | Pfn_valid u64
  | Page_reserved u64
  | Page_compound u64
  | Get_page u64
  | Put_page u64
  | Of_read_bool string
  | Of_find_property string
  | Of_read_number string
  | Of_read_string string
  | Of_address string
  | Of_parse_phandle string
  | Of_node_put
  | Of_compatible string
  | Dev_name
  | Kasprintf string
  | Misc_register string
  | Misc_deregister
  | Driver_register
  | Driver_unregister
  | Readl u64
  | Readq u64
  | Writel u64 u32
  | Writeq u64 u64
  | Eventfd_fget int
  | Eventfd_ctx_fdget int
  | Eventfd_ctx_fileget u64
  | Eventfd_ctx_put u64
  | Eventfd_signal u64
  | Eventfd_do_read u64
  | Eventfd_remove_wait_queue nat u64
  | Fput u64
  | Vfs_poll nat u64
  | Enable_irq
  | Disable_irq
  | Request_irq bool
  | Free_irq
  | Platform_get_irq
  | Platform_get_resource
  | Ioremap_resource
  | Wait_event u64 u32
  | Wake_up
  | Mutex_lock_interruptible

record kanswer =
  kret :: int
  kval :: u64
  kvals :: "u64 list"
  kstr :: string

definition kdone :: kanswer where
  "kdone = \<lparr>kret = 0, kval = 0, kvals = [], kstr = []\<rparr>"

type_synonym kevent = "kcall \<times> kanswer"
type_synonym kenv = "kevent list \<Rightarrow> kcall \<Rightarrow> kanswer"

record kernel =
  kevents :: "kevent list"

definition kcall :: "kenv \<Rightarrow> kcall \<Rightarrow> ('a kernel_scheme, kanswer) state" where
  "kcall env c = do {
     s \<leftarrow> State_Monad.get;
     let a = env (kevents s) c;
     State_Monad.set (s\<lparr>kevents := kevents s @ [(c, a)]\<rparr>);
     State_Monad.return a }"

definition kcalled :: "kenv \<Rightarrow> kcall \<Rightarrow> 'a kernel_scheme \<Rightarrow> 'a kernel_scheme" where
  "kcalled env c s = s\<lparr>kevents := kevents s @ [(c, env (kevents s) c)]\<rparr>"

lemma wp_case_sum [wp_rules]:
  "wp (case x of Inl a \<Rightarrow> f a | Inr b \<Rightarrow> g b) Q = (\<lambda>s. case x of Inl a \<Rightarrow> wp (f a) Q s | Inr b \<Rightarrow> wp (g b) Q s)"
  by (simp add: fun_eq_iff split: sum.split)

lemma run_kcall: "run_state (kcall env c) s = (env (kevents s) c, kcalled env c s)"
  by (simp add: kcall_def kcalled_def Let_def)

lemma wp_kcall [wp_rules]: "wp (kcall env c) Q = (\<lambda>s. Q (env (kevents s) c) (kcalled env c s))"
  by (simp add: wp_def run_kcall fun_eq_iff)

lemma kevents_kcalled [simp]: "kevents (kcalled env c s) = kevents s @ [(c, env (kevents s) c)]"
  by (simp add: kcalled_def)

lemma kernel_more_kcalled [simp]: "kernel.more (kcalled env c s) = kernel.more s"
  by (simp add: kcalled_def)

text \<open>Error codes, as the negative integers the functions return.\<close>

abbreviation (input) EIO :: int where "EIO \<equiv> 5"
abbreviation (input) ENOMEM :: int where "ENOMEM \<equiv> 12"
abbreviation (input) EACCES :: int where "EACCES \<equiv> 13"
abbreviation (input) EFAULT :: int where "EFAULT \<equiv> 14"
abbreviation (input) EBUSY :: int where "EBUSY \<equiv> 16"
abbreviation (input) ENODEV :: int where "ENODEV \<equiv> 19"
abbreviation (input) EINVAL :: int where "EINVAL \<equiv> 22"
abbreviation (input) EPIPE :: int where "EPIPE \<equiv> 32"
abbreviation (input) EPROTO :: int where "EPROTO \<equiv> 71"
abbreviation (input) EMSGSIZE :: int where "EMSGSIZE \<equiv> 90"
abbreviation (input) ERESTARTSYS :: int where "ERESTARTSYS \<equiv> 512"
abbreviation (input) ENOTTY :: int where "ENOTTY \<equiv> 25"
abbreviation (input) EOVERFLOW :: int where "EOVERFLOW \<equiv> 75"

end
