(* ===== verification/Granules.thy ===== *)
theory Granules
  imports Kernel "HOL-Library.Multiset"
begin

text \<open>
  \<open>modules/guest-memory/granules.c\<close>: the registry of two-mebibyte granules whose page metadata the
  grants of all guests share. A granule object lives in a heap and is named by its position; the
  registry (the xarray) maps the index of a granule to its object. The lemmas show that the user
  count of a granule is the number of its holders, that its memory region is claimed and its pages
  are mapped exactly while the object lives, and that nothing survives its last holder.
\<close>

abbreviation (input) SZ_2M :: u64 where "SZ_2M \<equiv> 2097152"
abbreviation (input) HYPER_GRANULE_RETIRE_BATCH :: nat where "HYPER_GRANULE_RETIRE_BATCH \<equiv> 32"

section \<open>State and operations\<close>

record hyper_granule =
  users :: u32
  range_start :: u64

record granules = kernel +
  heap :: "hyper_granule option list"
  registry :: "u64 \<Rightarrow> nat option"

definition granule_at :: "'a granules_scheme \<Rightarrow> nat \<Rightarrow> hyper_granule option" where
  "granule_at s p = (if p < length (heap s) then heap s ! p else None)"

definition set_granule :: "nat \<Rightarrow> hyper_granule option \<Rightarrow> ('a granules_scheme, unit) state" where
  "set_granule p g = State_Monad.update (\<lambda>s. s\<lparr>heap := (heap s)[p := g]\<rparr>)"

text \<open>The work callback: no lock is held.\<close>

definition granule_retire :: "kenv \<Rightarrow> nat \<Rightarrow> ('a granules_scheme, unit) state" where
  "granule_retire env p = do {
     s \<leftarrow> State_Monad.get;
     (case granule_at s p of
        None \<Rightarrow> State_Monad.return ()
      | Some g \<Rightarrow> do {
          kcall env (Memunmap_pages (range_start g));
          kcall env (Release_mem_region (range_start g));
          State_Monad.return () }) }"

text \<open>
  \<open>hyper_granule_get\<close>, all of it under the registry lock: \<open>Inr\<close> the granule, \<open>Inl\<close> the error. A
  new object enters the heap when every step has succeeded; before that only this call knows it.
\<close>

definition hyper_granule_get :: "kenv \<Rightarrow> u64 \<Rightarrow> ('a granules_scheme, int + nat) state" where
  "hyper_granule_get env index = do {
     s \<leftarrow> State_Monad.get;
     (case registry s index of
        Some p \<Rightarrow> do {
          set_granule p (map_option (\<lambda>g. g\<lparr>users := users g + 1\<rparr>) (granule_at s p));
          State_Monad.return (Inr p) }
      | None \<Rightarrow> do {
          z \<leftarrow> kcall env Kzalloc;
          if kret z = 0 then State_Monad.return (Inl (- ENOMEM))
          else do {
            let start = index * SZ_2M;
            r \<leftarrow> kcall env (Request_mem_region start);
            if kret r = 0 then State_Monad.return (Inl (- EBUSY))
            else do {
              m \<leftarrow> kcall env (Memremap_pages start);
              if kret m < 0 then do {
                kcall env (Release_mem_region start);
                State_Monad.return (Inl (kret m)) }
              else do {
                x \<leftarrow> kcall env (Xa_store index);
                if kret x \<noteq> 0 then do {
                  kcall env (Memunmap_pages start);
                  kcall env (Release_mem_region start);
                  State_Monad.return (Inl (kret x)) }
                else do {
                  s \<leftarrow> State_Monad.get;
                  let p = length (heap s);
                  State_Monad.set (s\<lparr>heap := heap s @ [Some \<lparr>users = 1, range_start = start\<rparr>],
                    registry := (registry s)(index \<mapsto> p)\<rparr>);
                  State_Monad.return (Inr p) } } } } }) }"

text \<open>One entry of the locked pass of \<open>hyper_granules_put\<close>: whether its last user is gone.\<close>

definition detach_granule :: "nat \<Rightarrow> ('a granules_scheme, bool) state" where
  "detach_granule p = do {
     s \<leftarrow> State_Monad.get;
     (case granule_at s p of
        None \<Rightarrow> State_Monad.return False
      | Some g \<Rightarrow> do {
          set_granule p (Some (g\<lparr>users := users g - 1\<rparr>));
          if users g - 1 \<noteq> 0 then State_Monad.return False
          else do {
            State_Monad.update (\<lambda>s. s\<lparr>registry := (registry s)(range_start g div SZ_2M := None)\<rparr>);
            State_Monad.return True } }) }"

text \<open>The locked pass: the entries that stay in the array (the others become \<open>NULL\<close>).\<close>

primrec detach_granules :: "nat list \<Rightarrow> ('a granules_scheme, nat list) state" where
  "detach_granules [] = State_Monad.return []"
| "detach_granules (p # ps) = do {
     final \<leftarrow> detach_granule p;
     qs \<leftarrow> detach_granules ps;
     State_Monad.return (if final then p # qs else qs) }"

text \<open>
  The third pass: \<open>flush_work\<close> returns after the queued callback has run, then the object is freed.
  The callback runs at some time between the two; it is placed at its latest.
\<close>

definition flush_granule :: "kenv \<Rightarrow> nat \<Rightarrow> ('a granules_scheme, unit) state" where
  "flush_granule env p = do {
     granule_retire env p;
     kcall env (Flush_work p);
     set_granule p None }"

definition put_batch :: "kenv \<Rightarrow> nat list \<Rightarrow> ('a granules_scheme, unit) state" where
  "put_batch env owned = do {
     final \<leftarrow> detach_granules owned;
     for_each (\<lambda>p. do { kcall env (Queue_work p); State_Monad.return () }) final;
     for_each (flush_granule env) final }"

function hyper_granules_put :: "kenv \<Rightarrow> nat list \<Rightarrow> ('a granules_scheme, unit) state" where
  "hyper_granules_put env owned =
     (if owned = [] then State_Monad.return ()
      else do {
        put_batch env (take HYPER_GRANULE_RETIRE_BATCH owned);
        hyper_granules_put env (drop HYPER_GRANULE_RETIRE_BATCH owned) })"
  by pat_completeness auto
termination by (relation "measure (\<lambda>(env, owned). length owned)") auto

declare hyper_granules_put.simps [simp del]

definition hyper_granules_init :: "kenv \<Rightarrow> ('a granules_scheme, int) state" where
  "hyper_granules_init env = do {
     q \<leftarrow> kcall env Alloc_workqueue;
     State_Monad.return (if kret q \<noteq> 0 then 0 else - ENOMEM) }"

definition hyper_granules_exit :: "kenv \<Rightarrow> ('a granules_scheme, unit) state" where
  "hyper_granules_exit env = do { kcall env Destroy_workqueue; State_Monad.return () }"

section \<open>The invariant of the registry\<close>

text \<open>The regions that are claimed, and those whose pages are mapped, after a history of calls.\<close>

fun claim_step :: "u64 set \<Rightarrow> kevent \<Rightarrow> u64 set" where
  "claim_step C (Request_mem_region x, a) = (if kret a = 0 then C else insert x C)"
| "claim_step C (Release_mem_region x, a) = C - {x}"
| "claim_step C e = C"

fun remap_step :: "u64 set \<Rightarrow> kevent \<Rightarrow> u64 set" where
  "remap_step C (Memremap_pages x, a) = (if kret a < 0 then C else insert x C)"
| "remap_step C (Memunmap_pages x, a) = C - {x}"
| "remap_step C e = C"

definition claimed :: "kevent list \<Rightarrow> u64 set" where
  "claimed es = foldl claim_step {} es"

definition remapped :: "kevent list \<Rightarrow> u64 set" where
  "remapped es = foldl remap_step {} es"

lemma claimed_append [simp]: "claimed (es @ fs) = foldl claim_step (claimed es) fs"
  by (simp add: claimed_def)

lemma remapped_append [simp]: "remapped (es @ fs) = foldl remap_step (remapped es) fs"
  by (simp add: remapped_def)

text \<open>\<open>request_mem_region\<close> claims a region exclusively.\<close>

definition exclusive_regions :: "kenv \<Rightarrow> bool" where
  "exclusive_regions env \<longleftrightarrow> (\<forall>es x. x \<in> claimed es \<longrightarrow> kret (env es (Request_mem_region x)) = 0)"

definition start_of :: "'a granules_scheme \<Rightarrow> nat \<Rightarrow> u64" where
  "start_of s p = (case granule_at s p of Some g \<Rightarrow> range_start g | None \<Rightarrow> 0)"

text \<open>
  The invariant, for the multiset \<open>H\<close> of all holders (every entry of every array of acquired
  granules) and the set \<open>R\<close> of detached granules whose retirement is under way: a registered granule
  counts its holders, held granules are registered, and the claimed regions and the mapped pages are
  those of the registered and the retiring granules, all of them different.
\<close>

definition alive :: "'a granules_scheme \<Rightarrow> nat set \<Rightarrow> nat set" where
  "alive s R = ran (registry s) \<union> R"

definition registered_ok :: "'a granules_scheme \<Rightarrow> nat multiset \<Rightarrow> u64 \<Rightarrow> nat \<Rightarrow> bool" where
  "registered_ok s H i p \<longleftrightarrow> unat i < 2 ^ 43 \<and>
     (\<exists>g. granule_at s p = Some g \<and> range_start g = i * SZ_2M \<and> unat (users g) = count H p) \<and> p \<in># H"

definition granules_inv :: "'a granules_scheme \<Rightarrow> nat multiset \<Rightarrow> nat set \<Rightarrow> bool" where
  "granules_inv s H R \<longleftrightarrow>
     (\<forall>i p. registry s i = Some p \<longrightarrow> registered_ok s H i p \<and> p \<notin> R) \<and>
     set_mset H \<subseteq> ran (registry s) \<and> (\<forall>p\<in>R. granule_at s p \<noteq> None) \<and>
     inj_on (start_of s) (alive s R) \<and>
     claimed (kevents s) = start_of s ` alive s R \<and> remapped (kevents s) = start_of s ` alive s R"

lemma granule_start_div: "unat i < 2 ^ 43 \<Longrightarrow> i * SZ_2M div SZ_2M = i"
  by (simp add: word_unat_eq_iff unat_div_distrib unat_mult_le)

lemma granule_at_kcalled [simp]: "granule_at (kcalled env c s) p = granule_at s p"
  and heap_kcalled [simp]: "heap (kcalled env c s) = heap s"
  and registry_kcalled [simp]: "registry (kcalled env c s) = registry s"
  and granules_more_kcalled [simp]: "granules.more (kcalled env c s) = granules.more s"
  by (simp_all add: granule_at_def kcalled_def)

lemma start_of_kcalled [simp]: "start_of (kcalled env c s) = start_of s"
  by (simp add: start_of_def fun_eq_iff)

lemma wp_set_granule [wp_rules]: "wp (set_granule p g) Q = (\<lambda>s. Q () (s\<lparr>heap := (heap s)[p := g]\<rparr>))"
  by (simp add: set_granule_def wp_rules)

lemma granule_at_heap [simp]:
  "granule_at (s\<lparr>heap := (heap s)[p := g]\<rparr>) q = (if q = p \<and> p < length (heap s) then g else granule_at s q)"
  "granule_at (s\<lparr>registry := r\<rparr>) q = granule_at s q"
  "granule_at (s\<lparr>heap := (heap s)[p := g], registry := r\<rparr>) q =
     (if q = p \<and> p < length (heap s) then g else granule_at s q)"
  by (auto simp: granule_at_def)

lemma granule_at_Some: "granule_at s p = Some g \<Longrightarrow> p < length (heap s)"
  by (simp add: granule_at_def split: if_splits)

text \<open>Changing the user count of a granule.\<close>

lemma start_of_users:
  "granule_at s p = Some g \<Longrightarrow> start_of (s\<lparr>heap := (heap s)[p := Some (g\<lparr>users := n\<rparr>)]\<rparr>) = start_of s"
  by (auto simp: start_of_def fun_eq_iff)

lemma granules_inv_registered:
  "granules_inv s H R \<Longrightarrow> registry s i = Some p \<Longrightarrow> registered_ok s H i p \<and> p \<notin> R"
  by (simp add: granules_inv_def)

lemma granules_inv_held: "granules_inv s H R \<Longrightarrow> p \<in># H \<Longrightarrow> \<exists>i. registry s i = Some p"
  by (auto simp: granules_inv_def ran_def)

lemma granules_inv_index:
  assumes "granules_inv s H R" and "registry s i = Some p" and "registry s j = Some p"
  shows "i = j"
proof -
  have "unat i < 2 ^ 43" "unat j < 2 ^ 43" "i * SZ_2M = j * SZ_2M"
    using granules_inv_registered [OF assms(1) assms(2)] granules_inv_registered [OF assms(1) assms(3)]
    by (auto simp: registered_ok_def)
  then show ?thesis using granule_start_div by metis
qed

lemma granules_inv_users:
  assumes inv: "granules_inv s H R" and g: "granule_at s p = Some g" and i: "registry s i = Some p"
    and n: "unat n = count H' p" "p \<in># H'" and H: "\<And>q. q \<noteq> p \<Longrightarrow> count H' q = count H q"
  shows "granules_inv (s\<lparr>heap := (heap s)[p := Some (g\<lparr>users := n\<rparr>)]\<rparr>) H' R"
proof -
  let ?t = "s\<lparr>heap := (heap s)[p := Some (g\<lparr>users := n\<rparr>)]\<rparr>"
  have m: "q \<in># H' \<longleftrightarrow> q \<in># H" if "q \<noteq> p" for q
    using H [OF that] by (metis not_in_iff)
  have "registered_ok ?t H' j q" if "registry s j = Some q" for j q
    using granules_inv_registered [OF inv that] g n granule_at_Some [OF g] H [of q] m [of q]
    by (auto simp: registered_ok_def)
  moreover have "set_mset H' \<subseteq> ran (registry s)"
  proof
    fix q assume "q \<in># H'"
    then show "q \<in> ran (registry s)"
      using inv i m [of q] by (cases "q = p") (auto simp: granules_inv_def ranI)
  qed
  ultimately show ?thesis
    using inv g by (auto simp: granules_inv_def start_of_users [OF g] alive_def)
qed

definition get_post ::
    "'a granules_scheme \<Rightarrow> nat multiset \<Rightarrow> nat set \<Rightarrow> u64 \<Rightarrow> int + nat \<Rightarrow> 'a granules_scheme \<Rightarrow> bool" where
  "get_post s H R index r t \<longleftrightarrow> granules.more t = granules.more s \<and>
     (case r of
        Inl e \<Rightarrow> e \<noteq> 0 \<and> granules_inv t H R \<and> registry t = registry s \<and> heap t = heap s
      | Inr p \<Rightarrow> granules_inv t (add_mset p H) R \<and> registry t = (registry s)(index \<mapsto> p))"

text \<open>A state that differs by failed or undone calls only.\<close>

lemma granules_inv_calls:
  assumes "granules_inv s H R" and "registry t = registry s" and "heap t = heap s"
    and "claimed (kevents t) = claimed (kevents s)" and "remapped (kevents t) = remapped (kevents s)"
  shows "granules_inv t H R"
proof -
  have "granule_at t = granule_at s" using assms(3) by (simp add: granule_at_def fun_eq_iff)
  moreover from this have "start_of t = start_of s" by (simp add: start_of_def fun_eq_iff)
  ultimately show ?thesis using assms by (simp add: granules_inv_def registered_ok_def alive_def)
qed

lemma alive_granule: "granules_inv s H R \<Longrightarrow> p \<in> alive s R \<Longrightarrow> \<exists>g. granule_at s p = Some g"
  by (fastforce simp: alive_def granules_inv_def registered_ok_def ran_def)

lemma granules_inv_new:
  assumes inv: "granules_inv s H R" and free: "registry s index = None" and bound: "unat index < 2 ^ 43"
    and new: "index * SZ_2M \<notin> claimed (kevents s)"
    and t: "heap t = heap s @ [Some \<lparr>users = 1, range_start = index * SZ_2M\<rparr>]"
      "registry t = (registry s)(index \<mapsto> length (heap s))"
      "claimed (kevents t) = insert (index * SZ_2M) (claimed (kevents s))"
      "remapped (kevents t) = insert (index * SZ_2M) (remapped (kevents s))"
  shows "granules_inv t (add_mset (length (heap s)) H) R"
proof -
  let ?p = "length (heap s)"
  have at: "granule_at t q = (if q = ?p then Some \<lparr>users = 1, range_start = index * SZ_2M\<rparr> else granule_at s q)" for q
    by (auto simp: granule_at_def t(1) nth_append)
  have fresh: "granule_at s ?p = None" by (simp add: granule_at_def)
  have dead: "?p \<notin> alive s R" using alive_granule [OF inv] fresh by fastforce
  then have ranp: "?p \<notin> ran (registry s)" "?p \<notin> R" "?p \<notin># H"
    using inv by (auto simp: alive_def granules_inv_def)
  have st: "start_of t q = (if q = ?p then index * SZ_2M else start_of s q)" for q
    by (simp add: start_of_def at)
  have al: "alive t R = insert ?p (alive s R)"
    using free by (simp add: alive_def t(2) ran_map_upd)
  have img: "start_of t ` alive s R = start_of s ` alive s R"
    by (rule image_cong) (use dead in \<open>auto simp: st\<close>)
  have "registered_ok t (add_mset ?p H) j q \<and> q \<notin> R" if "registry t j = Some q" for j q
  proof (cases "j = index")
    case True
    then show ?thesis using that bound ranp by (auto simp: registered_ok_def at t(2) count_eq_zero_iff)
  next
    case False
    then have "registry s j = Some q" using that by (simp add: t(2))
    then have "registered_ok s H j q \<and> q \<notin> R" "q \<noteq> ?p"
      using granules_inv_registered [OF inv] ranp(1) by (auto simp: ran_def)
    then show ?thesis by (auto simp: registered_ok_def at)
  qed
  moreover have "inj_on (start_of t) (alive t R)"
  proof -
    have "inj_on (start_of t) (alive s R)"
      using inv dead by (auto simp: granules_inv_def inj_on_def st)
    then show ?thesis
      using new inv dead by (auto simp: al img st granules_inv_def)
  qed
  moreover have "set_mset (add_mset ?p H) \<subseteq> ran (registry t)"
    using inv free by (auto simp: t(2) ran_map_upd granules_inv_def)
  moreover have "\<forall>q\<in>R. granule_at t q \<noteq> None"
    using inv by (auto simp: at granules_inv_def)
  moreover have "start_of t ` alive t R = insert (index * SZ_2M) (start_of s ` alive s R)"
    using img st [of ?p] by (simp add: al)
  ultimately show ?thesis
    using inv by (simp add: granules_inv_def t(3,4))
qed

lemma hyper_granule_get_spec:
  assumes "granules_inv s H R" and "exclusive_regions env" and "unat index < 2 ^ 43"
    and "size H < 2 ^ 32 - 1"
  shows "wp (hyper_granule_get env index) (get_post s H R index) s"
proof (cases "registry s index")
  case (Some p)
  then obtain g where g: "granule_at s p = Some g" "unat (users g) = count H p" "p \<in># H"
    using granules_inv_registered [OF assms(1)] by (auto simp: registered_ok_def)
  have "count H p < 2 ^ 32 - 1" using count_le_size [of H p] assms(4) by linarith
  then have "unat (users g + 1) = Suc (count H p)" using g(2) by (subst unat_add_le) simp_all
  then have "granules_inv (s\<lparr>heap := (heap s)[p := Some (g\<lparr>users := users g + 1\<rparr>)]\<rparr>) (add_mset p H) R"
    by (intro granules_inv_users [OF assms(1) g(1) Some]) simp_all
  then show ?thesis
    using Some g(1) by (simp add: hyper_granule_get_def wp_rules get_post_def fun_upd_idem)
next
  case None
  define start where "start = index * SZ_2M"
  have stay: "granules_inv t H R"
    if "registry t = registry s" "heap t = heap s" "claimed (kevents t) = claimed (kevents s)"
      "remapped (kevents t) = remapped (kevents s)" for t :: "'a granules_scheme"
    using granules_inv_calls [OF assms(1) that] .
  have same: "remapped (kevents s) = claimed (kevents s)" using assms(1) by (simp add: granules_inv_def)
  have new: "start \<notin> claimed (kevents s)" if "kret (env (kevents s @ [(Kzalloc, a)]) (Request_mem_region start)) \<noteq> 0" for a
    using that assms(2) by (auto simp: exclusive_regions_def)
  have grown: "granules_inv t (add_mset (length (heap s)) H) R"
    if "start \<notin> claimed (kevents s)" "heap t = heap s @ [Some \<lparr>users = 1, range_start = start\<rparr>]"
      "registry t = (registry s)(index \<mapsto> length (heap s))"
      "claimed (kevents t) = insert start (claimed (kevents s))"
      "remapped (kevents t) = insert start (remapped (kevents s))" for t :: "'a granules_scheme"
    using that granules_inv_new [OF assms(1) None assms(3)] unfolding start_def by blast
  show ?thesis
    unfolding hyper_granule_get_def Let_def wp_rules None option.case start_def [symmetric]
    using new by (auto simp: get_post_def same intro!: stay grown)
qed

section \<open>Releasing granules\<close>

lemma member_remove [simp]: "q \<noteq> p \<Longrightarrow> q \<in># H - {#p#} \<longleftrightarrow> q \<in># H"
  by (simp add: in_diff_count)

lemma granules_inv_detached:
  assumes inv: "granules_inv s H R" and g: "granule_at s p = Some g" and i: "registry s i = Some p"
    and one: "count H p = 1"
  shows "granules_inv (s\<lparr>heap := (heap s)[p := Some (g\<lparr>users := n\<rparr>)], registry := (registry s)(i := None)\<rparr>)
    (H - {#p#}) (insert p R)"
proof -
  let ?t = "s\<lparr>heap := (heap s)[p := Some (g\<lparr>users := n\<rparr>)], registry := (registry s)(i := None)\<rparr>"
  have st: "start_of ?t = start_of s"
    using g granule_at_Some [OF g] by (auto simp: start_of_def fun_eq_iff)
  have al: "alive ?t (insert p R) = alive s R"
  proof -
    have "ran ((registry s)(i := None)) \<union> {p} = ran (registry s)"
      using i by (force simp: ran_def)
    then show ?thesis by (auto simp: alive_def)
  qed
  have gone: "p \<notin># H - {#p#}" using one by (simp add: count_eq_zero_iff [symmetric])
  have reg: "registry s j = Some q" "q \<noteq> p" if "registry ?t j = Some q" for j q
    using that granules_inv_index [OF inv i] by (auto split: if_splits)
  have "registered_ok ?t (H - {#p#}) j q \<and> q \<notin> insert p R" if "registry ?t j = Some q" for j q
    using granules_inv_registered [OF inv reg(1) [OF that]] reg(2) [OF that]
    by (auto simp: registered_ok_def)
  moreover have "set_mset (H - {#p#}) \<subseteq> ran (registry ?t)"
  proof
    fix q assume q: "q \<in># H - {#p#}"
    then obtain j where "registry s j = Some q" using granules_inv_held [OF inv] in_diffD by metis
    moreover have "q \<noteq> p" using q gone by auto
    ultimately show "q \<in> ran (registry ?t)" using i by (auto simp: ran_def intro!: exI [of _ j])
  qed
  ultimately show ?thesis
    using inv g unfolding granules_inv_def st al by (auto simp: granule_at_Some [OF g])
qed

definition detach_post ::
    "'a granules_scheme \<Rightarrow> nat multiset \<Rightarrow> nat set \<Rightarrow> nat \<Rightarrow> bool \<Rightarrow> 'a granules_scheme \<Rightarrow> bool" where
  "detach_post s H R p final t \<longleftrightarrow> granules.more t = granules.more s \<and> kevents t = kevents s \<and>
     final = (count H p = 1) \<and> granules_inv t (H - {#p#}) (if final then insert p R else R)"

lemma detach_granule_spec:
  assumes inv: "granules_inv s H R" and p: "p \<in># H"
  shows "wp (detach_granule p) (detach_post s H R p) s"
proof -
  obtain i where i: "registry s i = Some p" using granules_inv_held [OF inv p] by blast
  then obtain g where g: "granule_at s p = Some g" "range_start g = i * SZ_2M" "unat (users g) = count H p"
      "unat i < 2 ^ 43"
    using granules_inv_registered [OF inv] by (auto simp: registered_ok_def)
  have c: "0 < count H p" using p by (simp add: count_greater_zero_iff)
  then have n: "unat (users g - 1) = count H p - 1" using g(3) by (subst unat_sub_le) simp_all
  then have z: "users g - 1 = 0 \<longleftrightarrow> count H p = 1"
    using c by (simp only: unsigned_eq_0_iff [symmetric, where 'a = nat]) linarith
  show ?thesis
  proof (cases "count H p = 1")
    case True
    then show ?thesis
      using granules_inv_detached [OF inv g(1) i True, of "users g - 1"] g z granule_start_div [OF g(4)]
      by (simp add: detach_granule_def wp_rules detach_post_def)
  next
    case False
    then have more: "Suc 0 < count H p" using c by linarith
    have "granules_inv (s\<lparr>heap := (heap s)[p := Some (g\<lparr>users := users g - 1\<rparr>)]\<rparr>) (H - {#p#}) R"
      by (rule granules_inv_users [OF inv g(1) i]) (use n more in \<open>simp_all add: in_diff_count\<close>)
    with False z g(1) show ?thesis by (simp add: detach_granule_def wp_rules detach_post_def)
  qed
qed

lemma granules_inv_retired:
  assumes inv: "granules_inv s H R" and p: "p \<in> R" and g: "granule_at s p = Some g"
    and t: "heap t = (heap s)[p := None]" "registry t = registry s"
      "claimed (kevents t) = claimed (kevents s) - {range_start g}"
      "remapped (kevents t) = remapped (kevents s) - {range_start g}"
  shows "granules_inv t H (R - {p})"
proof -
  have at: "granule_at t q = (if q = p then None else granule_at s q)" for q
    using granule_at_Some [OF g] by (auto simp: granule_at_def t(1))
  have reg: "p \<notin> ran (registry s)" using inv p by (auto simp: granules_inv_def ran_def)
  have al: "alive t (R - {p}) = alive s R - {p}" using reg by (auto simp: alive_def t(2))
  have st: "start_of t q = start_of s q" if "q \<noteq> p" for q using that by (simp add: start_of_def at)
  have "start_of s p = range_start g" using g by (simp add: start_of_def)
  then have img: "start_of t ` alive t (R - {p}) = start_of s ` alive s R - {range_start g}"
  proof -
    assume sp: "start_of s p = range_start g"
    have "start_of t ` (alive s R - {p}) = start_of s ` (alive s R - {p})"
      by (rule image_cong) (simp_all add: st)
    also have "\<dots> = start_of s ` alive s R - start_of s ` {p}"
      by (rule inj_on_image_set_diff [where C = "alive s R"]) (use inv p in \<open>auto simp: granules_inv_def alive_def\<close>)
    finally show ?thesis using sp by (simp add: al)
  qed
  have "registered_ok t H j q \<and> q \<notin> R - {p}" if "registry t j = Some q" for j q
  proof -
    have "registry s j = Some q" "q \<noteq> p" using that reg by (auto simp: t(2) ran_def)
    then show ?thesis using granules_inv_registered [OF inv] by (auto simp: registered_ok_def at)
  qed
  moreover have "inj_on (start_of t) (alive t (R - {p}))"
    using inv by (auto simp: al inj_on_def st granules_inv_def)
  ultimately show ?thesis
    using inv img by (auto simp: granules_inv_def t(2,3,4) at)
qed

definition flush_post ::
    "'a granules_scheme \<Rightarrow> nat multiset \<Rightarrow> nat set \<Rightarrow> nat \<Rightarrow> 'a granules_scheme \<Rightarrow> bool" where
  "flush_post s H R p t \<longleftrightarrow> granules.more t = granules.more s \<and> granules_inv t H (R - {p})"

lemma flush_granule_spec:
  assumes "granules_inv s H R" and "p \<in> R"
  shows "wp (flush_granule env p) (\<lambda>_. flush_post s H R p) s"
proof -
  obtain g where g: "granule_at s p = Some g" using assms by (auto simp: granules_inv_def)
  then show ?thesis
    unfolding flush_granule_def granule_retire_def wp_rules g option.case
    by (auto simp: flush_post_def intro!: granules_inv_retired [OF assms g])
qed

definition detached_post ::
    "'a granules_scheme \<Rightarrow> nat multiset \<Rightarrow> nat set \<Rightarrow> nat list \<Rightarrow> nat list \<Rightarrow> 'a granules_scheme \<Rightarrow> bool" where
  "detached_post s H R ps qs t \<longleftrightarrow> granules.more t = granules.more s \<and> kevents t = kevents s \<and>
     distinct qs \<and> set qs \<inter> R = {} \<and> set qs \<subseteq> set ps \<and> granules_inv t (H - mset ps) (R \<union> set qs)"

lemma granules_inv_disjoint: "granules_inv s H R \<Longrightarrow> p \<in># H \<Longrightarrow> p \<notin> R"
  using granules_inv_held granules_inv_registered by blast

lemma detach_granules_spec:
  assumes "granules_inv s H R" and "mset ps \<subseteq># H"
  shows "wp (detach_granules ps) (detached_post s H R ps) s"
  using assms
proof (induction ps arbitrary: s H R)
  case Nil
  then show ?case by (simp add: wp_rules detached_post_def)
next
  case (Cons p ps)
  have p: "p \<in># H" and ps: "mset ps \<subseteq># H - {#p#}"
    using Cons.prems(2) by (auto simp: insert_subset_eq_iff)
  have pR: "p \<notin> R" using granules_inv_disjoint [OF Cons.prems(1) p] .
  have step: "detached_post s H R (p # ps) (if final then p # qs else qs) u"
    if d: "detach_post s H R p final t" and q: "detached_post t (H - {#p#}) (if final then insert p R else R) ps qs u"
    for final t qs u
  proof (cases final)
    case True
    then have "p \<notin> set qs" using q by (auto simp: detached_post_def)
    then show ?thesis using True d q pR by (auto simp: detached_post_def detach_post_def insert_commute)
  next
    case False
    then show ?thesis using d q by (auto simp: detached_post_def detach_post_def)
  qed
  have "wp (detach_granules ps) (\<lambda>qs u. detached_post s H R (p # ps) (if final then p # qs else qs) u) t"
    if "detach_post s H R p final t" for final t
    by (rule wp_mono [OF Cons.IH [where H = "H - {#p#}" and R = "if final then insert p R else R"]])
       (use that ps step in \<open>auto simp: detach_post_def\<close>)
  then have "wp (detach_granule p) (\<lambda>final. wp (detach_granules ps)
      (\<lambda>qs u. detached_post s H R (p # ps) (if final then p # qs else qs) u)) s"
    using detach_granule_spec [OF Cons.prems(1) p] by (rule wp_mono [rotated])
  then show ?case by (simp add: wp_rules)
qed

definition put_post :: "'a granules_scheme \<Rightarrow> nat multiset \<Rightarrow> nat set \<Rightarrow> 'a granules_scheme \<Rightarrow> bool" where
  "put_post s H R t \<longleftrightarrow> granules.more t = granules.more s \<and> granules_inv t H R"

lemma put_post_trans: "put_post s H R t \<Longrightarrow> put_post t H' R' u \<Longrightarrow> put_post s H' R' u"
  by (simp add: put_post_def)

lemma flush_granules_spec:
  assumes "granules_inv s H (R \<union> set ps)" and "distinct ps" and "set ps \<inter> R = {}"
  shows "wp (for_each (flush_granule env) ps) (\<lambda>_. put_post s H R) s"
  using assms
proof (induction ps arbitrary: s)
  case Nil
  then show ?case by (simp add: wp_rules put_post_def)
next
  case (Cons p ps)
  have r: "R \<union> set (p # ps) - {p} = R \<union> set ps" using Cons.prems by auto
  have "wp (for_each (flush_granule env) ps) (\<lambda>_. put_post s H R) t"
    if "flush_post s H (R \<union> set (p # ps)) p t" for t
    by (rule wp_mono [OF Cons.IH])
       (use that Cons.prems r in \<open>auto simp: flush_post_def put_post_def\<close>)
  then have "wp (flush_granule env p) (\<lambda>_. wp (for_each (flush_granule env) ps) (\<lambda>_. put_post s H R)) s"
    using flush_granule_spec [OF Cons.prems(1), of p env] by (auto elim!: wp_mono)
  then show ?case by (simp add: wp_rules)
qed

lemma put_batch_spec:
  assumes "granules_inv s H R" and "mset ps \<subseteq># H"
  shows "wp (put_batch env ps) (\<lambda>_. put_post s (H - mset ps) R) s"
proof -
  have queue: "wp (for_each (\<lambda>p. do { kcall env (Queue_work p); State_Monad.return () }) qs)
      (\<lambda>_. put_post s (H - mset ps) (R \<union> set rs)) t"
    if "put_post s (H - mset ps) (R \<union> set rs) t" for qs rs and t :: "'a granules_scheme"
  proof (rule wp_for_each)
    show "put_post s (H - mset ps) (R \<union> set rs) t" by (rule that)
  next
    fix p and u :: "'a granules_scheme"
    assume "put_post s (H - mset ps) (R \<union> set rs) u"
    then show "wp (do { kcall env (Queue_work p); State_Monad.return () })
        (\<lambda>_. put_post s (H - mset ps) (R \<union> set rs)) u"
      by (auto simp: wp_rules put_post_def intro: granules_inv_calls)
  qed
  have flush: "wp (for_each (flush_granule env) qs) (\<lambda>_. put_post s (H - mset ps) R) u"
    if "put_post s (H - mset ps) (R \<union> set qs) u" "distinct qs" "set qs \<inter> R = {}"
    for qs and u :: "'a granules_scheme"
    by (rule wp_mono [OF flush_granules_spec]) (use that in \<open>auto simp: put_post_def\<close>)
  have "wp (for_each (\<lambda>p. do { kcall env (Queue_work p); State_Monad.return () }) qs)
      (\<lambda>_. wp (for_each (flush_granule env) qs) (\<lambda>_. put_post s (H - mset ps) R)) t"
    if "detached_post s H R ps qs t" for qs t
    by (rule wp_mono [OF queue [where rs = qs]]) (use that flush in \<open>auto simp: detached_post_def put_post_def\<close>)
  then show ?thesis
    unfolding put_batch_def wp_rules
    using detach_granules_spec [OF assms] by (auto elim!: wp_mono)
qed

lemma hyper_granules_put_spec:
  assumes "granules_inv s H R" and "mset ps \<subseteq># H"
  shows "wp (hyper_granules_put env ps) (\<lambda>_. put_post s (H - mset ps) R) s"
  using assms
proof (induction ps arbitrary: s H rule: length_induct)
  case (1 ps)
  let ?a = "take HYPER_GRANULE_RETIRE_BATCH ps" and ?b = "drop HYPER_GRANULE_RETIRE_BATCH ps"
  have m: "mset ps = mset ?a + mset ?b" by (metis append_take_drop_id mset_append)
  have sub: "mset ?a \<subseteq># H" "mset ?b \<subseteq># H - mset ?a"
  proof -
    have "count (mset ?a) x + count (mset ?b) x \<le> count H x" for x
      using "1.prems"(2) by (simp only: m subseteq_mset_def count_union)
    then have "count (mset ?a) x \<le> count H x" "count (mset ?b) x \<le> count H x - count (mset ?a) x" for x
      by (metis add_leD1, metis add_le_imp_le_diff add.commute)
    then show "mset ?a \<subseteq># H" "mset ?b \<subseteq># H - mset ?a"
      by (simp_all only: subseteq_mset_def count_diff simp_thms)
  qed
  show ?case
  proof (cases "ps = []")
    case True
    then show ?thesis using "1.prems" by (simp add: hyper_granules_put.simps wp_rules put_post_def)
  next
    case False
    have "wp (hyper_granules_put env ?b) (\<lambda>_. put_post s (H - mset ps) R) t"
      if "put_post s (H - mset ?a) R t" for t
    proof -
      have "wp (hyper_granules_put env ?b) (\<lambda>_. put_post t (H - mset ?a - mset ?b) R) t"
        by (rule "1.IH" [rule_format]) (use that False sub(2) in \<open>simp_all add: put_post_def\<close>)
      then show ?thesis by (rule wp_mono) (use that in \<open>auto simp: put_post_def m\<close>)
    qed
    then have "wp (put_batch env ?a) (\<lambda>_. wp (hyper_granules_put env ?b) (\<lambda>_. put_post s (H - mset ps) R)) s"
      by (intro wp_mono [OF put_batch_spec [OF "1.prems"(1) sub(1)]])
    then show ?thesis using False by (subst hyper_granules_put.simps) (simp add: wp_rules)
  qed
qed

section \<open>Interleaved holders\<close>

text \<open>
  All that any number of threads can do to the registry: acquire a granule, drop an acquired one in a
  locked pass, hand a detached one to the work queue, and complete its retirement. The passes of
  \<open>hyper_granules_put\<close> are runs of these steps with any other steps between them.
\<close>

inductive granule_step ::
    "kenv \<Rightarrow> granules \<times> nat multiset \<times> nat set \<Rightarrow> granules \<times> nat multiset \<times> nat set \<Rightarrow> bool"
  for env where
  acquire: "run_state (hyper_granule_get env index) s = (Inr p, t) \<Longrightarrow> unat index < 2 ^ 43 \<Longrightarrow>
     size H < 2 ^ 32 - 1 \<Longrightarrow> granule_step env (s, H, R) (t, add_mset p H, R)"
| refused: "run_state (hyper_granule_get env index) s = (Inl e, t) \<Longrightarrow> unat index < 2 ^ 43 \<Longrightarrow>
     size H < 2 ^ 32 - 1 \<Longrightarrow> granule_step env (s, H, R) (t, H, R)"
| detach: "p \<in># H \<Longrightarrow> run_state (detach_granule p) s = (final, t) \<Longrightarrow>
     granule_step env (s, H, R) (t, H - {#p#}, if final then insert p R else R)"
| queue: "p \<in> R \<Longrightarrow> granule_step env (s, H, R) (kcalled env (Queue_work p) s, H, R)"
| retire: "p \<in> R \<Longrightarrow> run_state (flush_granule env p) s = (u, t) \<Longrightarrow>
     granule_step env (s, H, R) (t, H, R - {p})"

inductive_cases granule_stepE: "granule_step env c d"

definition empty_registry :: granules where
  "empty_registry = \<lparr>kevents = [], heap = [], registry = (\<lambda>_. None)\<rparr>"

lemma empty_registry_inv: "granules_inv empty_registry {#} {}"
  by (simp add: granules_inv_def empty_registry_def alive_def claimed_def remapped_def)

lemma granule_step_inv:
  assumes "granule_step env (s, H, R) (t, H', R')" and "exclusive_regions env" and "granules_inv s H R"
  shows "granules_inv t H' R'"
  using assms(1)
proof cases
  case (acquire index p)
  then have "get_post s H R index (Inr p) t"
    by (intro wp_runD [OF hyper_granule_get_spec [OF assms(3,2)]])
  then show ?thesis using acquire(1,2) by (simp add: get_post_def)
next
  case (refused index e)
  then have "get_post s H R index (Inl e) t"
    by (intro wp_runD [OF hyper_granule_get_spec [OF assms(3,2)]])
  then show ?thesis using refused(1,2) by (simp add: get_post_def)
next
  case (detach p final)
  then show ?thesis
    using wp_runD [OF detach_granule_spec [OF assms(3)]] by (auto simp: detach_post_def)
next
  case (queue p)
  then show ?thesis using assms(3) by (auto intro: granules_inv_calls)
next
  case (retire p u)
  then show ?thesis
    using wp_runD [OF flush_granule_spec [OF assms(3)]] by (auto simp: flush_post_def)
qed

lemma granules_reachable_inv:
  assumes "(granule_step env)\<^sup>*\<^sup>* (empty_registry, {#}, {}) (s, H, R)" and "exclusive_regions env"
  shows "granules_inv s H R"
proof -
  have "case c of (s, H, R) \<Rightarrow> granules_inv s H R"
    if "(granule_step env)\<^sup>*\<^sup>* (empty_registry, {#}, {}) c" for c
    using that
  proof (induction rule: rtranclp_induct)
    case base
    then show ?case by (simp add: empty_registry_inv)
  next
    case (step c d)
    then show ?case using granule_step_inv [OF _ assms(2)] by (cases c, cases d) auto
  qed
  from this [OF assms(1)] show ?thesis by simp
qed

section \<open>What the registry stands for\<close>

text \<open>
  Abstractly the registry is the multiset of the granule indices that are held: an index is
  registered exactly if it is held, and its user count is its multiplicity.
\<close>

definition held_indices :: "'a granules_scheme \<Rightarrow> nat multiset \<Rightarrow> u64 multiset" where
  "held_indices s H = image_mset (\<lambda>p. start_of s p div SZ_2M) H"

lemma registered_index:
  "granules_inv s H R \<Longrightarrow> registry s i = Some p \<Longrightarrow> start_of s p div SZ_2M = i"
  using granules_inv_registered [of s H R i p] granule_start_div [of i]
  by (auto simp: registered_ok_def start_of_def)

lemma held_indices_count:
  assumes "granules_inv s H R" and "registry s i = Some p"
  shows "count (held_indices s H) i = count H p"
proof -
  have "start_of s q div SZ_2M = i \<longleftrightarrow> q = p" if "q \<in># H" for q
    using granules_inv_held [OF assms(1) that] registered_index [OF assms(1)] assms(2)
    by (metis option.inject)
  then have "{q \<in> set_mset H. i = start_of s q div SZ_2M} = {p} \<inter> set_mset H" by auto
  then have "count (held_indices s H) i = sum (count H) ({p} \<inter> set_mset H)"
    by (simp add: held_indices_def count_image_mset')
  then show ?thesis by (cases "p \<in># H") (simp_all add: not_in_iff)
qed

lemma held_indices_registered:
  assumes "granules_inv s H R"
  shows "i \<in># held_indices s H \<longleftrightarrow> registry s i \<noteq> None"
proof
  assume "i \<in># held_indices s H"
  then obtain p where p: "p \<in># H" "i = start_of s p div SZ_2M" by (auto simp: held_indices_def)
  with granules_inv_held [OF assms] registered_index [OF assms] show "registry s i \<noteq> None" by fastforce
next
  assume "registry s i \<noteq> None"
  then obtain p where "registry s i = Some p" by auto
  then have "0 < count (held_indices s H) i"
    using held_indices_count [OF assms] granules_inv_registered [OF assms]
    by (simp add: registered_ok_def)
  then show "i \<in># held_indices s H" by (simp add: count_greater_zero_iff)
qed

section \<open>Objects keep their place\<close>

text \<open>Whatever happens, an object that still exists describes the same region as before.\<close>

definition starts_kept :: "'a granules_scheme \<Rightarrow> 'a granules_scheme \<Rightarrow> bool" where
  "starts_kept s t \<longleftrightarrow> length (heap s) \<le> length (heap t) \<and>
     (\<forall>p g. p < length (heap s) \<longrightarrow> granule_at t p = Some g \<longrightarrow>
        (\<exists>g'. granule_at s p = Some g' \<and> range_start g' = range_start g))"

lemma starts_kept_refl [simp]: "starts_kept s s"
  by (simp add: starts_kept_def)

lemma starts_kept_kcalled [simp]: "starts_kept s (kcalled env c t) \<longleftrightarrow> starts_kept s t"
  by (simp add: starts_kept_def)

lemma starts_kept_set:
  "starts_kept s t \<Longrightarrow> granule_at t p = Some g \<Longrightarrow> range_start g' = range_start g \<Longrightarrow>
     starts_kept s (t\<lparr>heap := (heap t)[p := Some g']\<rparr>)"
  "starts_kept s t \<Longrightarrow> h' = (heap t)[p := None] \<Longrightarrow> starts_kept s (t\<lparr>heap := h'\<rparr>)"
  "starts_kept s (t\<lparr>registry := r\<rparr>) \<longleftrightarrow> starts_kept s t"
  by (auto simp: starts_kept_def split: if_splits)

lemma starts_kept_new:
  "starts_kept s t \<Longrightarrow> h = heap t @ [x] \<Longrightarrow> starts_kept s (t\<lparr>heap := h\<rparr>)"
  by (auto simp: starts_kept_def granule_at_def nth_append)

lemma starts_kept_get: "starts_kept s t \<Longrightarrow> wp (hyper_granule_get env index) (\<lambda>_. starts_kept s) t"
proof -
  assume "starts_kept s t"
  then have "starts_kept s (t\<lparr>heap := (heap t)[p := map_option (\<lambda>g. g\<lparr>users := users g + 1\<rparr>) (granule_at t p)]\<rparr>)" for p
    by (cases "granule_at t p") (simp_all add: starts_kept_set)
  with \<open>starts_kept s t\<close> show ?thesis
    unfolding hyper_granule_get_def Let_def
    by (auto simp: wp_rules starts_kept_set starts_kept_new split: option.split)
qed

lemma starts_kept_detach: "starts_kept s t \<Longrightarrow> wp (detach_granule p) (\<lambda>_. starts_kept s) t"
  unfolding detach_granule_def by (auto simp: wp_rules starts_kept_set split: option.split)

lemma starts_kept_flush: "starts_kept s t \<Longrightarrow> wp (flush_granule env p) (\<lambda>_. starts_kept s) t"
  unfolding flush_granule_def granule_retire_def
  by (auto simp: wp_rules starts_kept_set split: option.split)

lemma starts_kept_detach_all: "starts_kept s t \<Longrightarrow> wp (detach_granules ps) (\<lambda>_. starts_kept s) t"
proof (induction ps arbitrary: t)
  case (Cons p ps)
  have "wp (detach_granule p) (\<lambda>_. wp (detach_granules ps) (\<lambda>_. starts_kept s)) t"
    by (rule wp_mono [OF starts_kept_detach [OF Cons.prems]]) (rule Cons.IH)
  then show ?case by (simp add: wp_rules)
qed (simp add: wp_rules)

lemma starts_kept_batch:
  assumes "starts_kept s t"
  shows "wp (put_batch env ps) (\<lambda>_. starts_kept s) t"
proof -
  have queue: "wp (for_each (\<lambda>p. do { kcall env (Queue_work p); State_Monad.return () }) qs) (\<lambda>_. starts_kept s) u"
    if "starts_kept s u" for qs and u :: "'a granules_scheme"
    using that by (intro wp_for_each) (simp_all add: wp_rules)
  have flush: "wp (for_each (flush_granule env) qs) (\<lambda>_. starts_kept s) u"
    if "starts_kept s u" for qs and u :: "'a granules_scheme"
    using that by (intro wp_for_each) (simp_all add: starts_kept_flush)
  show ?thesis
    unfolding put_batch_def wp_rules
    by (rule wp_mono [OF starts_kept_detach_all [OF assms]], rule wp_mono [OF queue], assumption, rule flush)
qed

lemma starts_kept_put: "starts_kept s t \<Longrightarrow> wp (hyper_granules_put env ps) (\<lambda>_. starts_kept s) t"
proof (induction ps arbitrary: t rule: length_induct)
  case (1 ps)
  have "wp (hyper_granules_put env (drop HYPER_GRANULE_RETIRE_BATCH ps)) (\<lambda>_. starts_kept s) u"
    if "starts_kept s u" "ps \<noteq> []" for u
    by (rule "1.IH" [rule_format]) (use that in simp_all)
  then show ?case
    using "1.prems" by (subst hyper_granules_put.simps)
      (auto simp: wp_rules intro!: wp_mono [OF starts_kept_batch [OF "1.prems"]])
qed

lemma granules_inv_start:
  assumes "granules_inv s H R" and "granules_inv t H' R'" and "starts_kept s t" and "p \<in># H" and "p \<in># H'"
  shows "start_of t p = start_of s p"
proof -
  obtain g g' where "granule_at s p = Some g" "granule_at t p = Some g'"
    using granules_inv_held [OF assms(1,4)] granules_inv_held [OF assms(2,5)]
      granules_inv_registered [OF assms(1)] granules_inv_registered [OF assms(2)]
    by (fastforce simp: registered_ok_def)
  with assms(3) show ?thesis
    using granule_at_Some [of s p g] by (auto simp: starts_kept_def start_of_def)
qed

section \<open>The interface to the grants\<close>

text \<open>
  What a grant relies on: acquiring a granule either fails without effect or adds one holder of the
  granule of the requested index, and giving granules back removes exactly those holders.
\<close>

locale granule_supply =
  fixes ok :: "kenv \<Rightarrow> bool"
    and acquire :: "kenv \<Rightarrow> u64 \<Rightarrow> ('a granules_scheme, int + nat) state"
    and give_back :: "kenv \<Rightarrow> nat list \<Rightarrow> ('a granules_scheme, unit) state"
    and inv :: "'a granules_scheme \<Rightarrow> nat multiset \<Rightarrow> 'r \<Rightarrow> bool"
    and index_of :: "'a granules_scheme \<Rightarrow> nat \<Rightarrow> u64"
  assumes acquire_law: "inv s H R \<Longrightarrow> ok env \<Longrightarrow> unat index < 2 ^ 43 \<Longrightarrow> size H < 2 ^ 32 - 1 \<Longrightarrow>
      wp (acquire env index) (\<lambda>r t. granules.more t = granules.more s \<and> (\<forall>p\<in>#H. index_of t p = index_of s p) \<and>
        (case r of
           Inl e \<Rightarrow> e \<noteq> 0 \<and> inv t H R
         | Inr p \<Rightarrow> inv t (add_mset p H) R \<and> index_of t p = index)) s"
    and give_back_law: "inv s H R \<Longrightarrow> mset ps \<subseteq># H \<Longrightarrow>
      wp (give_back env ps) (\<lambda>_ t. granules.more t = granules.more s \<and> inv t (H - mset ps) R \<and>
        (\<forall>p\<in>#H - mset ps. index_of t p = index_of s p)) s"

definition granule_index :: "'a granules_scheme \<Rightarrow> nat \<Rightarrow> u64" where
  "granule_index s p = start_of s p div SZ_2M"

lemma granule_acquire_law:
  assumes "granules_inv s H R" and "exclusive_regions env" and "unat index < 2 ^ 43" and "size H < 2 ^ 32 - 1"
  shows "wp (hyper_granule_get env index) (\<lambda>r t. granules.more t = granules.more s \<and>
     (\<forall>p\<in>#H. granule_index t p = granule_index s p) \<and>
     (case r of
        Inl e \<Rightarrow> e \<noteq> 0 \<and> granules_inv t H R
      | Inr p \<Rightarrow> granules_inv t (add_mset p H) R \<and> granule_index t p = index)) s"
proof (rule wp_mono [OF wp_conj [OF hyper_granule_get_spec [OF assms] starts_kept_get [OF starts_kept_refl]]])
  fix r t assume "get_post s H R index r t \<and> starts_kept s t"
  then show "granules.more t = granules.more s \<and> (\<forall>p\<in>#H. granule_index t p = granule_index s p) \<and>
     (case r of
        Inl e \<Rightarrow> e \<noteq> 0 \<and> granules_inv t H R
      | Inr p \<Rightarrow> granules_inv t (add_mset p H) R \<and> granule_index t p = index)"
    using granules_inv_start [OF assms(1)] registered_index [of t _ R index]
    by (auto simp: get_post_def granule_index_def split: sum.splits)
qed

interpretation granule_registry:
  granule_supply exclusive_regions hyper_granule_get hyper_granules_put granules_inv granule_index
proof unfold_locales
  show "wp (hyper_granules_put env ps) (\<lambda>_ t. granules.more t = granules.more s \<and> granules_inv t (H - mset ps) R \<and>
      (\<forall>p\<in>#H - mset ps. granule_index t p = granule_index s p)) s"
    if "granules_inv s H R" "mset ps \<subseteq># H" for s :: "'a granules_scheme" and H R env ps
    by (rule wp_mono [OF wp_conj [OF hyper_granules_put_spec [OF that] starts_kept_put [OF starts_kept_refl]]])
       (use granules_inv_start [OF that(1)] in_diffD in \<open>fastforce simp: put_post_def granule_index_def\<close>)
qed (rule granule_acquire_law)


section \<open>The last holder\<close>

lemma starts_kept_alive:
  assumes "starts_kept s t" and "granules_inv s H R" and "granules_inv t H' R'" and "p \<in> alive s R" and "p \<in> alive t R'"
  shows "start_of t p = start_of s p"
proof -
  obtain g g' where "granule_at s p = Some g" "granule_at t p = Some g'"
    using alive_granule [OF assms(2,4)] alive_granule [OF assms(3,5)] by blast
  with assms(1) show ?thesis
    using granule_at_Some [of s p g] by (auto simp: starts_kept_def start_of_def)
qed

text \<open>A granule given back for the last time: it is neither registered, nor claimed, nor mapped.\<close>

lemma put_retires:
  assumes "granules_inv s H R" and "mset ps \<subseteq># H" and "p \<in># H" and "p \<notin># H - mset ps"
  shows "wp (hyper_granules_put env ps) (\<lambda>_ t. registry t (granule_index s p) = None \<and>
    start_of s p \<notin> claimed (kevents t) \<and> start_of s p \<notin> remapped (kevents t)) s"
proof (rule wp_mono [OF wp_conj [OF hyper_granules_put_spec [OF assms(1,2)] starts_kept_put [OF starts_kept_refl]]])
  fix u t assume "put_post s (H - mset ps) R t \<and> starts_kept s t"
  then have inv: "granules_inv t (H - mset ps) R" and kept: "starts_kept s t" by (simp_all add: put_post_def)
  have ran: "ran (registry x) = set_mset K" if "granules_inv x K R" for x :: "'a granules_scheme" and K
    using that by (auto simp: granules_inv_def registered_ok_def ran_def)
  have sub: "alive t R \<subseteq> alive s R"
    using ran [OF assms(1)] ran [OF inv] by (auto simp: alive_def dest: in_diffD)
  have p: "p \<in> alive s R" "p \<notin> alive t R"
    using ran [OF assms(1)] ran [OF inv] assms(3,4) granules_inv_disjoint [OF assms(1,3)]
    by (auto simp: alive_def)
  have same: "start_of t q = start_of s q" if "q \<in> alive t R" for q
    using starts_kept_alive [OF kept assms(1) inv] sub that by auto
  have "inj_on (start_of s) (alive s R)" using assms(1) by (simp add: granules_inv_def)
  then have fresh: "start_of s p \<notin> start_of t ` alive t R"
    using p sub same by (auto simp: inj_on_def)
  moreover have "registry t (granule_index s p) = None"
  proof (rule ccontr)
    assume "registry t (granule_index s p) \<noteq> None"
    then obtain q where q: "registry t (granule_index s p) = Some q" by auto
    have "start_of t q = granule_index s p * SZ_2M"
      using granules_inv_registered [OF inv q] by (auto simp: registered_ok_def start_of_def)
    moreover obtain i where i: "registry s i = Some p" using granules_inv_held [OF assms(1,3)] by auto
    have "start_of s p = i * SZ_2M"
      using granules_inv_registered [OF assms(1) i] by (auto simp: registered_ok_def start_of_def)
    moreover have "granule_index s p = i" using registered_index [OF assms(1) i] by (simp add: granule_index_def)
    moreover have "q \<in> alive t R" using q by (auto simp: alive_def ran_def)
    ultimately show False using fresh by (metis image_eqI)
  qed
  ultimately show "registry t (granule_index s p) = None \<and>
      start_of s p \<notin> claimed (kevents t) \<and> start_of s p \<notin> remapped (kevents t)"
    using inv by (simp add: granules_inv_def)
qed


lemma held_indices_eq: "held_indices s H = image_mset (granule_index s) H"
  by (simp add: held_indices_def granule_index_def [abs_def])

end
