(* ===== verification/Guest_Memory.thy ===== *)
theory Guest_Memory
  imports Granules Protocol Layout Text
begin

text \<open>
  \<open>modules/guest-memory/memory.c\<close>: the character device through which a service maps the memory of
  its guest. A static pool is a fixed range of reserved pages; a dynamic device owns an address
  aperture, and a grant fills it with a page array whose granules are taken from the registry. The
  lemmas show that a grant is published completely or not at all, that the device holds the granules
  of every page it can map, that a mapping never outlives them, and that a probe leaks no page.
\<close>

section \<open>State\<close>

record hyper_guest_memory =
  gm_name :: string
  gm_references :: u32
  gm_first_pfn :: u64
  gm_pages :: u64
  gm_live :: bool
  gm_dynamic :: bool
  gm_opened :: bool
  gm_vmas :: u32
  gm_aperture_start :: u64
  gm_aperture_end :: u64
  gm_pfns :: "u64 list option"
  gm_granules :: "nat list"
  gm_guest_base :: u64

text \<open>One device and the registry it shares with all others; \<open>gm_freed\<close> once the object is freed.\<close>

record guest = granules +
  dev :: hyper_guest_memory
  gm_freed :: bool

definition modify_dev :: "(hyper_guest_memory \<Rightarrow> hyper_guest_memory) \<Rightarrow> (guest, unit) state" where
  "modify_dev f = State_Monad.update (\<lambda>s. s\<lparr>dev := f (dev s)\<rparr>)"

section \<open>Teardown\<close>

definition hyper_memory_unprepare :: "kenv \<Rightarrow> (guest, unit) state" where
  "hyper_memory_unprepare env = do {
     s \<leftarrow> State_Monad.get;
     hyper_granules_put env (gm_granules (dev s));
     modify_dev (\<lambda>d. d\<lparr>gm_granules := [], gm_pfns := None\<rparr>);
     modify_dev (\<lambda>d. if gm_dynamic d then d\<lparr>gm_first_pfn := 0, gm_pages := 0\<rparr> else d) }"

definition hyper_memory_destroy :: "kenv \<Rightarrow> (guest, unit) state" where
  "hyper_memory_destroy env = do {
     hyper_memory_unprepare env;
     s \<leftarrow> State_Monad.get;
     for_each (\<lambda>i. do { kcall env (Put_page (gm_first_pfn (dev s) + of_nat i)); State_Monad.return () })
       (if gm_dynamic (dev s) then [] else [0..<unat (gm_pages (dev s))]);
     State_Monad.update (\<lambda>s. s\<lparr>gm_freed := True\<rparr>) }"

definition memory_put :: "kenv \<Rightarrow> (guest, unit) state" where
  "memory_put env = do {
     modify_dev (\<lambda>d. d\<lparr>gm_references := gm_references d - 1\<rparr>);
     s \<leftarrow> State_Monad.get;
     if gm_references (dev s) = 0 then hyper_memory_destroy env else State_Monad.return () }"

section \<open>File operations\<close>

definition hyper_memory_open :: "(guest, int) state" where
  "hyper_memory_open = do {
     s \<leftarrow> State_Monad.get;
     let d = dev s;
     if \<not> gm_live d then State_Monad.return (- ENODEV)
     else if gm_dynamic d \<and> gm_opened d then State_Monad.return (- EBUSY)
     else do {
       modify_dev (\<lambda>d. d\<lparr>gm_references := gm_references d + 1, gm_opened := True\<rparr>);
       State_Monad.return 0 } }"

definition hyper_memory_release :: "kenv \<Rightarrow> (guest, int) state" where
  "hyper_memory_release env = do {
     s \<leftarrow> State_Monad.get;
     (if gm_dynamic (dev s) then hyper_memory_unprepare env else State_Monad.return ());
     modify_dev (\<lambda>d. d\<lparr>gm_opened := False\<rparr>);
     memory_put env;
     State_Monad.return 0 }"

definition hyper_vma_open :: "(guest, unit) state" where
  "hyper_vma_open = modify_dev (\<lambda>d. d\<lparr>gm_vmas := gm_vmas d + 1\<rparr>)"

definition hyper_vma_close :: "(guest, unit) state" where
  "hyper_vma_close = modify_dev (\<lambda>d. d\<lparr>gm_vmas := gm_vmas d - 1\<rparr>)"

text \<open>The fields of \<open>vm_area_struct\<close> the driver reads; \<open>vm_count\<close> is \<open>vma_pages(vma)\<close>.\<close>

record vm_area =
  vm_shared :: bool
  vm_exec :: bool
  vm_start :: u64
  vm_pgoff :: u64
  vm_count :: u64

definition page_of :: "hyper_guest_memory \<Rightarrow> u64 \<Rightarrow> u64" where
  "page_of d index =
     (if gm_dynamic d then (case gm_pfns d of Some ps \<Rightarrow> ps ! unat index | None \<Rightarrow> 0)
      else gm_first_pfn d + index)"

definition hyper_memory_mmap :: "kenv \<Rightarrow> vm_area \<Rightarrow> (guest, int) state" where
  "hyper_memory_mmap env vma =
     (if \<not> vm_shared vma \<or> vm_exec vma then State_Monad.return (- EINVAL)
      else do {
        s \<leftarrow> State_Monad.get;
        let d = dev s;
        if vm_pgoff vma \<ge> gm_pages d \<or> vm_count vma > gm_pages d - vm_pgoff vma
        then State_Monad.return (- EINVAL)
        else if \<not> gm_live d then State_Monad.return (- ENODEV)
        else do {
          r \<leftarrow> for_return (\<lambda>i. do {
              a \<leftarrow> kcall env (Vm_insert_page (vm_start vma + push_bit 12 (of_nat i))
                (page_of d (vm_pgoff vma + of_nat i)));
              State_Monad.return (if kret a \<noteq> 0 then Some (kret a) else None) })
            [0..<unat (vm_count vma)];
          (case r of
             Some e \<Rightarrow> State_Monad.return e
           | None \<Rightarrow> do {
               modify_dev (\<lambda>d. d\<lparr>gm_vmas := gm_vmas d + 1\<rparr>);
               State_Monad.return 0 }) } })"

section \<open>Preparing a grant\<close>

text \<open>The words copied from user space: as many as the array holds.\<close>

definition copied :: "nat \<Rightarrow> kanswer \<Rightarrow> u64 list" where
  "copied n a = take n (kvals a @ replicate n 0)"

text \<open>The in-place removal of duplicates from the sorted index array; \<open>unique\<close> is the write position.\<close>

primrec unique_loop :: "nat list \<Rightarrow> u64 list \<Rightarrow> nat \<Rightarrow> u64 list \<times> nat" where
  "unique_loop [] indices unique = (indices, unique)"
| "unique_loop (i # is) indices unique =
     (if i = 0 \<or> indices ! i \<noteq> indices ! (i - 1)
      then unique_loop is (indices[unique := indices ! i]) (unique + 1)
      else unique_loop is indices unique)"

definition unique_indices :: "u64 list \<Rightarrow> u64 list" where
  "unique_indices indices =
     (case unique_loop [0..<length indices] (sort indices) 0 of (xs, n) \<Rightarrow> take n xs)"

text \<open>
  The acquisition loop: the granules acquired so far, and the error that ended it. It is stated for
  any way of acquiring a granule.
\<close>

primrec acquire_with ::
    "(u64 \<Rightarrow> ('s, int + nat) state) \<Rightarrow> u64 list \<Rightarrow> ('s, nat list \<times> int) state" where
  "acquire_with get [] = State_Monad.return ([], 0)"
| "acquire_with get (i # is) = do {
     r \<leftarrow> get i;
     (case r of
        Inl e \<Rightarrow> State_Monad.return ([], e)
      | Inr p \<Rightarrow> do {
          (ps, e) \<leftarrow> acquire_with get is;
          State_Monad.return (p # ps, e) }) }"

definition acquire_granules :: "kenv \<Rightarrow> u64 list \<Rightarrow> (guest, nat list \<times> int) state" where
  "acquire_granules env indices = acquire_with (hyper_granule_get env) indices"

definition publish_grant :: "kenv \<Rightarrow> hyper_memory_prepare \<Rightarrow> u64 list \<Rightarrow> (guest, int) state" where
  "publish_grant env prepare aliases = do {
     let indices = unique_indices (map (\<lambda>a. a div SZ_2M) aliases);
     k \<leftarrow> kcall env (Kvmalloc_array (of_nat (length indices)));
     if kret k = 0 then State_Monad.return (- ENOMEM)
     else do {
       (acquired, e) \<leftarrow> acquire_granules env indices;
       if e \<noteq> 0 then do {
         hyper_granules_put env acquired;
         State_Monad.return e }
       else do {
         modify_dev (\<lambda>d. d\<lparr>gm_pfns := Some (map (drop_bit 12) aliases), gm_granules := acquired,
           gm_pages := ucast (mp_count prepare), gm_guest_base := mp_guest_base prepare\<rparr>);
         State_Monad.return 0 } } }"

definition prepare_shape_ok :: "hyper_memory_prepare \<Rightarrow> bool" where
  "prepare_shape_ok p \<longleftrightarrow>
     \<not> (mp_length p = 0 \<or> mp_length p AND 4095 \<noteq> 0 \<or> mp_guest_base p AND 4095 \<noteq> 0 \<or>
        mp_reserved p \<noteq> 0 \<or> mp_guest_base p > - 1 - mp_length p)"

definition static_prepare_ok :: "hyper_guest_memory \<Rightarrow> hyper_memory_prepare \<Rightarrow> bool" where
  "static_prepare_ok d p \<longleftrightarrow> mp_token p = 0 \<and> mp_count p = 0 \<and> mp_pages p = [] \<and>
     mp_alias p = push_bit 12 (gm_first_pfn d) \<and> mp_length p \<le> push_bit 12 (gm_pages d)"

definition hyper_memory_prepare_grant :: "kenv \<Rightarrow> hyper_memory_prepare \<Rightarrow> (guest, int) state" where
  "hyper_memory_prepare_grant env p =
     (if \<not> prepare_shape_ok p then State_Monad.return (- EINVAL)
      else do {
        s \<leftarrow> State_Monad.get;
        let d = dev s;
        if \<not> gm_dynamic d then State_Monad.return (if static_prepare_ok d p then 0 else - EINVAL)
        else if mp_token p = 0 \<or> mp_count p = 0 \<or> unat (mp_count p) > unat HYPER_IO_MAX_GRANT_PAGES \<or>
          ucast (mp_count p) \<noteq> drop_bit 12 (mp_length p) then State_Monad.return (- EINVAL)
        else if gm_pfns d \<noteq> None then State_Monad.return (- EBUSY)
        else do {
          k1 \<leftarrow> kcall env (Kvmalloc_array (ucast (mp_count p)));
          k2 \<leftarrow> kcall env (Kvmalloc_array (ucast (mp_count p)));
          k3 \<leftarrow> kcall env (Kvmalloc_array (ucast (mp_count p)));
          if kret k1 = 0 \<or> kret k2 = 0 \<or> kret k3 = 0 then State_Monad.return (- ENOMEM)
          else do {
            c \<leftarrow> kcall env Copy_from_user;
            let aliases = copied (unat (mp_count p)) c;
            if kret c \<noteq> 0 then State_Monad.return (- EFAULT)
            else if mp_alias p \<noteq> 0 \<or>
              \<not> list_all (\<lambda>a. hyper_io_page_aperture a (gm_aperture_start d) (gm_aperture_end d)) aliases
            then State_Monad.return (- EINVAL)
            else publish_grant env p aliases } } })"

text \<open>The \<open>ioctl\<close> entry, with the structure a request points to.\<close>

datatype memory_command =
    Memory_info
  | Memory_prepare hyper_memory_prepare
  | Memory_release
  | Memory_other

definition prepare_argument :: "kenv \<Rightarrow> memory_command \<Rightarrow> (guest, bool) state" where
  "prepare_argument env command = (case command of
     Memory_prepare p \<Rightarrow> do { a \<leftarrow> kcall env Copy_from_user; State_Monad.return (kret a = 0) }
   | _ \<Rightarrow> State_Monad.return True)"

definition memory_length :: "hyper_guest_memory \<Rightarrow> u64" where
  "memory_length d =
     (if gm_dynamic d then gm_aperture_end d - gm_aperture_start d + 1 else push_bit 12 (gm_pages d))"

definition hyper_memory_ioctl :: "kenv \<Rightarrow> memory_command \<Rightarrow> (guest, int) state" where
  "hyper_memory_ioctl env command =
     (if command = Memory_other then State_Monad.return (- ENOTTY)
      else do {
        read \<leftarrow> prepare_argument env command;
        if \<not> read then State_Monad.return (- EFAULT)
        else do {
          s \<leftarrow> State_Monad.get;
          if \<not> gm_live (dev s) then State_Monad.return (- ENODEV)
          else (case command of
              Memory_prepare p \<Rightarrow> hyper_memory_prepare_grant env p
            | Memory_release \<Rightarrow>
                if gm_vmas (dev s) \<noteq> 0 then State_Monad.return (- EBUSY)
                else do { hyper_memory_unprepare env; State_Monad.return 0 }
            | _ \<Rightarrow> do {
                a \<leftarrow> kcall env (Copy_to_user [gm_guest_base (dev s), memory_length (dev s)]);
                State_Monad.return (if kret a \<noteq> 0 then - EFAULT else 0) }) } })"

section \<open>Probe and removal\<close>

definition fresh_memory :: hyper_guest_memory where
  "fresh_memory = \<lparr>gm_name = [], gm_references = 1, gm_first_pfn = 0, gm_pages = 0, gm_live = False,
     gm_dynamic = False, gm_opened = False, gm_vmas = 0, gm_aperture_start = 0, gm_aperture_end = 0,
     gm_pfns = None, gm_granules = [], gm_guest_base = 0\<rparr>"

definition probe_failed :: "kenv \<Rightarrow> int \<Rightarrow> (guest, int) state" where
  "probe_failed env e = do { memory_put env; State_Monad.return e }"

definition device_name :: "kenv \<Rightarrow> (guest, int + string) state" where
  "device_name env = do {
     f \<leftarrow> kcall env (Of_find_property ''hyper,client-id'');
     if kret f \<noteq> 0 then do {
       n \<leftarrow> kcall env (Of_read_number ''hyper,client-id'');
       State_Monad.return (if kret n \<noteq> 0 \<or> kval n \<ge> 128 then Inl (- EINVAL)
         else Inr (''hyper-memory-'' @ decimal (unat (kval n)))) }
     else do {
       n \<leftarrow> kcall env Dev_name;
       State_Monad.return (Inr (''hyper-memory-'' @ kstr n)) } }"

definition register_device :: "kenv \<Rightarrow> (guest, int) state" where
  "register_device env = do {
     name \<leftarrow> device_name env;
     (case name of
        Inl e \<Rightarrow> probe_failed env e
      | Inr name \<Rightarrow> do {
          k \<leftarrow> kcall env (Kasprintf name);
          if kret k = 0 then probe_failed env (- ENOMEM)
          else do {
            modify_dev (\<lambda>d. d\<lparr>gm_name := name, gm_live := True\<rparr>);
            m \<leftarrow> kcall env (Misc_register name);
            if kret m \<noteq> 0 then probe_failed env (kret m)
            else State_Monad.return 0 } }) }"

definition allocate_memory :: "kenv \<Rightarrow> (guest, bool) state" where
  "allocate_memory env = do {
     z \<leftarrow> kcall env Kzalloc;
     if kret z = 0 then State_Monad.return False
     else do {
       State_Monad.update (\<lambda>s. s\<lparr>dev := fresh_memory, gm_freed := False\<rparr>);
       State_Monad.return True } }"

definition probe_dynamic :: "kenv \<Rightarrow> (guest, int) state" where
  "probe_dynamic env = do {
     allocated \<leftarrow> allocate_memory env;
     if \<not> allocated then State_Monad.return (- ENOMEM)
     else do {
       modify_dev (\<lambda>d. d\<lparr>gm_dynamic := True\<rparr>);
       r \<leftarrow> kcall env (Of_address ''reg'');
       modify_dev (\<lambda>d. d\<lparr>gm_aperture_start := copied 2 r ! 0, gm_aperture_end := copied 2 r ! 1\<rparr>);
       if kret r \<noteq> 0 \<or> copied 2 r ! 1 - copied 2 r ! 0 + 1 = 0 then probe_failed env (- EINVAL)
       else register_device env } }"

text \<open>The address range of the static pool, and the guest address it appears at.\<close>

definition static_resource :: "kenv \<Rightarrow> (guest, int + u64 \<times> u64) state" where
  "static_resource env = do {
     region \<leftarrow> kcall env (Of_parse_phandle ''memory-region'');
     if kret region = 0 then State_Monad.return (Inl (- EINVAL))
     else do {
       n \<leftarrow> kcall env (Of_read_bool ''no-map'');
       refused \<leftarrow> (if kret n \<noteq> 0 then State_Monad.return True
         else do { u \<leftarrow> kcall env (Of_read_bool ''reusable''); State_Monad.return (kret u \<noteq> 0) });
       if refused then do { kcall env Of_node_put; State_Monad.return (Inl (- EINVAL)) }
       else do {
         r \<leftarrow> kcall env (Of_address ''memory-region'');
         kcall env Of_node_put;
         if kret r \<noteq> 0 then State_Monad.return (Inl (kret r))
         else do {
           let start = copied 2 r ! 0;
           let bytes = copied 2 r ! 1 - start + 1;
           if bytes = 0 \<or> start AND 4095 \<noteq> 0 \<or> bytes AND 4095 \<noteq> 0
           then State_Monad.return (Inl (- EINVAL))
           else if drop_bit 12 bytes > - 1 - drop_bit 12 start
           then State_Monad.return (Inl (- EOVERFLOW))
           else State_Monad.return (Inr (start, bytes)) } } } }"

definition static_guest_base :: "kenv \<Rightarrow> u64 \<Rightarrow> (guest, u64 option) state" where
  "static_guest_base env start = do {
     f \<leftarrow> kcall env (Of_find_property ''hyper,guest-base'');
     if kret f = 0 then State_Monad.return (Some start)
     else do {
       n \<leftarrow> kcall env (Of_read_number ''hyper,guest-base'');
       State_Monad.return (if kret n \<noteq> 0 then None else Some (kval n)) } }"

text \<open>One page of the retaining loop: \<open>Some e\<close> leaves it with an error.\<close>

definition retain_page :: "kenv \<Rightarrow> (guest, int option) state" where
  "retain_page env = do {
     s \<leftarrow> State_Monad.get;
     let pfn = gm_first_pfn (dev s) + gm_pages (dev s);
     v \<leftarrow> kcall env (Pfn_valid pfn);
     if kret v = 0 then State_Monad.return (Some (- EINVAL))
     else do {
       r \<leftarrow> kcall env (Page_reserved pfn);
       if kret r = 0 then State_Monad.return (Some (- EINVAL))
       else do {
         c \<leftarrow> kcall env (Page_compound pfn);
         if kret c \<noteq> 0 then State_Monad.return (Some (- EINVAL))
         else do {
           g \<leftarrow> kcall env (Get_page pfn);
           if kret g = 0 then State_Monad.return (Some (- EINVAL))
           else do {
             modify_dev (\<lambda>d. d\<lparr>gm_pages := gm_pages d + 1\<rparr>);
             State_Monad.return None } } } } }"

text \<open>The rest of a static probe, once the object is allocated.\<close>

definition retain_pool :: "kenv \<Rightarrow> u64 \<Rightarrow> u64 \<Rightarrow> (guest, int) state" where
  "retain_pool env start bytes = do {
     modify_dev (\<lambda>d. d\<lparr>gm_first_pfn := drop_bit 12 start\<rparr>);
     r \<leftarrow> for_return (\<lambda>_. retain_page env) [0..<unat (drop_bit 12 bytes)];
     (case r of
        Some e \<Rightarrow> probe_failed env e
      | None \<Rightarrow> register_device env) }"

definition probe_pool :: "kenv \<Rightarrow> u64 \<Rightarrow> u64 \<Rightarrow> (guest, int) state" where
  "probe_pool env start bytes = do {
     base \<leftarrow> static_guest_base env start;
     (case base of
        None \<Rightarrow> probe_failed env (- EINVAL)
      | Some base \<Rightarrow> do {
          modify_dev (\<lambda>d. d\<lparr>gm_guest_base := base\<rparr>);
          if base AND 4095 \<noteq> 0 \<or> base > - 1 - bytes then probe_failed env (- EINVAL)
          else retain_pool env start bytes }) }"

definition probe_static :: "kenv \<Rightarrow> (guest, int) state" where
  "probe_static env = do {
     resource \<leftarrow> static_resource env;
     (case resource of
        Inl e \<Rightarrow> State_Monad.return e
      | Inr (start, bytes) \<Rightarrow> do {
          allocated \<leftarrow> allocate_memory env;
          if \<not> allocated then State_Monad.return (- ENOMEM)
          else probe_pool env start bytes }) }"

definition hyper_memory_probe :: "kenv \<Rightarrow> (guest, int) state" where
  "hyper_memory_probe env = do {
     b \<leftarrow> kcall env (Of_read_bool ''hyper,dynamic-memory'');
     if kret b \<noteq> 0 then probe_dynamic env else probe_static env }"

definition hyper_memory_remove :: "kenv \<Rightarrow> (guest, unit) state" where
  "hyper_memory_remove env = do {
     modify_dev (\<lambda>d. d\<lparr>gm_live := False\<rparr>);
     kcall env Misc_deregister;
     memory_put env }"

definition hyper_memory_init :: "kenv \<Rightarrow> (guest, int) state" where
  "hyper_memory_init env = do {
     r \<leftarrow> hyper_granules_init env;
     if r \<noteq> 0 then State_Monad.return r
     else do {
       d \<leftarrow> kcall env Driver_register;
       (if kret d \<noteq> 0 then hyper_granules_exit env else State_Monad.return ());
       State_Monad.return (kret d) } }"

definition hyper_memory_exit :: "kenv \<Rightarrow> (guest, unit) state" where
  "hyper_memory_exit env = do {
     kcall env Driver_unregister;
     hyper_granules_exit env }"

section \<open>The granules of a page array\<close>

lemma sorted_remdups_adj_distinct: "sorted (xs :: 'b :: linorder list) \<Longrightarrow> distinct (remdups_adj xs)"
  by (induction xs rule: remdups_adj.induct) (auto split: if_splits)

lemma remdups_adj_take_Suc:
  assumes "i < length xs"
  shows "remdups_adj (take (Suc i) xs) =
    (if i = 0 \<or> xs ! i \<noteq> xs ! (i - 1) then remdups_adj (take i xs) @ [xs ! i] else remdups_adj (take i xs))"
proof (cases i)
  case 0
  then show ?thesis using assms by (simp add: take_Suc_conv_app_nth)
next
  case (Suc j)
  then have "take (Suc i) xs = take j xs @ [xs ! j, xs ! i]" "take i xs = take j xs @ [xs ! j]"
    using assms by (simp_all add: take_Suc_conv_app_nth)
  then show ?thesis using Suc by (simp only: remdups_adj_append_two) simp
qed

text \<open>
  The loop writes at or before the element it reads, so it compares elements of the sorted array: it
  leaves the array without repetitions.
\<close>

lemma unique_loop_remdups:
  assumes "i \<le> length xs" and "length ys = length xs" and "u \<le> i"
    and "take u ys = remdups_adj (take i xs)" and "\<And>j. i \<le> Suc j \<Longrightarrow> j < length xs \<Longrightarrow> ys ! j = xs ! j"
  shows "case unique_loop [i..<length xs] ys u of (zs, n) \<Rightarrow> take n zs = remdups_adj xs \<and> n \<le> length xs"
  using assms
proof (induction "length xs - i" arbitrary: i ys u)
  case 0
  then show ?case by simp
next
  case (Suc k)
  then have i: "i < length xs" by simp
  have read: "ys ! i = xs ! i" "i \<noteq> 0 \<Longrightarrow> ys ! (i - 1) = xs ! (i - 1)"
    using Suc.prems(5) i by simp_all
  show ?case
  proof (cases "i = 0 \<or> xs ! i \<noteq> xs ! (i - 1)")
    case True
    have "take (u + 1) (ys[u := ys ! i]) = take u ys @ [xs ! i]"
      using Suc.prems(2,3) i read(1) by (simp add: take_Suc_conv_app_nth)
    then have "take (u + 1) (ys[u := ys ! i]) = remdups_adj (take (Suc i) xs)"
      using Suc.prems(4) True by (simp add: remdups_adj_take_Suc [OF i])
    moreover have "(ys[u := ys ! i]) ! j = xs ! j" if "Suc i \<le> Suc j" "j < length xs" for j
      using that Suc.prems(5) [of j] Suc.prems(2,3) read i by (cases "j = u") (auto simp: nth_list_update)
    ultimately have "case unique_loop [Suc i..<length xs] (ys[u := ys ! i]) (u + 1) of (zs, n) \<Rightarrow>
        take n zs = remdups_adj xs \<and> n \<le> length xs"
      using Suc.hyps(2) Suc.prems i by (intro Suc.hyps(1)) simp_all
    moreover have "i = 0 \<or> ys ! i \<noteq> ys ! (i - 1)" using True read by auto
    ultimately show ?thesis using i by (simp add: upt_rec [of i])
  next
    case False
    then have "case unique_loop [Suc i..<length xs] ys u of (zs, n) \<Rightarrow> take n zs = remdups_adj xs \<and> n \<le> length xs"
      using Suc.hyps(2) Suc.prems i by (intro Suc.hyps(1)) (simp_all add: remdups_adj_take_Suc [OF i])
    moreover have "\<not> (i = 0 \<or> ys ! i \<noteq> ys ! (i - 1))" using False read by auto
    ultimately show ?thesis using i by (simp add: upt_rec [of i])
  qed
qed

lemma unique_indices_remdups: "unique_indices xs = remdups_adj (sort xs)"
  using unique_loop_remdups [of 0 "sort xs" "sort xs" 0]
  by (auto simp: unique_indices_def split: prod.splits)

lemma unique_indices_set [simp]: "set (unique_indices xs) = set xs"
  and unique_indices_distinct [simp]: "distinct (unique_indices xs)"
  and unique_indices_length: "length (unique_indices xs) \<le> length xs"
  by (simp_all add: unique_indices_remdups sorted_remdups_adj_distinct)
     (metis length_sort remdups_adj_length)

section \<open>Acquisition\<close>

context granule_supply
begin

definition acquired :: "'a granules_scheme \<Rightarrow> nat multiset \<Rightarrow> 'r \<Rightarrow> u64 list \<Rightarrow> nat list \<times> int \<Rightarrow>
    'a granules_scheme \<Rightarrow> bool" where
  "acquired s H R is r t \<longleftrightarrow> granules.more t = granules.more s \<and> inv t (H + mset (fst r)) R \<and>
     (\<forall>p\<in>#H. index_of t p = index_of s p) \<and> (snd r = 0 \<longrightarrow> map (index_of t) (fst r) = is)"

lemma acquire_with_spec:
  assumes "inv s H R" and "ok env" and "\<And>i. i \<in> set is \<Longrightarrow> unat i < 2 ^ 43" and "size H + length is < 2 ^ 32"
  shows "wp (acquire_with (acquire env) is) (acquired s H R is) s"
  using assms
proof (induction "is" arbitrary: s H)
  case Nil
  then show ?case by (simp add: wp_rules acquired_def)
next
  case (Cons i "is")
  have tail: "wp (acquire_with (acquire env) is) (\<lambda>(ps, e). acquired s H R (i # is) (p # ps, e)) t"
    if "granules.more t = granules.more s" "\<forall>q\<in>#H. index_of t q = index_of s q"
      "inv t (add_mset p H) R" "index_of t p = i" for p t
  proof (rule wp_mono)
    show "wp (acquire_with (acquire env) is) (acquired t (add_mset p H) R is) t"
      by (rule Cons.IH) (use that Cons.prems in auto)
  next
    fix r u assume "acquired t (add_mset p H) R is r u"
    then show "(case r of (ps, e) \<Rightarrow> acquired s H R (i # is) (p # ps, e)) u"
      using that by (cases r) (auto simp: acquired_def)
  qed
  have "wp (acquire env i) (\<lambda>r t. granules.more t = granules.more s \<and> (\<forall>p\<in>#H. index_of t p = index_of s p) \<and>
        (case r of Inl e \<Rightarrow> e \<noteq> 0 \<and> inv t H R | Inr p \<Rightarrow> inv t (add_mset p H) R \<and> index_of t p = i)) s"
    by (rule acquire_law) (use Cons.prems in auto)
  then show ?case
    unfolding acquire_with.simps wp_rules
    by (rule wp_mono) (use tail in \<open>auto simp: acquired_def [of _ _ _ _ "([], _)"] wp_rules case_prod_beta' split: sum.splits\<close>)
qed

end

section \<open>The invariant of a device\<close>

definition grant_covered :: "guest \<Rightarrow> bool" where
  "grant_covered s \<longleftrightarrow> (let d = dev s in
     if gm_dynamic d then
       (case gm_pfns d of
          None \<Rightarrow> gm_granules d = [] \<and> gm_pages d = 0
        | Some pfns \<Rightarrow> length pfns = unat (gm_pages d) \<and> gm_pages d \<noteq> 0 \<and>
            (\<forall>pfn\<in>set pfns. \<exists>p\<in>set (gm_granules d). granule_index s p = pfn div 512))
     else gm_pfns d = None \<and> gm_granules d = [])"

definition memory_inv :: "guest \<Rightarrow> nat multiset \<Rightarrow> nat set \<Rightarrow> bool" where
  "memory_inv s H R \<longleftrightarrow> granules_inv s H R \<and> mset (gm_granules (dev s)) \<subseteq># H \<and> grant_covered s \<and>
     (gm_dynamic (dev s) \<and> gm_vmas (dev s) \<noteq> 0 \<longrightarrow> gm_pfns (dev s) \<noteq> None)"

text \<open>The holders after an operation of this device: the others, and what it holds then.\<close>

definition holders :: "nat multiset \<Rightarrow> guest \<Rightarrow> guest \<Rightarrow> nat multiset" where
  "holders H s t = H - mset (gm_granules (dev s)) + mset (gm_granules (dev t))"

lemma holders_same: "gm_granules (dev t) = gm_granules (dev s) \<Longrightarrow> mset (gm_granules (dev s)) \<subseteq># H \<Longrightarrow> holders H s t = H"
  by (simp add: holders_def)

lemma guest_more: "granules.more t = granules.more s \<Longrightarrow> dev t = dev s \<and> gm_freed t = gm_freed s"
  for s t :: guest
  by (cases s, cases t) simp

lemma wp_modify_dev [wp_rules]: "wp (modify_dev f) Q = (\<lambda>s. Q () (s\<lparr>dev := f (dev s)\<rparr>))"
  by (simp add: modify_dev_def wp_rules)

lemma dev_kcalled [simp]: "dev (kcalled env c s) = dev s" "gm_freed (kcalled env c s) = gm_freed s"
  by (simp_all add: kcalled_def)

lemma granule_at_dev [simp]: "granule_at (s\<lparr>dev := d\<rparr>) = granule_at s" "granule_at (s\<lparr>gm_freed := f\<rparr>) = granule_at s"
  by (simp_all add: granule_at_def fun_eq_iff)

lemma granule_index_frames [simp]:
  "granule_index (s\<lparr>dev := d\<rparr>) = granule_index s" "granule_index (s\<lparr>gm_freed := f\<rparr>) = granule_index s"
  "granule_index (kcalled env c s) = granule_index s"
  by (simp_all add: granule_index_def start_of_def fun_eq_iff)

lemma granules_inv_dev [simp]:
  "granules_inv (s\<lparr>dev := d\<rparr>) H R \<longleftrightarrow> granules_inv s H R"
  "granules_inv (s\<lparr>gm_freed := f\<rparr>) H R \<longleftrightarrow> granules_inv s H R"
  by (auto intro: granules_inv_calls)

text \<open>Calls that neither claim nor map a region.\<close>

fun plain :: "kcall \<Rightarrow> bool" where
  "plain (Request_mem_region x) = False"
| "plain (Release_mem_region x) = False"
| "plain (Memremap_pages x) = False"
| "plain (Memunmap_pages x) = False"
| "plain c = True"

lemma granules_inv_plain [simp]: "plain c \<Longrightarrow> granules_inv (kcalled env c s) H R \<longleftrightarrow> granules_inv s H R"
  by (cases c) (auto intro: granules_inv_calls)

lemma memory_inv_plain [simp]: "plain c \<Longrightarrow> memory_inv (kcalled env c s) H R \<longleftrightarrow> memory_inv s H R"
  by (simp add: memory_inv_def grant_covered_def Let_def cong: option.case_cong)

lemma memory_inv_freed [simp]: "memory_inv (s\<lparr>gm_freed := f\<rparr>) H R \<longleftrightarrow> memory_inv s H R"
  by (simp add: memory_inv_def grant_covered_def Let_def cong: option.case_cong)

lemma alias_granule: "(a :: u64) div SZ_2M = drop_bit 12 a div 512"
  by (simp add: word_unat_eq_iff unat_div_distrib unat_drop_bit_eq drop_bit_eq_div div_mult2_eq [symmetric])

lemma alias_granule_bound: "unat ((a :: u64) div SZ_2M) < 2 ^ 43"
  using u64_bound [of a] by (simp add: unat_div_distrib)

section \<open>Operations keep the invariant\<close>

definition unprepare_post :: "guest \<Rightarrow> nat multiset \<Rightarrow> nat set \<Rightarrow> guest \<Rightarrow> bool" where
  "unprepare_post s H R t \<longleftrightarrow> granules_inv t (H - mset (gm_granules (dev s))) R \<and> gm_freed t = gm_freed s \<and>
     (\<forall>q\<in>#H - mset (gm_granules (dev s)). granule_index t q = granule_index s q) \<and>
     dev t = (dev s)\<lparr>gm_granules := [], gm_pfns := None,
       gm_first_pfn := (if gm_dynamic (dev s) then 0 else gm_first_pfn (dev s)),
       gm_pages := (if gm_dynamic (dev s) then 0 else gm_pages (dev s))\<rparr>"

lemma unprepare_spec:
  assumes "memory_inv s H R"
  shows "wp (hyper_memory_unprepare env) (\<lambda>_. unprepare_post s H R) s"
proof -
  have "wp (hyper_granules_put env (gm_granules (dev s)))
      (\<lambda>_ t. granules.more t = granules.more s \<and> granules_inv t (H - mset (gm_granules (dev s))) R \<and>
        (\<forall>q\<in>#H - mset (gm_granules (dev s)). granule_index t q = granule_index s q)) s"
    by (rule granule_registry.give_back_law) (use assms in \<open>simp_all add: memory_inv_def\<close>)
  then show ?thesis
    unfolding hyper_memory_unprepare_def wp_rules
    by (rule wp_mono) (auto simp: unprepare_post_def dest!: guest_more)
qed

lemma unprepare_inv:
  assumes "unprepare_post s H R t" and "gm_vmas (dev s) = 0 \<or> \<not> gm_dynamic (dev s)"
  shows "memory_inv t (holders H s t) R"
  using assms by (auto simp: unprepare_post_def memory_inv_def grant_covered_def Let_def holders_def)

definition published_post ::
    "guest \<Rightarrow> nat multiset \<Rightarrow> nat set \<Rightarrow> hyper_memory_prepare \<Rightarrow> u64 list \<Rightarrow> int \<Rightarrow> guest \<Rightarrow> bool" where
  "published_post s H R p aliases r t \<longleftrightarrow> gm_freed t = gm_freed s \<and>
     (\<forall>q\<in>#H. granule_index t q = granule_index s q) \<and>
     (if r = 0
      then (\<exists>ps. granules_inv t (H + mset ps) R \<and>
        dev t = (dev s)\<lparr>gm_pfns := Some (map (drop_bit 12) aliases), gm_granules := ps,
          gm_pages := ucast (mp_count p), gm_guest_base := mp_guest_base p\<rparr> \<and>
        map (granule_index t) ps = unique_indices (map (\<lambda>a. a div SZ_2M) aliases))
      else granules_inv t H R \<and> dev t = dev s)"

lemma publish_grant_spec:
  assumes "granules_inv s H R" and "exclusive_regions env" and "size H + length aliases < 2 ^ 32"
  shows "wp (publish_grant env p aliases) (published_post s H R p aliases) s"
proof -
  let ?is = "unique_indices (map (\<lambda>a. a div SZ_2M) aliases)"
  let ?kept = "\<lambda>t. granules.more t = granules.more s \<and> (\<forall>q\<in>#H. granule_index t q = granule_index s q)"
  have acq: "wp (acquire_granules env ?is) (\<lambda>(ps, e) t. ?kept t \<and>
      granules_inv t (H + mset ps) R \<and> (e = 0 \<longrightarrow> map (granule_index t) ps = ?is)) t"
    if "granules_inv t H R" "?kept t" for t
  proof -
    have "size H + length ?is < 2 ^ 32"
      using assms(3) unique_indices_length [of "map (\<lambda>a. a div SZ_2M) aliases"] by simp
    then have "wp (acquire_with (hyper_granule_get env) ?is) (granule_registry.acquired t H R ?is) t"
      by (intro granule_registry.acquire_with_spec that(1) assms(2)) (auto simp: alias_granule_bound [simplified])
    then show ?thesis
      unfolding acquire_granules_def
      by (rule wp_mono) (use that(2) in \<open>auto simp: granule_registry.acquired_def\<close>)
  qed
  have put: "wp (hyper_granules_put env ps) (\<lambda>_. published_post s H R p aliases e) t"
    if "granules_inv t (H + mset ps) R" "?kept t" "e \<noteq> 0" for ps e t
    by (rule wp_mono [OF granule_registry.give_back_law [OF that(1)]])
       (use that(2,3) guest_more [of t s] in \<open>auto simp: published_post_def dest!: guest_more\<close>)
  have pub: "published_post s H R p aliases 0 (t\<lparr>dev := (dev t)\<lparr>gm_pfns := Some (map (drop_bit 12) aliases),
      gm_granules := ps, gm_pages := ucast (mp_count p), gm_guest_base := mp_guest_base p\<rparr>\<rparr>)"
    if "granules_inv t (H + mset ps) R" "?kept t" "map (granule_index t) ps = ?is" for ps t
    using that guest_more [of t s] by (auto simp: published_post_def intro!: exI [of _ ps])
  have "wp (acquire_granules env ?is) (\<lambda>(acquired, e). wp (if e \<noteq> 0 then do {
        hyper_granules_put env acquired; State_Monad.return e }
      else do {
        modify_dev (\<lambda>d. d\<lparr>gm_pfns := Some (map (drop_bit 12) aliases), gm_granules := acquired,
           gm_pages := ucast (mp_count p), gm_guest_base := mp_guest_base p\<rparr>);
        State_Monad.return 0 }) (published_post s H R p aliases)) t"
    if "granules_inv t H R" "?kept t" for t
    by (rule wp_mono [OF acq [OF that]]) (auto simp: wp_rules put pub)
  then show ?thesis
    unfolding publish_grant_def Let_def
    using assms(1) by (auto simp: wp_rules published_post_def case_prod_beta')
qed

text \<open>
  A grant is published completely or not at all: its page frames are the requested pages, all inside
  the aperture, and its granules are those of the pages, each acquired once.
\<close>

definition grant_post ::
    "guest \<Rightarrow> nat multiset \<Rightarrow> nat set \<Rightarrow> hyper_memory_prepare \<Rightarrow> int \<Rightarrow> guest \<Rightarrow> bool" where
  "grant_post s H R p r t \<longleftrightarrow> gm_freed t = gm_freed s \<and>
     (\<forall>q\<in>#H. granule_index t q = granule_index s q) \<and>
     (if r = 0 \<and> gm_dynamic (dev s)
      then gm_pfns (dev s) = None \<and> mp_token p \<noteq> 0 \<and> (\<exists>aliases. length aliases = unat (mp_count p) \<and>
        unat (mp_count p) * 4096 = unat (mp_length p) \<and> mp_count p \<noteq> 0 \<and>
        list_all (\<lambda>a. hyper_io_page_aperture a (gm_aperture_start (dev s)) (gm_aperture_end (dev s))) aliases \<and>
        published_post s H R p aliases r t)
      else granules_inv t H R \<and> dev t = dev s)"

lemma grant_pages:
  assumes "prepare_shape_ok p" and "ucast (mp_count p) = drop_bit 12 (mp_length p)"
  shows "unat (mp_count p) * 4096 = unat (mp_length p)"
proof -
  have "unat (mp_length p) mod 4096 = 0"
    using assms(1) by (auto simp: prepare_shape_ok_def and_4095_zero)
  moreover have "unat (mp_count p) = unat (mp_length p) div 4096"
    using arg_cong [OF assms(2), of unat] by (simp add: drop_bit_eq_div unat_div_distrib)
  ultimately show ?thesis by (metis mod_0_imp_dvd dvd_div_mult_self)
qed

lemma hyper_memory_prepare_spec:
  assumes "granules_inv s H R" and "exclusive_regions env" and "size H < 2 ^ 31"
  shows "wp (hyper_memory_prepare_grant env p) (grant_post s H R p) s"
proof -
  have pub: "wp (publish_grant env p aliases) (grant_post s H R p) t"
    if "granules_inv t H R" "granules.more t = granules.more s \<and> (\<forall>q\<in>#H. granule_index t q = granule_index s q)"
      "length aliases = unat (mp_count p)"
      "gm_dynamic (dev s)" "gm_pfns (dev s) = None" "\<not> unat (mp_count p) > unat HYPER_IO_MAX_GRANT_PAGES" "mp_count p \<noteq> 0"
      "mp_token p \<noteq> 0" "unat (mp_count p) * 4096 = unat (mp_length p)"
      "list_all (\<lambda>a. hyper_io_page_aperture a (gm_aperture_start (dev s)) (gm_aperture_end (dev s))) aliases"
    for aliases t
  proof -
    have "size H + length aliases < 2 ^ 32"
      using that(3,6) assms(3) by (simp add: word_less_nat_alt)
    then have "wp (publish_grant env p aliases) (published_post t H R p aliases) t"
      by (intro publish_grant_spec that(1) assms(2))
    then show ?thesis
      by (rule wp_mono) (use that guest_more [of t s] in \<open>auto simp: grant_post_def published_post_def\<close>)
  qed
  have len: "length (copied n a) = n" for n a by (simp add: copied_def)
  have stay: "grant_post s H R p r t" if "granules_inv t H R" "dev t = dev s" "gm_freed t = gm_freed s" "granule_index t = granule_index s" "r \<noteq> 0" for r t
    using that by (simp add: grant_post_def)
  have stat: "grant_post s H R p r s" if "\<not> gm_dynamic (dev s)" for r
    using that assms(1) by (simp add: grant_post_def)
  show ?thesis
    unfolding hyper_memory_prepare_grant_def Let_def
    using assms(1) grant_pages [of p] by (simp add: wp_rules len stay stat pub)
qed

lemma prepare_inv:
  assumes "memory_inv s H R" and "grant_post s H R p r t"
  shows "memory_inv t (holders H s t) R"
proof (cases "r = 0 \<and> gm_dynamic (dev s)")
  case False
  then have "granules_inv t H R" "dev t = dev s" using assms(2) by (simp_all add: grant_post_def)
  moreover have "granule_index t q = granule_index s q" if "q \<in> set (gm_granules (dev s))" for q
    using assms that by (auto simp: grant_post_def memory_inv_def dest: mset_subset_eqD)
  ultimately show ?thesis
    using assms(1) by (auto simp: memory_inv_def grant_covered_def Let_def holders_def split: option.splits if_splits)
next
  case True
  then obtain aliases ps where a: "length aliases = unat (mp_count p)" "mp_count p \<noteq> 0" "gm_pfns (dev s) = None"
    and t: "granules_inv t (H + mset ps) R" "dev t = (dev s)\<lparr>gm_pfns := Some (map (drop_bit 12) aliases),
      gm_granules := ps, gm_pages := ucast (mp_count p), gm_guest_base := mp_guest_base p\<rparr>"
      "map (granule_index t) ps = unique_indices (map (\<lambda>a. a div SZ_2M) aliases)"
    using assms(2) unfolding grant_post_def published_post_def by auto
  have empty: "gm_granules (dev s) = []"
    using assms(1) True a(3) by (simp add: memory_inv_def grant_covered_def Let_def)
  have "\<exists>q\<in>set ps. granule_index t q = drop_bit 12 x div 512" if "x \<in> set aliases" for x
  proof -
    have "x div SZ_2M \<in> set (map (granule_index t) ps)" using t(3) that by simp
    then show ?thesis by (auto simp: alias_granule)
  qed
  moreover have "(ucast (mp_count p) :: u64) \<noteq> 0" using a(2) unat_u32_u64 [of "mp_count p"] by (metis unat_eq_zero)
  ultimately show ?thesis
    using t True a empty by (simp add: memory_inv_def grant_covered_def Let_def holders_def)
qed

lemma memory_inv_put: "memory_inv s H R \<Longrightarrow> mset (gm_granules (dev s)) \<subseteq># H"
  by (simp add: memory_inv_def)

lemma memory_inv_frame:
  assumes "memory_inv s H R" and "gm_granules d = gm_granules (dev s)" and "gm_pfns d = gm_pfns (dev s)"
    and "gm_pages d = gm_pages (dev s)" and "gm_dynamic d = gm_dynamic (dev s)"
    and "gm_dynamic d \<Longrightarrow> gm_vmas d \<noteq> 0 \<Longrightarrow> gm_vmas (dev s) \<noteq> 0"
  shows "memory_inv (s\<lparr>dev := d\<rparr>) H R"
  using assms by (auto simp: memory_inv_def grant_covered_def Let_def cong: option.case_cong)

lemma ioctl_spec:
  assumes "memory_inv s H R" and "exclusive_regions env" and "size H < 2 ^ 31"
  shows "wp (hyper_memory_ioctl env c) (\<lambda>r t. memory_inv t (holders H s t) R \<and> gm_freed t = gm_freed s \<and>
     gm_dynamic (dev t) = gm_dynamic (dev s) \<and>
     (c = Memory_release \<and> gm_live (dev s) \<longrightarrow>
        (if gm_vmas (dev s) = 0 then r = 0 \<and> gm_pfns (dev t) = None \<and> gm_granules (dev t) = []
         else r = - EBUSY \<and> t = s))) s"
proof -
  have inv: "granules_inv s H R" using assms(1) by (simp add: memory_inv_def)
  have same: "holders H s (kcalled env c s) = H" "holders H s s = H" for c
    using memory_inv_put [OF assms(1)] by (simp_all add: holders_same)
  have prep: "wp (hyper_memory_prepare_grant env p) (\<lambda>r t. memory_inv t (holders H s t) R \<and> gm_freed t = gm_freed s \<and>
      gm_dynamic (dev t) = gm_dynamic (dev s)) (kcalled env Copy_from_user s)" for p
  proof -
    let ?s = "kcalled env Copy_from_user s"
    have "wp (hyper_memory_prepare_grant env p) (grant_post ?s H R p) ?s"
      by (rule hyper_memory_prepare_spec) (use inv assms(2,3) in simp_all)
    then show ?thesis
    proof (rule wp_mono)
      fix r t assume p: "grant_post ?s H R p r t"
      have "memory_inv t (holders H ?s t) R"
        by (rule prepare_inv [OF _ p]) (simp add: assms(1))
      then show "memory_inv t (holders H s t) R \<and> gm_freed t = gm_freed s \<and> gm_dynamic (dev t) = gm_dynamic (dev s)"
        using p by (auto simp: holders_def grant_post_def published_post_def split: if_splits)
    qed
  qed
  have rel: "wp (hyper_memory_unprepare env) (\<lambda>_ t. memory_inv t (holders H s t) R \<and> gm_freed t = gm_freed s \<and>
      gm_dynamic (dev t) = gm_dynamic (dev s) \<and> gm_pfns (dev t) = None \<and> gm_granules (dev t) = []) s" if "gm_vmas (dev s) = 0"
    by (rule wp_mono [OF unprepare_spec [OF assms(1)]])
       (use that in \<open>simp add: unprepare_inv, simp add: unprepare_post_def\<close>)
  show ?thesis
    unfolding hyper_memory_ioctl_def prepare_argument_def
    using assms(1) prep rel
    by (cases c) (auto simp: wp_rules same elim!: wp_mono)
qed

text \<open>Pages a mapping shows: those of the device, and every index inside its page array.\<close>

definition device_page :: "hyper_guest_memory \<Rightarrow> u64 \<Rightarrow> bool" where
  "device_page d pfn \<longleftrightarrow> (\<exists>i. i < gm_pages d \<and> pfn = page_of d i)"

lemma device_page_dynamic:
  assumes "grant_covered s" and "gm_dynamic (dev s)" and "device_page (dev s) pfn"
  shows "\<exists>pfns. gm_pfns (dev s) = Some pfns \<and> pfn \<in> set pfns"
  using assms by (auto simp: grant_covered_def device_page_def page_of_def Let_def word_less_nat_alt
      split: option.splits)

definition inserts_ok :: "hyper_guest_memory \<Rightarrow> kevent list \<Rightarrow> bool" where
  "inserts_ok d es \<longleftrightarrow> (\<forall>e\<in>set es. case fst e of Vm_insert_page at pfn \<Rightarrow> device_page d pfn | _ \<Rightarrow> True)"

definition mmap_post :: "guest \<Rightarrow> int \<Rightarrow> guest \<Rightarrow> bool" where
  "mmap_post s r t \<longleftrightarrow> gm_freed t = gm_freed s \<and> heap t = heap s \<and> registry t = registry s \<and>
     claimed (kevents t) = claimed (kevents s) \<and> remapped (kevents t) = remapped (kevents s) \<and>
     (\<exists>es. kevents t = kevents s @ es \<and> inserts_ok (dev s) es) \<and>
     (if r = 0 then dev t = (dev s)\<lparr>gm_vmas := gm_vmas (dev s) + 1\<rparr> \<and> gm_pages (dev s) \<noteq> 0 \<and> gm_live (dev s)
      else dev t = dev s)"

lemma mmap_spec: "wp (hyper_memory_mmap env vma) (mmap_post s) s"
proof -
  define J where "J t \<longleftrightarrow> mmap_post s (- 1) t" for t
  let ?body = "\<lambda>i. do {
      a \<leftarrow> kcall env (Vm_insert_page (vm_start vma + push_bit 12 (of_nat i))
        (page_of (dev s) (vm_pgoff vma + of_nat i)));
      State_Monad.return (if kret a \<noteq> 0 then Some (kret a) else None) }"
  have loop: "wp (for_return ?body [0..<unat (vm_count vma)])
      (\<lambda>r t. case r of None \<Rightarrow> J t | Some v \<Rightarrow> v \<noteq> 0 \<and> J t) s"
    if "\<not> vm_pgoff vma \<ge> gm_pages (dev s)" "\<not> vm_count vma > gm_pages (dev s) - vm_pgoff vma"
  proof (rule wp_for_return_upt [where J = "\<lambda>_. J" and E = "\<lambda>v t. v \<noteq> 0 \<and> J t"])
    fix i t assume i: "i < unat (vm_count vma)" and J: "J t"
    have "unat (gm_pages (dev s) - vm_pgoff vma) = unat (gm_pages (dev s)) - unat (vm_pgoff vma)"
      using that(1) by (intro unat_sub_le) (simp add: word_le_nat_alt)
    then have b: "unat (vm_pgoff vma) + i < unat (gm_pages (dev s))"
      using that i by (simp add: word_le_nat_alt word_less_nat_alt)
    then have "unat (vm_pgoff vma + of_nat i) = unat (vm_pgoff vma) + i"
      using u64_bound [of "gm_pages (dev s)"] by (subst unat_add_le) (simp_all add: unat_of_nat)
    with b have "device_page (dev s) (page_of (dev s) (vm_pgoff vma + of_nat i))"
      unfolding device_page_def by (intro exI [of _ "vm_pgoff vma + of_nat i"]) (simp add: word_less_nat_alt)
    with J show "wp (?body i) (\<lambda>r t. case r of None \<Rightarrow> J t | Some v \<Rightarrow> v \<noteq> 0 \<and> J t) t"
      by (auto simp: wp_rules J_def mmap_post_def inserts_ok_def)
  qed (simp_all add: J_def mmap_post_def inserts_ok_def)
  have none: "mmap_post s r s" if "r \<noteq> 0" for r
    using that by (simp add: mmap_post_def inserts_ok_def)
  have failed: "mmap_post s v t" if "J t" "v \<noteq> 0" for v t
    using that by (simp add: J_def mmap_post_def)
  have mapped: "mmap_post s 0 (t\<lparr>dev := (dev t)\<lparr>gm_vmas := gm_vmas (dev t) + 1\<rparr>\<rparr>)"
    if "J t" "gm_pages (dev s) \<noteq> 0" "gm_live (dev s)" for t
    using that by (simp add: J_def mmap_post_def)
  have "wp (for_return ?body [0..<unat (vm_count vma)]) (\<lambda>r t. case r of
      Some e \<Rightarrow> mmap_post s e t
    | None \<Rightarrow> mmap_post s 0 (t\<lparr>dev := (dev t)\<lparr>gm_vmas := gm_vmas (dev t) + 1\<rparr>\<rparr>)) s"
    if "\<not> vm_pgoff vma \<ge> gm_pages (dev s)" "\<not> vm_count vma > gm_pages (dev s) - vm_pgoff vma" "gm_live (dev s)"
  proof (rule wp_mono [OF loop [OF that(1,2)]])
    fix r t assume "case r of None \<Rightarrow> J t | Some v \<Rightarrow> v \<noteq> (0 :: int) \<and> J t"
    moreover have "gm_pages (dev s) \<noteq> 0" using that(1) by auto
    ultimately show "case r of
        Some e \<Rightarrow> mmap_post s e t
      | None \<Rightarrow> mmap_post s 0 (t\<lparr>dev := (dev t)\<lparr>gm_vmas := gm_vmas (dev t) + 1\<rparr>\<rparr>)"
      using that(3) by (auto intro: failed mapped split: option.splits)
  qed
  then show ?thesis
    unfolding hyper_memory_mmap_def Let_def
    by (simp add: wp_rules none cong: option.case_cong)
qed

section \<open>The life of a device\<close>

lemma unprepare_kept:
  assumes "memory_inv s H R" and "gm_vmas (dev s) = 0 \<or> \<not> gm_dynamic (dev s)"
    and "\<And>t. memory_inv t (holders H s t) R \<Longrightarrow> gm_granules (dev t) = [] \<Longrightarrow> gm_vmas (dev t) = gm_vmas (dev s) \<Longrightarrow>
      gm_dynamic (dev t) = gm_dynamic (dev s) \<Longrightarrow> Q () t"
  shows "wp (hyper_memory_unprepare env) Q s"
proof (rule wp_mono [OF unprepare_spec [OF assms(1)]])
  fix r :: unit and t assume p: "unprepare_post s H R t"
  show "Q r t"
    using assms(3) [of t] unprepare_inv [OF p assms(2)] p by (simp add: unprepare_post_def)
qed

lemma holders_trans: "holders (holders H s t) t u = holders H s u"
  by (simp add: holders_def)

lemma put_pages_inv:
  assumes "memory_inv s H R"
  shows "wp (for_each (\<lambda>i. do { kcall env (Put_page (f i)); State_Monad.return () }) is)
    (\<lambda>_ t. memory_inv t H R \<and> dev t = dev s) s"
  by (rule wp_for_each) (use assms in \<open>auto simp: wp_rules\<close>)

lemma destroy_inv:
  assumes "memory_inv s H R" and "gm_vmas (dev s) = 0 \<or> \<not> gm_dynamic (dev s)"
  shows "wp (hyper_memory_destroy env) (\<lambda>_ t. memory_inv t (holders H s t) R \<and> gm_dynamic (dev t) = gm_dynamic (dev s)) s"
proof -
  have "wp (for_each (\<lambda>i. do { kcall env (Put_page (gm_first_pfn (dev t) + of_nat i)); State_Monad.return () }) is)
      (\<lambda>_ u. memory_inv (u\<lparr>gm_freed := True\<rparr>) (holders H s (u\<lparr>gm_freed := True\<rparr>)) R \<and>
         gm_dynamic (dev u) = gm_dynamic (dev s)) t"
    if "memory_inv t (holders H s t) R" "gm_dynamic (dev t) = gm_dynamic (dev s)" for t "is"
    by (rule wp_mono [OF put_pages_inv [OF that(1)]])
       (use that(2) in \<open>simp add: holders_def\<close>)
  then show ?thesis
    unfolding hyper_memory_destroy_def wp_rules by (intro unprepare_kept [OF assms]) simp
qed

lemma memory_put_inv:
  assumes "memory_inv s H R" and "gm_vmas (dev s) = 0 \<or> \<not> gm_dynamic (dev s)"
  shows "wp (memory_put env) (\<lambda>_ t. memory_inv t (holders H s t) R \<and> gm_dynamic (dev t) = gm_dynamic (dev s)) s"
proof -
  let ?s = "s\<lparr>dev := (dev s)\<lparr>gm_references := gm_references (dev s) - 1\<rparr>\<rparr>"
  have s: "memory_inv ?s H R" by (rule memory_inv_frame [OF assms(1)]) simp_all
  then have "wp (hyper_memory_destroy env) (\<lambda>_ t. memory_inv t (holders H ?s t) R \<and>
      gm_dynamic (dev t) = gm_dynamic (dev ?s)) ?s"
    by (rule destroy_inv) (use assms(2) in simp)
  moreover have "holders H ?s t = holders H s t" for t by (simp add: holders_def)
  moreover have "memory_inv ?s (holders H s ?s) R"
    using s memory_inv_put [OF assms(1)] by (simp add: holders_def)
  ultimately show ?thesis
    unfolding memory_put_def wp_rules if_bool_eq_conj by auto
qed

lemma close_inv:
  assumes "memory_inv s H R" and "gm_vmas (dev s) = 0"
  shows "wp (hyper_memory_release env) (\<lambda>_ t. memory_inv t (holders H s t) R \<and> gm_dynamic (dev t) = gm_dynamic (dev s)) s"
proof -
  have close: "wp (memory_put env) (\<lambda>_ u. memory_inv u (holders H s u) R \<and> gm_dynamic (dev u) = gm_dynamic (dev s))
      (t\<lparr>dev := (dev t)\<lparr>gm_opened := False\<rparr>\<rparr>)"
    if "memory_inv t (holders H s t) R" "gm_vmas (dev t) = 0" "gm_dynamic (dev t) = gm_dynamic (dev s)" for t
  proof -
    let ?t = "t\<lparr>dev := (dev t)\<lparr>gm_opened := False\<rparr>\<rparr>"
    have "memory_inv ?t (holders H s t) R" by (rule memory_inv_frame [OF that(1)]) simp_all
    then have "wp (memory_put env) (\<lambda>_ u. memory_inv u (holders (holders H s t) ?t u) R \<and>
        gm_dynamic (dev u) = gm_dynamic (dev ?t)) ?t"
      by (rule memory_put_inv) (use that(2) in simp)
    then show ?thesis using that(3) by (simp add: holders_def)
  qed
  have "memory_inv s (holders H s s) R" using assms(1) memory_inv_put [OF assms(1)] by (simp add: holders_same)
  then show ?thesis
    unfolding hyper_memory_release_def wp_rules if_bool_eq_conj
    by (intro conjI impI close unprepare_kept [OF assms(1)]) (simp_all add: assms(2))
qed

text \<open>
  Everything that can happen to a device: its own operations, in any order the kernel admits them (a
  mapping is duplicated or removed only while there is one, and a file is released only when no
  mapping is left), and the operations of other devices on the shared registry.
\<close>

inductive memory_step ::
    "kenv \<Rightarrow> guest \<times> nat multiset \<times> nat set \<Rightarrow> guest \<times> nat multiset \<times> nat set \<Rightarrow> bool"
  for env where
  opens: "run_state hyper_memory_open s = (r, t) \<Longrightarrow> memory_step env (s, H, R) (t, H, R)"
| control: "run_state (hyper_memory_ioctl env c) s = (r, t) \<Longrightarrow> size H < 2 ^ 31 \<Longrightarrow>
     memory_step env (s, H, R) (t, holders H s t, R)"
| mapping: "run_state (hyper_memory_mmap env vma) s = (r, t) \<Longrightarrow> memory_step env (s, H, R) (t, H, R)"
| copying: "gm_vmas (dev s) \<noteq> 0 \<Longrightarrow> run_state hyper_vma_open s = (u, t) \<Longrightarrow> memory_step env (s, H, R) (t, H, R)"
| unmapping: "gm_vmas (dev s) \<noteq> 0 \<Longrightarrow> run_state hyper_vma_close s = (u, t) \<Longrightarrow>
     memory_step env (s, H, R) (t, H, R)"
| closing: "gm_vmas (dev s) = 0 \<Longrightarrow> run_state (hyper_memory_release env) s = (r, t) \<Longrightarrow>
     memory_step env (s, H, R) (t, holders H s t, R)"
| others_acquire: "run_state (hyper_granule_get env index) s = (Inr p, t) \<Longrightarrow> unat index < 2 ^ 43 \<Longrightarrow>
     size H < 2 ^ 32 - 1 \<Longrightarrow> memory_step env (s, H, R) (t, add_mset p H, R)"
| others_refused: "run_state (hyper_granule_get env index) s = (Inl e, t) \<Longrightarrow> unat index < 2 ^ 43 \<Longrightarrow>
     size H < 2 ^ 32 - 1 \<Longrightarrow> memory_step env (s, H, R) (t, H, R)"
| others_detach: "mset (p # gm_granules (dev s)) \<subseteq># H \<Longrightarrow> run_state (detach_granule p) s = (final, t) \<Longrightarrow>
     memory_step env (s, H, R) (t, H - {#p#}, if final then insert p R else R)"
| others_retire: "p \<in> R \<Longrightarrow> run_state (flush_granule env p) s = (u, t) \<Longrightarrow>
     memory_step env (s, H, R) (t, H, R - {p})"
| others_call: "plain c \<Longrightarrow> memory_step env (s, H, R) (kcalled env c s, H, R)"

text \<open>Steps of others leave the device and the granules it holds alone.\<close>

lemma memory_inv_others:
  assumes "memory_inv s H R" and "granules_inv t H' R'" and "granules.more t = granules.more s"
    and "starts_kept s t" and "mset (gm_granules (dev s)) \<subseteq># H'"
  shows "memory_inv t H' R' \<and> gm_dynamic (dev t) = gm_dynamic (dev s)"
proof -
  have d: "dev t = dev s" using guest_more [OF assms(3)] by simp
  have "granule_index t p = granule_index s p" if "p \<in> set (gm_granules (dev s))" for p
  proof -
    have "p \<in># H" "p \<in># H'" using that assms(1,5) by (auto simp: memory_inv_def dest: mset_subset_eqD)
    then show ?thesis
      using assms granules_inv_start [of s H R t H' R' p] by (simp add: memory_inv_def granule_index_def)
  qed
  then show ?thesis
    using assms(1,2,5) d by (auto simp: memory_inv_def grant_covered_def Let_def split: option.splits if_splits)
qed

lemma mmap_inv:
  assumes "memory_inv s H R" and "mmap_post s r t"
  shows "memory_inv t H R \<and> gm_dynamic (dev t) = gm_dynamic (dev s)"
proof -
  have g: "granules_inv t H R"
    by (rule granules_inv_calls [of s]) (use assms in \<open>simp_all add: memory_inv_def mmap_post_def\<close>)
  have "granule_at t = granule_at s" using assms(2) by (simp add: granule_at_def fun_eq_iff mmap_post_def)
  then have i: "granule_index t = granule_index s" by (simp add: granule_index_def start_of_def fun_eq_iff)
  show ?thesis
  proof (cases "r = 0")
    case True
    then have "dev t = (dev s)\<lparr>gm_vmas := gm_vmas (dev s) + 1\<rparr>" "gm_pages (dev s) \<noteq> 0"
      using assms(2) by (simp_all add: mmap_post_def)
    then show ?thesis
      using g i assms(1) by (auto simp: memory_inv_def grant_covered_def Let_def split: option.splits if_splits)
  next
    case False
    then show ?thesis
      using g i assms by (auto simp: mmap_post_def memory_inv_def grant_covered_def Let_def split: option.splits if_splits)
  qed
qed

lemma open_inv: "memory_inv s H R \<Longrightarrow> wp hyper_memory_open (\<lambda>_ t. memory_inv t H R \<and> gm_dynamic (dev t) = gm_dynamic (dev s)) s"
  unfolding hyper_memory_open_def Let_def by (auto simp: wp_rules intro: memory_inv_frame)

lemma vma_inv:
  assumes "memory_inv s H R" and "gm_vmas (dev s) \<noteq> 0"
  shows "wp hyper_vma_open (\<lambda>_ t. memory_inv t H R \<and> gm_dynamic (dev t) = gm_dynamic (dev s)) s"
    and "wp hyper_vma_close (\<lambda>_ t. memory_inv t H R \<and> gm_dynamic (dev t) = gm_dynamic (dev s)) s"
  unfolding hyper_vma_open_def hyper_vma_close_def
  using assms(2) by (auto simp: wp_rules intro!: memory_inv_frame [OF assms(1)])

lemma memory_step_inv:
  assumes "memory_step env (s, H, R) (t, H', R')" and "exclusive_regions env" and "memory_inv s H R"
  shows "memory_inv t H' R' \<and> gm_dynamic (dev t) = gm_dynamic (dev s)"
proof -
  have g: "granules_inv s H R" and own: "mset (gm_granules (dev s)) \<subseteq># H"
    using assms(3) by (simp_all add: memory_inv_def)
  note others = memory_inv_others [OF assms(3)]
  from assms(1) show ?thesis
  proof cases
    case (opens r)
    then show ?thesis using wp_runD [OF open_inv [OF assms(3)]] by auto
  next
    case (control c r)
    then show ?thesis using wp_runD [OF ioctl_spec [OF assms(3,2)] control(3)] by auto
  next
    case (mapping vma r)
    then show ?thesis using mmap_inv [OF assms(3) wp_runD [OF mmap_spec mapping(3)]] by auto
  next
    case (copying u)
    then show ?thesis using wp_runD [OF vma_inv(1) [OF assms(3)]] by auto
  next
    case (unmapping u)
    then show ?thesis using wp_runD [OF vma_inv(2) [OF assms(3)]] by auto
  next
    case (closing r)
    then show ?thesis using wp_runD [OF close_inv [OF assms(3)]] by auto
  next
    case (others_acquire index p)
    have "get_post s H R index (Inr p) t"
      by (rule wp_runD [OF hyper_granule_get_spec [OF g assms(2) others_acquire(4,5)] others_acquire(3)])
    moreover have "starts_kept s t"
      by (rule wp_runD [OF starts_kept_get [OF starts_kept_refl] others_acquire(3)])
    moreover have "mset (gm_granules (dev s)) \<subseteq># add_mset p H"
      using own subset_mset.order_trans by fastforce
    ultimately show ?thesis
      using others_acquire(1,2) others [of t H' R'] by (simp add: get_post_def)
  next
    case (others_refused index e)
    have "get_post s H R index (Inl e) t"
      by (rule wp_runD [OF hyper_granule_get_spec [OF g assms(2) others_refused(4,5)] others_refused(3)])
    moreover have "starts_kept s t"
      by (rule wp_runD [OF starts_kept_get [OF starts_kept_refl] others_refused(3)])
    ultimately show ?thesis
      using others_refused(1,2) own others [of t H' R'] by (simp add: get_post_def)
  next
    case (others_detach p final)
    have p: "p \<in># H" "mset (gm_granules (dev s)) \<subseteq># H - {#p#}"
      using others_detach(3) by (simp_all add: insert_subset_eq_iff)
    have "detach_post s H R p final t"
      by (rule wp_runD [OF detach_granule_spec [OF g p(1)] others_detach(4)])
    moreover have "starts_kept s t"
      by (rule wp_runD [OF starts_kept_detach [OF starts_kept_refl] others_detach(4)])
    ultimately show ?thesis
      using others_detach(1,2) p(2) others [of t H' R'] by (auto simp: detach_post_def)
  next
    case (others_retire p u)
    have "flush_post s H R p t"
      by (rule wp_runD [OF flush_granule_spec [OF g others_retire(3)] others_retire(4)])
    moreover have "starts_kept s t"
      by (rule wp_runD [OF starts_kept_flush [OF starts_kept_refl] others_retire(4)])
    ultimately show ?thesis
      using others_retire(1,2) own others [of t H' R'] by (simp add: flush_post_def)
  next
    case (others_call c)
    then show ?thesis using assms(3) by simp
  qed
qed

lemma memory_reachable_inv:
  assumes "(memory_step env)\<^sup>*\<^sup>* (s, H, R) (t, H', R')" and "exclusive_regions env" and "memory_inv s H R"
  shows "memory_inv t H' R' \<and> gm_dynamic (dev t) = gm_dynamic (dev s)"
proof -
  have "case c of (t, H', R') \<Rightarrow> memory_inv t H' R' \<and> gm_dynamic (dev t) = gm_dynamic (dev s)" if "(memory_step env)\<^sup>*\<^sup>* (s, H, R) c" for c
    using that
  proof (induction rule: rtranclp_induct)
    case base
    then show ?case using assms(3) by simp
  next
    case (step c d)
    then show ?case using memory_step_inv [OF _ assms(2)] by (cases c, cases d) auto
  qed
  from this [OF assms(1)] show ?thesis by simp
qed

text \<open>What the invariant says of a page that can be mapped.\<close>

lemma memory_inv_page:
  assumes "memory_inv s H R" and "gm_dynamic (dev s)" and "device_page (dev s) pfn"
  shows "\<exists>p\<in>set (gm_granules (dev s)). registry s (pfn div 512) = Some p \<and>
    (pfn div 512) * SZ_2M \<in> remapped (kevents s) \<and> (pfn div 512) * SZ_2M \<in> claimed (kevents s)"
proof -
  have inv: "granules_inv s H R" and "grant_covered s" using assms(1) by (simp_all add: memory_inv_def)
  then obtain p where p: "p \<in> set (gm_granules (dev s))" "granule_index s p = pfn div 512"
    using device_page_dynamic [OF _ assms(2,3)] assms(2) by (fastforce simp: grant_covered_def Let_def)
  then have "p \<in># H" using assms(1) by (auto simp: memory_inv_def dest: mset_subset_eqD)
  then obtain i where i: "registry s i = Some p" using granules_inv_held [OF inv] by blast
  with p(2) have "i = pfn div 512" using registered_index [OF inv] by (auto simp: granule_index_def)
  moreover have "start_of s p = i * SZ_2M"
    using granules_inv_registered [OF inv i] by (auto simp: registered_ok_def start_of_def)
  moreover have "start_of s p \<in> start_of s ` alive s R" using i by (auto simp: alive_def ranI)
  ultimately have "(pfn div 512) * SZ_2M \<in> start_of s ` alive s R" "registry s (pfn div 512) = Some p"
    using i by simp_all
  then show ?thesis
    using inv p(1) unfolding granules_inv_def by blast
qed

section \<open>The probe retains and returns pages\<close>

fun page_step :: "u64 multiset \<Rightarrow> kevent \<Rightarrow> u64 multiset" where
  "page_step M (Get_page x, a) = (if kret a = 0 then M else add_mset x M)"
| "page_step M (Put_page x, a) = M - {#x#}"
| "page_step M e = M"

definition retained :: "kevent list \<Rightarrow> u64 multiset" where
  "retained es = foldl page_step {#} es"

lemma retained_append [simp]: "retained (es @ fs) = foldl page_step (retained es) fs"
  by (simp add: retained_def)

text \<open>The pages of a static pool.\<close>

definition pool :: "hyper_guest_memory \<Rightarrow> u64 multiset" where
  "pool d = (if gm_dynamic d then {#} else mset (map (\<lambda>i. gm_first_pfn d + of_nat i) [0..<unat (gm_pages d)]))"

definition probing :: "u64 multiset \<Rightarrow> guest \<Rightarrow> bool" where
  "probing M t \<longleftrightarrow> gm_references (dev t) = 1 \<and> gm_granules (dev t) = [] \<and> retained (kevents t) = M + pool (dev t)"

definition probed :: "guest \<Rightarrow> int \<Rightarrow> guest \<Rightarrow> bool" where
  "probed s r t \<longleftrightarrow> (if r = 0 then gm_live (dev t) \<and> retained (kevents t) = retained (kevents s) + pool (dev t)
     else retained (kevents t) = retained (kevents s))"

fun page_call :: "kcall \<Rightarrow> bool" where
  "page_call (Get_page x) = True"
| "page_call (Put_page x) = True"
| "page_call c = False"

lemma page_step_other [simp]: "\<not> page_call c \<Longrightarrow> page_step M (c, a) = M"
  by (cases c) simp_all

lemma probing_kcalled [simp]: "\<not> page_call c \<Longrightarrow> probing M (kcalled env c t) \<longleftrightarrow> probing M t"
  by (simp add: probing_def)

lemma put_pool:
  "wp (for_each (\<lambda>i. do { kcall env (Put_page (f i)); State_Monad.return () }) is)
     (\<lambda>_ u. retained (kevents u) = retained (kevents t) - mset (map f is)) t"
proof (induction "is" arbitrary: t)
  case (Cons i "is")
  have "wp (for_each (\<lambda>i. do { kcall env (Put_page (f i)); State_Monad.return () }) is)
      (\<lambda>_ u. retained (kevents u) = retained (kevents t) - mset (map f (i # is))) (kcalled env (Put_page (f i)) t)"
    by (rule wp_mono [OF Cons.IH]) (simp add: diff_diff_add_mset)
  then show ?case by (simp add: wp_rules)
qed (simp add: wp_rules)

lemma probe_failed_spec:
  assumes "probing (retained (kevents s)) t" and "e \<noteq> 0"
  shows "wp (probe_failed env e) (probed s) t"
proof -
  let ?d = "(dev t)\<lparr>gm_references := 0, gm_granules := [], gm_pfns := None,
    gm_first_pfn := (if gm_dynamic (dev t) then 0 else gm_first_pfn (dev t)),
    gm_pages := (if gm_dynamic (dev t) then 0 else gm_pages (dev t))\<rparr>"
  have pool: "pool ?d = pool (dev t)" by (simp add: pool_def)
  have "wp (for_each (\<lambda>i. do { kcall env (Put_page (gm_first_pfn ?d + of_nat i)); State_Monad.return () })
      (if gm_dynamic ?d then [] else [0..<unat (gm_pages ?d)]))
      (\<lambda>_ u. retained (kevents u) = retained (kevents s)) (t\<lparr>dev := ?d\<rparr>)"
    by (rule wp_mono [OF put_pool])
       (use assms(1) in \<open>auto simp: probing_def pool_def\<close>)
  then show ?thesis
    using assms
    by (auto simp: probe_failed_def memory_put_def hyper_memory_destroy_def hyper_memory_unprepare_def
        hyper_granules_put.simps wp_rules probing_def probed_def elim!: wp_mono split: if_splits)
qed

lemma probing_frames [simp]:
  "d = dev t \<Longrightarrow> probing M (t\<lparr>dev := d\<lparr>gm_name := n, gm_live := l\<rparr>\<rparr>) \<longleftrightarrow> probing M t"
  "d = dev t \<Longrightarrow> probing M (t\<lparr>dev := d\<lparr>gm_guest_base := b\<rparr>\<rparr>) \<longleftrightarrow> probing M t"
  "d = dev t \<Longrightarrow> probing M (t\<lparr>dev := d\<lparr>gm_aperture_start := x, gm_aperture_end := y\<rparr>\<rparr>) \<longleftrightarrow> probing M t"
  by (simp_all add: probing_def pool_def)

lemma register_device_spec:
  assumes "probing (retained (kevents s)) t"
  shows "wp (register_device env) (probed s) t"
proof -
  have published: "probed s 0 (kcalled env (Misc_register n) (u\<lparr>dev := d\<lparr>gm_name := n, gm_live := True\<rparr>\<rparr>))"
    if "d = dev u" "probing (retained (kevents s)) u" for n u d
    using that by (simp add: probed_def probing_def pool_def)
  show ?thesis
    unfolding register_device_def device_name_def using assms
    by (simp add: wp_rules probe_failed_spec published)
qed

lemma fresh_probing: "retained (kevents t) = M \<Longrightarrow> probing M (t\<lparr>dev := fresh_memory, gm_freed := False\<rparr>)"
  by (simp add: probing_def fresh_memory_def pool_def)

lemma probe_dynamic_spec:
  assumes "retained (kevents t) = retained (kevents s)"
  shows "wp (probe_dynamic env) (probed s) t"
proof -
  have "probing (retained (kevents s)) (u\<lparr>gm_freed := False, dev := fresh_memory\<lparr>gm_dynamic := True\<rparr>\<rparr>)"
    if "retained (kevents u) = retained (kevents s)" for u
    using that by (simp add: probing_def fresh_memory_def pool_def)
  with assms show ?thesis
    unfolding probe_dynamic_def allocate_memory_def
    by (simp add: wp_rules probed_def [of s "- 12"] probe_failed_spec register_device_spec)
qed

lemma retain_pages_spec:
  assumes "probing M t" and "gm_pages (dev t) = 0" and "\<not> gm_dynamic (dev t)" and "n < 2 ^ 64"
  shows "wp (for_return (\<lambda>_. retain_page env) [0..<n])
    (\<lambda>r u. case r of None \<Rightarrow> probing M u | Some e \<Rightarrow> e \<noteq> 0 \<and> probing M u) t"
proof -
  let ?J = "\<lambda>i u. probing M u \<and> \<not> gm_dynamic (dev u) \<and> unat (gm_pages (dev u)) = i"
  have "wp (for_return (\<lambda>_. retain_page env) [0..<n])
      (\<lambda>r u. case r of None \<Rightarrow> ?J n u | Some e \<Rightarrow> e \<noteq> 0 \<and> probing M u) t"
  proof (rule wp_for_return_upt)
    fix i u assume i: "i < n" and J: "?J i u"
    have p: "unat (gm_pages (dev u) + 1) = Suc i"
      using J i assms(4) by (subst unat_add_le) simp_all
    have "of_nat i = gm_pages (dev u)" using J by auto
    then have "pool ((dev u)\<lparr>gm_pages := gm_pages (dev u) + 1\<rparr>) =
        add_mset (gm_first_pfn (dev u) + gm_pages (dev u)) (pool (dev u))"
      using J p by (simp add: pool_def)
    then have got: "probing M (kcalled env (Get_page (gm_first_pfn (dev u) + gm_pages (dev u))) w
        \<lparr>dev := (dev u)\<lparr>gm_pages := gm_pages (dev u) + 1\<rparr>\<rparr>)"
      if "dev w = dev u" "probing M w" "kret (env (kevents w) (Get_page (gm_first_pfn (dev u) + gm_pages (dev u)))) \<noteq> 0" for w
      using that by (simp add: probing_def)
    have lost: "probing M (kcalled env (Get_page x) w)"
      if "probing M w" "kret (env (kevents w) (Get_page x)) = 0" for w x
      using that by (simp add: probing_def)
    from J show "wp (retain_page env) (\<lambda>r u. case r of None \<Rightarrow> ?J (Suc i) u | Some e \<Rightarrow> e \<noteq> 0 \<and> probing M u) u"
      unfolding retain_page_def Let_def by (simp add: wp_rules got lost p)
  qed (use assms in simp_all)
  then show ?thesis by (rule wp_mono) (auto split: option.splits)
qed

lemma static_resource_spec:
  "wp (static_resource env) (\<lambda>r u. retained (kevents u) = retained (kevents t) \<and>
     (case r of Inl e \<Rightarrow> e \<noteq> 0 | Inr (start, bytes) \<Rightarrow> True)) t"
  unfolding static_resource_def Let_def by (auto simp: wp_rules)

lemma retain_pool_spec:
  assumes "probing (retained (kevents s)) t" and "gm_pages (dev t) = 0" and "\<not> gm_dynamic (dev t)"
  shows "wp (retain_pool env start bytes) (probed s) t"
proof -
  let ?t = "t\<lparr>dev := (dev t)\<lparr>gm_first_pfn := drop_bit 12 start\<rparr>\<rparr>"
  have "wp (for_return (\<lambda>_. retain_page env) [0..<unat (drop_bit 12 bytes)])
      (\<lambda>r u. case r of None \<Rightarrow> probing (retained (kevents s)) u | Some e \<Rightarrow> e \<noteq> 0 \<and> probing (retained (kevents s)) u) ?t"
    by (rule retain_pages_spec)
       (use assms u64_bound [of "drop_bit 12 bytes"] in \<open>simp_all add: probing_def pool_def\<close>)
  then have "wp (for_return (\<lambda>_. retain_page env) [0..<unat (drop_bit 12 bytes)])
      (\<lambda>r u. case r of None \<Rightarrow> wp (register_device env) (probed s) u | Some e \<Rightarrow> wp (probe_failed env e) (probed s) u) ?t"
    by (rule wp_mono) (auto intro: probe_failed_spec register_device_spec split: option.splits)
  then show ?thesis by (simp add: retain_pool_def wp_rules)
qed

lemma probe_pool_spec:
  assumes "probing (retained (kevents s)) t" and "gm_pages (dev t) = 0" and "\<not> gm_dynamic (dev t)"
  shows "wp (probe_pool env start bytes) (probed s) t"
  unfolding probe_pool_def static_guest_base_def
  using assms by (simp add: wp_rules probe_failed_spec retain_pool_spec)

lemma probe_static_spec:
  assumes "retained (kevents t) = retained (kevents s)"
  shows "wp (probe_static env) (probed s) t"
proof -
  have alloc: "wp (allocate_memory env) (\<lambda>ok. wp (if \<not> ok then State_Monad.return (- ENOMEM)
      else probe_pool env start bytes) (probed s)) u" if "retained (kevents u) = retained (kevents s)" for u start bytes
    using that fresh_probing [of _ "retained (kevents s)"]
    by (simp add: allocate_memory_def wp_rules probed_def [of s "- 12"] probe_pool_spec fresh_memory_def)
  have "wp (static_resource env) (\<lambda>r. wp (case r of
        Inl e \<Rightarrow> State_Monad.return e
      | Inr (start, bytes) \<Rightarrow> do {
          allocated \<leftarrow> allocate_memory env;
          if \<not> allocated then State_Monad.return (- ENOMEM)
          else probe_pool env start bytes }) (probed s)) t"
    by (rule wp_mono [OF static_resource_spec])
       (use assms alloc in \<open>auto simp: wp_rules probed_def [of s "_ :: int"] split: sum.splits\<close>)
  then show ?thesis by (simp only: probe_static_def wp_bind)
qed

lemma hyper_memory_probe_spec: "wp (hyper_memory_probe env) (probed s) s"
  unfolding hyper_memory_probe_def by (simp add: wp_rules probe_dynamic_spec probe_static_spec)


section \<open>What a mapping inserts\<close>

definition inserted :: "hyper_guest_memory \<Rightarrow> vm_area \<Rightarrow> nat \<Rightarrow> kcall list" where
  "inserted d vma n = map (\<lambda>i. Vm_insert_page (vm_start vma + push_bit 12 (of_nat i))
     (page_of d (vm_pgoff vma + of_nat i))) [0..<n]"

lemma mmap_inserts:
  "wp (hyper_memory_mmap env vma) (\<lambda>r t. r = 0 \<longrightarrow>
     (\<exists>es. kevents t = kevents s @ es \<and> map fst es = inserted (dev s) vma (unat (vm_count vma)))) s"
proof -
  define J where "J i t \<longleftrightarrow> (\<exists>es. kevents t = kevents s @ es \<and> map fst es = inserted (dev s) vma i)" for i and t :: guest
  let ?body = "\<lambda>i. do {
      a \<leftarrow> kcall env (Vm_insert_page (vm_start vma + push_bit 12 (of_nat i))
        (page_of (dev s) (vm_pgoff vma + of_nat i)));
      State_Monad.return (if kret a \<noteq> 0 then Some (kret a) else None) }"
  have "wp (for_return ?body [0..<unat (vm_count vma)])
      (\<lambda>r t. case r of None \<Rightarrow> J (unat (vm_count vma)) t | Some v \<Rightarrow> v \<noteq> 0) s"
    by (rule wp_for_return_upt) (auto simp: wp_rules J_def inserted_def)
  then have "wp (for_return ?body [0..<unat (vm_count vma)])
      (\<lambda>r t. case r of
         Some e \<Rightarrow> e = 0 \<longrightarrow> J (unat (vm_count vma)) t
       | None \<Rightarrow> J (unat (vm_count vma)) (t\<lparr>dev := (dev t)\<lparr>gm_vmas := gm_vmas (dev t) + 1\<rparr>\<rparr>)) s"
    by (rule wp_mono) (auto simp: J_def split: option.splits)
  then show ?thesis
    unfolding hyper_memory_mmap_def Let_def J_def [symmetric]
    by (simp add: wp_rules J_def cong: option.case_cong)
qed


lemma unique_indices_sorted: "unique_indices xs = sorted_list_of_set (set xs)"
  by (rule sorted_distinct_set_unique) (simp_all add: unique_indices_remdups sorted_remdups_adj_distinct sorted_remdups_adj)

end
