(* ===== verification/Kernel_Samples.thy ===== *)
theory Kernel_Samples
  imports Guest_Memory
begin

text \<open>
  A concrete kernel and concrete states of the guest memory module, on which its properties are
  instantiated.
\<close>

text \<open>Every call succeeds; regions are exclusive; user space supplies the given page addresses.\<close>

definition working :: "u64 list \<Rightarrow> kenv" where
  "working pages es c = (case c of
     Request_mem_region x \<Rightarrow> kdone\<lparr>kret := if x \<in> claimed es then 0 else 1\<rparr>
   | Kzalloc \<Rightarrow> kdone\<lparr>kret := 1\<rparr>
   | Kvmalloc_array n \<Rightarrow> kdone\<lparr>kret := 1\<rparr>
   | Kasprintf n \<Rightarrow> kdone\<lparr>kret := 1\<rparr>
   | Copy_from_user \<Rightarrow> kdone\<lparr>kvals := pages\<rparr>
   | _ \<Rightarrow> kdone)"

lemma working_exclusive: "exclusive_regions (working pages)"
  by (simp add: exclusive_regions_def working_def)

text \<open>The registry with the granule of index 3 held once.\<close>

definition one_granule :: granules where
  "one_granule = snd (run_state (hyper_granule_get (working []) 3) empty_registry)"

lemma one_granule_acquired: "run_state (hyper_granule_get (working []) 3) empty_registry = (Inr 0, one_granule)"
  by (simp add: one_granule_def hyper_granule_get_def empty_registry_def working_def kdone_def run_kcall
      kcalled_def claimed_def remapped_def Let_def)

lemma one_granule_reached:
  "(granule_step (working []))\<^sup>*\<^sup>* (empty_registry, {#}, {}) (one_granule, {#0#}, {})"
  using granule_step.acquire [OF one_granule_acquired, of "{#}" "{}"] by (simp add: r_into_rtranclp)

lemma one_granule_inv: "granules_inv one_granule {#0#} {}"
  by (rule granules_reachable_inv [OF one_granule_reached working_exclusive])

text \<open>A dynamic device with an empty aperture of sixteen mebibytes, and a grant of two of its pages.\<close>

definition dynamic_device :: hyper_guest_memory where
  "dynamic_device = fresh_memory\<lparr>gm_live := True, gm_dynamic := True, gm_aperture_start := 0x1000000,
     gm_aperture_end := 0x1FFFFFF\<rparr>"

definition idle_device :: guest where
  "idle_device = \<lparr>kevents = [], heap = [], registry = (\<lambda>_. None), dev = dynamic_device, gm_freed = False\<rparr>"

definition two_pages :: "u64 list" where
  "two_pages = [0x1003000, 0x1001000]"

definition two_page_grant :: hyper_memory_prepare where
  "two_page_grant = \<lparr>mp_alias = 0, mp_guest_base = 0x40000000, mp_length = 8192, mp_token = 7,
     mp_pages = two_pages, mp_count = 2, mp_reserved = 0\<rparr>"

lemma idle_device_inv: "granules_inv idle_device {#} {}"
  by (simp add: idle_device_def granules_inv_def claimed_def remapped_def alive_def)

lemmas device_eval = idle_device_def dynamic_device_def fresh_memory_def two_pages_def two_page_grant_def
  working_def kdone_def run_kcall kcalled_def


lemma two_page_shape: "prepare_shape_ok two_page_grant"
  by (simp add: prepare_shape_ok_def two_page_grant_def)

lemma two_page_aperture: "list_all (\<lambda>a. hyper_io_page_aperture a 0x1000000 0x1FFFFFF) two_pages"
  by (simp add: two_pages_def hyper_io_page_aperture_def)

lemma two_page_granule: "unique_indices (map (\<lambda>a. a div SZ_2M) two_pages) = [8]"
  by (simp add: two_pages_def unique_indices_sorted)

lemmas grant_eval = hyper_memory_prepare_grant_def publish_grant_def acquire_granules_def hyper_granule_get_def
  modify_dev_def State_Monad.update_def Let_def device_eval copied_def claimed_def

lemma two_page_grant_ok:
  "fst (run_state (hyper_memory_prepare_grant (working two_pages) two_page_grant) idle_device) = 0"
  using two_page_shape two_page_aperture two_page_granule by (simp add: grant_eval)

lemma two_page_prepared:
  "gm_pages (dev (snd (run_state (hyper_memory_ioctl (working two_pages) (Memory_prepare two_page_grant)) idle_device))) = 2"
  using two_page_shape two_page_aperture two_page_granule
  by (simp add: hyper_memory_ioctl_def prepare_argument_def grant_eval)

end
