(* ===== verification/Kernel_Properties.thy ===== *)
theory Kernel_Properties
  imports Kernel_Samples
begin

text \<open>
  The properties of the kernel modules: the granule registry and the guest memory device.
\<close>

section \<open>The granule registry\<close>

text \<open>
  C23. Whatever any number of threads do to the granule registry, in any interleaving and with any
  failures of the kernel: the user count of every registered granule is the number of its holders, a
  granule is registered exactly while it is held, and the claimed regions and the mapped pages are
  those of the registered granules and of the ones whose retirement is under way.
\<close>

theorem registry_counts_holders:
  assumes "(granule_step env)\<^sup>*\<^sup>* (empty_registry, {#}, {}) (s, H, R)" and "exclusive_regions env"
  shows "(\<forall>i p. registry s i = Some p \<longrightarrow> p \<in># H \<and> p \<notin> R \<and>
       (\<exists>g. granule_at s p = Some g \<and> range_start g = i * SZ_2M \<and> unat (users g) = count H p)) \<and>
     (\<forall>p\<in>#H. \<exists>i. registry s i = Some p) \<and>
     claimed (kevents s) = start_of s ` (ran (registry s) \<union> R) \<and>
     remapped (kevents s) = start_of s ` (ran (registry s) \<union> R)"
  using granules_reachable_inv [OF assms] granules_inv_held [of s H R]
  by (auto simp: granules_inv_def registered_ok_def alive_def)

theorem registry_counts_holders_witness:
  "(granule_step (working []))\<^sup>*\<^sup>* (empty_registry, {#}, {}) (one_granule, {#0#}, {}) \<and>
   exclusive_regions (working []) \<and> (\<exists>i. registry one_granule i = Some 0)"
  using registry_counts_holders [OF one_granule_reached working_exclusive] one_granule_reached
    working_exclusive by simp

text \<open>
  C24. The registry implements a multiset of granule indices: acquiring an index adds it once or, on
  an error, changes nothing; giving granules back removes exactly their indices; and an index is
  registered exactly if the multiset contains it.
\<close>

theorem registry_refines_multiset:
  assumes "granules_inv s H R" and "exclusive_regions env" and "unat index < 2 ^ 43"
    and "size H < 2 ^ 32 - 1" and "mset ps \<subseteq># H"
  shows "(\<forall>i. i \<in># held_indices s H \<longleftrightarrow> registry s i \<noteq> None) \<and>
    wp (hyper_granule_get env index) (\<lambda>r t. case r of
        Inl e \<Rightarrow> granules_inv t H R \<and> held_indices t H = held_indices s H
      | Inr p \<Rightarrow> granules_inv t (add_mset p H) R \<and>
          held_indices t (add_mset p H) = add_mset index (held_indices s H)) s \<and>
    wp (hyper_granules_put env ps) (\<lambda>_ t. granules_inv t (H - mset ps) R \<and>
        held_indices t (H - mset ps) = held_indices s H - mset (map (granule_index s) ps)) s"
proof (intro conjI allI)
  show "i \<in># held_indices s H \<longleftrightarrow> registry s i \<noteq> None" for i
    by (rule held_indices_registered [OF assms(1)])
  show "wp (hyper_granule_get env index) (\<lambda>r t. case r of
        Inl e \<Rightarrow> granules_inv t H R \<and> held_indices t H = held_indices s H
      | Inr p \<Rightarrow> granules_inv t (add_mset p H) R \<and>
          held_indices t (add_mset p H) = add_mset index (held_indices s H)) s"
    by (rule wp_mono [OF granule_registry.acquire_law [OF assms(1-4)]])
       (auto simp: held_indices_eq intro: image_mset_cong split: sum.splits)
  show "wp (hyper_granules_put env ps) (\<lambda>_ t. granules_inv t (H - mset ps) R \<and>
        held_indices t (H - mset ps) = held_indices s H - mset (map (granule_index s) ps)) s"
    by (rule wp_mono [OF granule_registry.give_back_law [OF assms(1,5)]])
       (auto simp: held_indices_eq image_mset_Diff [OF assms(5), symmetric] intro: image_mset_cong)
qed

theorem registry_refines_multiset_witness:
  "granules_inv one_granule {#0#} {} \<and>
   held_indices (snd (run_state (hyper_granules_put (working []) [0]) one_granule)) {#} =
     held_indices one_granule {#0#} - {#granule_index one_granule 0#}"
proof -
  have "wp (hyper_granules_put (working []) [0]) (\<lambda>_ t. granules_inv t ({#0#} - mset [0]) {} \<and>
      held_indices t ({#0#} - mset [0]) = held_indices one_granule {#0#} -
        mset (map (granule_index one_granule) [0])) one_granule"
    using registry_refines_multiset [OF one_granule_inv working_exclusive, of 3 "[0]"] by simp
  then show ?thesis using one_granule_inv by (simp add: wp_def case_prod_beta)
qed




section \<open>The guest memory device\<close>

text \<open>
  C26. A grant is published completely or not at all, whatever the kernel answers and wherever the
  preparation fails: on success the device maps exactly the requested pages, each of them inside its
  aperture, and holds the granules of these pages, each acquired once and in ascending order; on an
  error the device is as before and every granule acquired on the way has been given back.
\<close>

theorem prepare_grant_atomic:
  assumes "granules_inv s H R" and "exclusive_regions env" and "size H < 2 ^ 31" and "gm_dynamic (dev s)"
  shows "wp (hyper_memory_prepare_grant env p) (\<lambda>r t.
     if r = 0 then
       gm_pfns (dev s) = None \<and> mp_token p \<noteq> 0 \<and>
       (\<exists>aliases. length aliases = unat (mp_count p) \<and> unat (mp_count p) * 4096 = unat (mp_length p) \<and>
         mp_count p \<noteq> 0 \<and>
         (\<forall>a\<in>set aliases. hyper_io_page_aperture a (gm_aperture_start (dev s)) (gm_aperture_end (dev s))) \<and>
         (\<exists>ps. granules_inv t (H + mset ps) R \<and>
           dev t = (dev s)\<lparr>gm_pfns := Some (map (drop_bit 12) aliases), gm_granules := ps,
             gm_pages := ucast (mp_count p), gm_guest_base := mp_guest_base p\<rparr> \<and>
           map (granule_index t) ps = sorted_list_of_set ((\<lambda>a. a div SZ_2M) ` set aliases)))
     else granules_inv t H R \<and> dev t = dev s) s" (is "wp _ ?Q _")
proof (rule wp_mono [OF hyper_memory_prepare_spec [OF assms(1-3)]])
  fix r t assume "grant_post s H R p r t"
  with assms(4) show "?Q r t"
    unfolding grant_post_def published_post_def unique_indices_sorted list_all_iff
    by (cases "r = 0") (simp_all, metis)
qed

theorem prepare_grant_atomic_witness:
  "gm_dynamic (dev idle_device) \<and>
   gm_pages (dev (snd (run_state (hyper_memory_prepare_grant (working two_pages) two_page_grant) idle_device))) = 2"
proof -
  have d: "gm_dynamic (dev idle_device)" by (simp add: idle_device_def dynamic_device_def)
  obtain t where rt: "run_state (hyper_memory_prepare_grant (working two_pages) two_page_grant) idle_device = (0, t)"
    using two_page_grant_ok by (metis prod.collapse)
  show ?thesis
    using wp_runD [OF prepare_grant_atomic [OF idle_device_inv working_exclusive _ d] rt] d rt
    by (auto simp: two_page_grant_def)
qed

text \<open>
  C27. From any state in which a device without a grant stands beside any other users of the
  registry, after any sequence of operations of the device and of the others: every page the device
  can map lies in a granule that the device itself holds, whose region is claimed and whose pages
  are mapped in the kernel, and while user space has a mapping the page array exists.
\<close>

theorem mapped_pages_held:
  assumes "granules_inv s H R" and "gm_dynamic (dev s)" and "gm_granules (dev s) = []"
    and "gm_pfns (dev s) = None" and "gm_pages (dev s) = 0" and "gm_vmas (dev s) = 0"
    and "(memory_step env)\<^sup>*\<^sup>* (s, H, R) (t, H', R')" and "exclusive_regions env"
  shows "(gm_vmas (dev t) \<noteq> 0 \<longrightarrow> gm_pfns (dev t) \<noteq> None) \<and>
     (\<forall>i < gm_pages (dev t). \<exists>p\<in>set (gm_granules (dev t)).
        registry t (page_of (dev t) i div 512) = Some p \<and>
        (page_of (dev t) i div 512) * SZ_2M \<in> remapped (kevents t) \<and>
        (page_of (dev t) i div 512) * SZ_2M \<in> claimed (kevents t))"
proof -
  have "memory_inv s H R" using assms(1-6) by (simp add: memory_inv_def grant_covered_def)
  then have inv: "memory_inv t H' R'" and dynamic: "gm_dynamic (dev t)"
    using memory_reachable_inv [OF assms(7,8)] assms(2) by auto
  then show ?thesis
    using memory_inv_page [OF inv dynamic] by (auto simp: memory_inv_def device_page_def)
qed

theorem mapped_pages_held_witness:
  "\<exists>t H'. (memory_step (working two_pages))\<^sup>*\<^sup>* (idle_device, {#}, {}) (t, H', {}) \<and>
     gm_pages (dev t) = 2 \<and> gm_granules (dev t) \<noteq> []"
proof -
  let ?env = "working two_pages"
  obtain r t where rt: "run_state (hyper_memory_ioctl ?env (Memory_prepare two_page_grant)) idle_device = (r, t)"
    by fastforce
  have step: "(memory_step ?env)\<^sup>*\<^sup>* (idle_device, {#}, {}) (t, holders {#} idle_device t, {})"
    using memory_step.control [OF rt, where H = "{#}" and R = "{}"] by auto
  have two: "gm_pages (dev t) = 2" using two_page_prepared rt by simp
  have "\<exists>p\<in>set (gm_granules (dev t)). registry t (page_of (dev t) 0 div 512) = Some p"
    using mapped_pages_held [OF idle_device_inv _ _ _ _ _ step working_exclusive] two
    by (auto simp: idle_device_def dynamic_device_def fresh_memory_def)
  then show ?thesis using step two by force
qed

text \<open>
  Mapping a device: only device pages are ever given to the kernel; a mapping that succeeds has
  inserted every requested page, in order and at its address, and is counted; one that fails is not
  counted; and neither touches the registry.
\<close>

theorem mmap_outcome:
  "wp (hyper_memory_mmap env vma) (\<lambda>r t. heap t = heap s \<and> registry t = registry s \<and>
     (\<exists>es. kevents t = kevents s @ es \<and>
       (\<forall>at pfn. Vm_insert_page at pfn \<in> set (map fst es) \<longrightarrow> (\<exists>i < gm_pages (dev s). pfn = page_of (dev s) i)) \<and>
       (r = 0 \<longrightarrow> map fst es = map (\<lambda>i. Vm_insert_page (vm_start vma + push_bit 12 (of_nat i))
          (page_of (dev s) (vm_pgoff vma + of_nat i))) [0..<unat (vm_count vma)])) \<and>
     dev t = (if r = 0 then (dev s)\<lparr>gm_vmas := gm_vmas (dev s) + 1\<rparr> else dev s) \<and>
     (r = 0 \<longrightarrow> gm_live (dev s))) s"
  by (rule wp_mono [OF wp_conj [OF mmap_spec mmap_inserts]])
     (fastforce simp: mmap_post_def inserts_ok_def device_page_def inserted_def)

text \<open>
  C28. A grant is given up only when no mapping is left: while the device counts a mapping, the
  release command is refused and changes nothing; otherwise it succeeds and the device holds neither
  pages nor granules, so that the registry is left with the holders of the others.
\<close>

theorem release_needs_no_mapping:
  assumes "memory_inv s H R" and "exclusive_regions env" and "size H < 2 ^ 31" and "gm_live (dev s)"
  shows "wp (hyper_memory_ioctl env Memory_release) (\<lambda>r t.
     if gm_vmas (dev s) \<noteq> 0 then r = - EBUSY \<and> t = s
     else r = 0 \<and> gm_pfns (dev t) = None \<and> gm_granules (dev t) = [] \<and>
       granules_inv t (H - mset (gm_granules (dev s))) R) s"
  by (rule wp_mono [OF ioctl_spec [OF assms(1-3)]])
     (use assms(4) in \<open>auto simp: memory_inv_def holders_def split: if_splits\<close>)

theorem release_needs_no_mapping_witness:
  "gm_live (dev idle_device) \<and>
   gm_granules (dev (snd (run_state (hyper_memory_ioctl (working []) Memory_release) idle_device))) = []"
proof -
  have "memory_inv idle_device {#} {}"
    using idle_device_inv by (simp add: memory_inv_def grant_covered_def idle_device_def dynamic_device_def fresh_memory_def)
  from release_needs_no_mapping [OF this working_exclusive] show ?thesis
    by (simp add: wp_def case_prod_beta idle_device_def dynamic_device_def fresh_memory_def)
qed

text \<open>
  C29. Probing a memory device, whatever the device tree says and wherever the probe fails: a device
  that is registered retains exactly one reference to each page of its pool, and a failed probe
  leaves the page references as they were.
\<close>

theorem probe_keeps_no_page:
  "wp (hyper_memory_probe env) (\<lambda>r t.
     if r = 0 then gm_live (dev t) \<and> retained (kevents t) = retained (kevents s) +
       (if gm_dynamic (dev t) then {#}
        else mset (map (\<lambda>i. gm_first_pfn (dev t) + of_nat i) [0..<unat (gm_pages (dev t))]))
     else retained (kevents t) = retained (kevents s)) s"
  by (rule wp_mono [OF hyper_memory_probe_spec]) (auto simp: probed_def pool_def split: if_splits)

end
