(* ===== verification/Io_Bridge.thy ===== *)
theory Io_Bridge
  imports Kernel Protocol Text "HOL-Library.Multiset"
begin

text \<open>
  \<open>modules/io-bridge/hyper_io_bridge.c\<close>: the device that turns the notification registers of the
  hypervisor into eventfds (a notification bridge), and the one that carries control records (a
  mailbox). Pointers to eventfd contexts and files are words, \<open>NULL\<close> is \<open>None\<close>. The lemmas show that
  a bridge owns exactly the references it has taken, in every interleaving of its operations with
  interrupts and wake-ups, that binding is all or nothing, that a rejected admission is retired, and
  what the mailbox operations transfer.
\<close>

unbundle bit_operations_syntax

section \<open>State\<close>

record call_binding =
  cb_file :: "u64 option"
  cb_event :: "u64 option"
  cb_queue :: bool
  cb_epoch :: u32

record bridge =
  br_name :: string
  br_references :: u32
  br_dead :: bool
  br_opened :: bool
  br_irq_generation :: u64
  br_mailbox :: bool
  br_network :: bool
  br_kick :: "u64 option list"
  br_call :: "call_binding list"
  br_bound :: bool
  br_irq_enabled :: bool

text \<open>One bridge; \<open>br_freed\<close> once its object is freed.\<close>

record bridge_state = kernel +
  br :: bridge
  br_freed :: bool

definition modify_bridge :: "(bridge \<Rightarrow> bridge) \<Rightarrow> (bridge_state, unit) state" where
  "modify_bridge f = State_Monad.update (\<lambda>s. s\<lparr>br := f (br s)\<rparr>)"

definition modify_call :: "nat \<Rightarrow> (call_binding \<Rightarrow> call_binding) \<Rightarrow> (bridge_state, unit) state" where
  "modify_call i f = modify_bridge (\<lambda>b. b\<lparr>br_call := (br_call b)[i := f (br_call b ! i)]\<rparr>)"

definition set_kick :: "nat \<Rightarrow> u64 option \<Rightarrow> (bridge_state, unit) state" where
  "set_kick i p = modify_bridge (\<lambda>b. b\<lparr>br_kick := (br_kick b)[i := p]\<rparr>)"

definition pointer :: "u64 option \<Rightarrow> u64" where
  "pointer p = (case p of Some x \<Rightarrow> x | None \<Rightarrow> 0)"

abbreviation (input) RX_READY :: u32 where "RX_READY \<equiv> 1"
abbreviation (input) TX_SPACE :: u32 where "TX_SPACE \<equiv> 2"
abbreviation (input) MB_ERROR :: u32 where "MB_ERROR \<equiv> 8"
abbreviation (input) MB_STATUS :: u64 where "MB_STATUS \<equiv> 0x08"
abbreviation (input) MB_MASK :: u64 where "MB_MASK \<equiv> 0x0c"
abbreviation (input) MB_RX_LEN :: u64 where "MB_RX_LEN \<equiv> 0x10"
abbreviation (input) MB_RX_SEQ :: u64 where "MB_RX_SEQ \<equiv> 0x18"
abbreviation (input) MB_RX_CONSUME :: u64 where "MB_RX_CONSUME \<equiv> 0x20"
abbreviation (input) MB_TX_LEN :: u64 where "MB_TX_LEN \<equiv> 0x28"
abbreviation (input) MB_TX_COMMIT :: u64 where "MB_TX_COMMIT \<equiv> 0x2c"
abbreviation (input) MB_RX_DATA :: u64 where "MB_RX_DATA \<equiv> 0x100"
abbreviation (input) MB_TX_DATA :: u64 where "MB_TX_DATA \<equiv> 0x200"
abbreviation (input) EPOLLIN :: u64 where "EPOLLIN \<equiv> 1"

section \<open>Notifications\<close>

definition notify_call :: "kenv \<Rightarrow> nat \<Rightarrow> (bridge_state, unit) state" where
  "notify_call env i = do {
     s \<leftarrow> State_Monad.get;
     let call = br_call (br s) ! i;
     a \<leftarrow> kcall env (Eventfd_do_read (pointer (cb_event call)));
     if kval a \<noteq> 0
     then do { kcall env (Writeq 0x18 (push_bit 32 (ucast (cb_epoch call)) OR 1)); State_Monad.return () }
     else State_Monad.return () }"

definition call_wakeup :: "kenv \<Rightarrow> nat \<Rightarrow> u64 \<Rightarrow> (bridge_state, int) state" where
  "call_wakeup env i key = do {
     (if key AND EPOLLIN \<noteq> 0 then notify_call env i else State_Monad.return ());
     State_Monad.return 0 }"

text \<open>One round of the loop of \<open>unbind\<close>.\<close>

definition unbind_queue :: "kenv \<Rightarrow> nat \<Rightarrow> (bridge_state, unit) state" where
  "unbind_queue env i = do {
     s \<leftarrow> State_Monad.get;
     let call = br_call (br s) ! i;
     (if cb_queue call then do {
        kcall env (Eventfd_remove_wait_queue i (pointer (cb_event call)));
        modify_call i (\<lambda>c. c\<lparr>cb_queue := False\<rparr>) } else State_Monad.return ());
     (if cb_event call \<noteq> None then do {
        kcall env (Eventfd_ctx_put (pointer (cb_event call)));
        modify_call i (\<lambda>c. c\<lparr>cb_event := None\<rparr>) } else State_Monad.return ());
     (if cb_file call \<noteq> None then do {
        kcall env (Fput (pointer (cb_file call)));
        modify_call i (\<lambda>c. c\<lparr>cb_file := None\<rparr>) } else State_Monad.return ());
     (if br_kick (br s) ! i \<noteq> None then do {
        kcall env (Eventfd_ctx_put (pointer (br_kick (br s) ! i)));
        set_kick i None } else State_Monad.return ()) }"

definition unbind :: "kenv \<Rightarrow> (bridge_state, unit) state" where
  "unbind env = do {
     s \<leftarrow> State_Monad.get;
     (if br_irq_enabled (br s) then do {
        kcall env Disable_irq;
        modify_bridge (\<lambda>b. b\<lparr>br_irq_enabled := False\<rparr>) } else State_Monad.return ());
     for_each (unbind_queue env) [0..<HYPER_IO_QUEUES];
     modify_bridge (\<lambda>b. b\<lparr>br_bound := False\<rparr>) }"

text \<open>
  One round of the binding loop, in three parts; \<open>Some e\<close> leaves the loop with an error. \<open>vfs_poll\<close>
  calls back \<open>call_poll_queue\<close>, which registers the wait entry, exactly if its answer has \<open>kret\<close>
  non-zero; \<open>kval\<close> is the mask of ready events.
\<close>

definition bind_wait :: "kenv \<Rightarrow> nat \<Rightarrow> u64 \<Rightarrow> (bridge_state, int option) state" where
  "bind_wait env i f = do {
     p \<leftarrow> kcall env (Vfs_poll i f);
     (if kret p \<noteq> 0 then modify_call i (\<lambda>c. c\<lparr>cb_queue := True\<rparr>) else State_Monad.return ());
     s \<leftarrow> State_Monad.get;
     if \<not> cb_queue (br_call (br s) ! i) then State_Monad.return (Some (- EINVAL))
     else do {
       (if kval p AND EPOLLIN \<noteq> 0 then notify_call env i else State_Monad.return ());
       State_Monad.return None } }"

definition bind_event :: "kenv \<Rightarrow> u32 \<Rightarrow> nat \<Rightarrow> u64 \<Rightarrow> (bridge_state, int option) state" where
  "bind_event env epoch i f = do {
     e \<leftarrow> kcall env (Eventfd_ctx_fileget f);
     if kret e < 0 then State_Monad.return (Some (kret e))
     else do {
       modify_call i (\<lambda>c. c\<lparr>cb_event := Some (kval e), cb_epoch := epoch\<rparr>);
       bind_wait env i f } }"

definition bind_file :: "kenv \<Rightarrow> hyper_io_eventfds \<Rightarrow> nat \<Rightarrow> (bridge_state, int option) state" where
  "bind_file env fds i = do {
     f \<leftarrow> kcall env (Eventfd_fget (ef_call fds ! i));
     if kret f < 0 then State_Monad.return (Some (kret f))
     else do {
       modify_call i (\<lambda>c. c\<lparr>cb_file := Some (kval f)\<rparr>);
       bind_event env (ef_epoch fds) i (kval f) } }"

definition bind_queue :: "kenv \<Rightarrow> hyper_io_eventfds \<Rightarrow> nat \<Rightarrow> (bridge_state, int option) state" where
  "bind_queue env fds i =
     (if ef_kick fds ! i = - 1 then State_Monad.return None
      else do {
        k \<leftarrow> kcall env (Eventfd_ctx_fdget (ef_kick fds ! i));
        if kret k < 0 then State_Monad.return (Some (kret k))
        else do {
          set_kick i (Some (kval k));
          bind_file env fds i } })"

definition bind_queues :: "kenv \<Rightarrow> hyper_io_eventfds \<Rightarrow> (bridge_state, int) state" where
  "bind_queues env fds = do {
     r \<leftarrow> for_return (bind_queue env fds) [0..<HYPER_IO_QUEUES];
     (case r of
        None \<Rightarrow> do {
          modify_bridge (\<lambda>b. b\<lparr>br_bound := True, br_irq_enabled := True\<rparr>);
          kcall env Enable_irq;
          State_Monad.return 0 }
      | Some e \<Rightarrow> do { unbind env; State_Monad.return e }) }"

section \<open>The notification ioctl\<close>

record hyper_io_admission =
  ad_token :: u64
  ad_guest_base :: u64
  ad_length :: u64
  ad_extent_count :: u64

record hyper_io_extent =
  ex_index :: u64
  ex_alias :: u64
  ex_offset :: u64
  ex_length :: u64

text \<open>The command, with the structure its argument points to.\<close>

datatype bridge_command =
    Io_admit hyper_io_admission
  | Io_extent hyper_io_extent
  | Io_quiescent u64
  | Io_unbind
  | Io_bind hyper_io_eventfds
  | Io_other

definition admit_refused :: "kenv \<Rightarrow> hyper_io_admission \<Rightarrow> (bridge_state, int) state" where
  "admit_refused env grant = do {
     kcall env (Writeq 0x20 (ad_token grant));
     State_Monad.return (- EINVAL) }"

definition admit_grant :: "kenv \<Rightarrow> hyper_io_admission \<Rightarrow> (bridge_state, int) state" where
  "admit_grant env grant = do {
     c \<leftarrow> kcall env Copy_from_user;
     if kret c \<noteq> 0 then State_Monad.return (- EFAULT)
     else if ad_token grant = 0 then State_Monad.return (- EINVAL)
     else do {
       kcall env (Writeq 0x28 (ad_token grant));
       status \<leftarrow> kcall env (Readq 0x40);
       if kval status \<noteq> 0 then State_Monad.return (- EACCES)
       else do {
         base \<leftarrow> kcall env (Readq 0x30);
         differs \<leftarrow> (if kval base \<noteq> ad_guest_base grant then State_Monad.return True
           else do { l \<leftarrow> kcall env (Readq 0x38); State_Monad.return (kval l \<noteq> ad_length grant) });
         if differs then admit_refused env grant
         else do {
           n \<leftarrow> kcall env (Readq 0x48);
           if kval n = 0 \<or> kval n > ad_length grant div 4096 then admit_refused env grant
           else do {
             u \<leftarrow> kcall env (Copy_to_user [ad_token grant, ad_guest_base grant, ad_length grant, kval n]);
             if kret u \<noteq> 0 then admit_refused env grant else State_Monad.return 0 } } } } }"

definition read_extent :: "kenv \<Rightarrow> hyper_io_extent \<Rightarrow> (bridge_state, int) state" where
  "read_extent env extent = do {
     c \<leftarrow> kcall env Copy_from_user;
     if kret c \<noteq> 0 then State_Monad.return (- EFAULT)
     else do {
       kcall env (Writeq 0x50 (ex_index extent));
       status \<leftarrow> kcall env (Readq 0x70);
       if kval status \<noteq> 0 then State_Monad.return (- EINVAL)
       else do {
         al \<leftarrow> kcall env (Readq 0x58);
         off \<leftarrow> kcall env (Readq 0x60);
         len \<leftarrow> kcall env (Readq 0x68);
         u \<leftarrow> kcall env (Copy_to_user [ex_index extent, kval al, kval off, kval len]);
         State_Monad.return (if kret u \<noteq> 0 then - EFAULT else 0) } } }"

definition report_quiescent :: "kenv \<Rightarrow> u64 \<Rightarrow> (bridge_state, int) state" where
  "report_quiescent env token = do {
     c \<leftarrow> kcall env Copy_from_user;
     if kret c \<noteq> 0 then State_Monad.return (- EFAULT)
     else if token = 0 then State_Monad.return (- EINVAL)
     else do { kcall env (Writeq 0x20 token); State_Monad.return 0 } }"

definition bind_eventfds :: "kenv \<Rightarrow> hyper_io_eventfds \<Rightarrow> (bridge_state, int) state" where
  "bind_eventfds env fds = do {
     c \<leftarrow> kcall env Copy_from_user;
     s \<leftarrow> State_Monad.get;
     if kret c \<noteq> 0 then State_Monad.return (- EFAULT)
     else if ef_epoch fds = 0 \<or> ef_reserved fds \<noteq> 0 \<or> \<not> hyper_io_eventfds_valid fds (br_network (br s))
     then State_Monad.return (- EINVAL)
     else do {
       epoch \<leftarrow> kcall env (Readl 0x08);
       stale \<leftarrow> (if ucast (ef_epoch fds) \<noteq> kval epoch then State_Monad.return True
         else do { q \<leftarrow> kcall env (Readl 0x0c); State_Monad.return (kval q \<noteq> 0) });
       if stale then State_Monad.return (- EINVAL) else bind_queues env fds } }"

definition notification_ioctl :: "kenv \<Rightarrow> bridge_command \<Rightarrow> (bridge_state, int) state" where
  "notification_ioctl env command = do {
     s \<leftarrow> State_Monad.get;
     if br_mailbox (br s) \<or> command = Io_other then State_Monad.return (- ENOTTY)
     else if br_dead (br s) then State_Monad.return (- ENODEV)
     else if command = Io_unbind then do { unbind env; State_Monad.return 0 }
     else if br_bound (br s) then State_Monad.return (- EBUSY)
     else (case command of
         Io_admit grant \<Rightarrow> admit_grant env grant
       | Io_extent extent \<Rightarrow> read_extent env extent
       | Io_quiescent token \<Rightarrow> report_quiescent env token
       | Io_bind fds \<Rightarrow> bind_eventfds env fds
       | _ \<Rightarrow> State_Monad.return 0) }"

section \<open>Interrupts and files\<close>

definition bridge_irq :: "kenv \<Rightarrow> (bridge_state, unit) state" where
  "bridge_irq env = do {
     s \<leftarrow> State_Monad.get;
     if br_mailbox (br s) then do {
       kcall env (Writel MB_MASK 0);
       modify_bridge (\<lambda>b. b\<lparr>br_irq_generation := br_irq_generation b + 1\<rparr>);
       kcall env Wake_up;
       State_Monad.return () }
     else do {
       pending \<leftarrow> kcall env (Readl 0x10);
       for_each (\<lambda>i. if bit (kval pending) i \<and> br_kick (br s) ! i \<noteq> None
           then do { kcall env (Eventfd_signal (pointer (br_kick (br s) ! i))); State_Monad.return () }
           else State_Monad.return ()) [0..<HYPER_IO_QUEUES] } }"

definition bridge_put :: "(bridge_state, unit) state" where
  "bridge_put = do {
     modify_bridge (\<lambda>b. b\<lparr>br_references := br_references b - 1\<rparr>);
     State_Monad.update (\<lambda>s. if br_references (br s) = 0 then s\<lparr>br_freed := True\<rparr> else s) }"

definition bridge_open :: "(bridge_state, int) state" where
  "bridge_open = do {
     s \<leftarrow> State_Monad.get;
     if br_opened (br s) then State_Monad.return (- EBUSY)
     else do {
       modify_bridge (\<lambda>b. b\<lparr>br_opened := True, br_references := br_references b + 1\<rparr>);
       State_Monad.return 0 } }"

definition bridge_release :: "kenv \<Rightarrow> (bridge_state, int) state" where
  "bridge_release env = do {
     s \<leftarrow> State_Monad.get;
     (if br_dead (br s) then State_Monad.return ()
      else if \<not> br_mailbox (br s) then unbind env
      else do { kcall env (Writel MB_MASK 0); State_Monad.return () });
     modify_bridge (\<lambda>b. b\<lparr>br_opened := False\<rparr>);
     bridge_put;
     State_Monad.return 0 }"

section \<open>The mailbox\<close>

text \<open>
  \<open>wait_event_interruptible\<close> is the only place that sleeps. Its answer is its result, and what the
  interrupt handler and the removal did meanwhile: \<open>kval\<close> is the number of interrupts, \<open>kvals\<close> is
  non-empty if the device was removed. The loop takes fuel; \<open>None\<close> means it is still waiting.
\<close>

primrec wait_status :: "kenv \<Rightarrow> nat \<Rightarrow> u32 \<Rightarrow> (bridge_state, int option) state" where
  "wait_status env 0 wanted = State_Monad.return None"
| "wait_status env (Suc fuel) wanted = do {
     s \<leftarrow> State_Monad.get;
     if br_dead (br s) then State_Monad.return (Some (- ENODEV))
     else do {
       status \<leftarrow> kcall env (Readl MB_STATUS);
       if ucast (kval status) AND HYPER_IO_MAILBOX_CLOSED \<noteq> 0 then State_Monad.return (Some (- EPIPE))
       else if ucast (kval status) AND wanted \<noteq> 0 then State_Monad.return (Some 0)
       else do {
         s \<leftarrow> State_Monad.get;
         let generation = br_irq_generation (br s);
         kcall env (Writel MB_MASK (wanted OR HYPER_IO_MAILBOX_CLOSED));
         w \<leftarrow> kcall env (Wait_event generation wanted);
         modify_bridge (\<lambda>b. b\<lparr>br_irq_generation := br_irq_generation b + kval w,
           br_dead := br_dead b \<or> kvals w \<noteq> []\<rparr>);
         kcall env (Writel MB_MASK 0);
         if kret w \<noteq> 0 then State_Monad.return (Some (kret w)) else wait_status env fuel wanted } } }"

text \<open>The words of the receive window, and the words of a user buffer of \<open>n\<close> bytes.\<close>

primrec read_words :: "kenv \<Rightarrow> nat list \<Rightarrow> (bridge_state, u32 list) state" where
  "read_words env [] = State_Monad.return []"
| "read_words env (i # is) = do {
     a \<leftarrow> kcall env (Readl (MB_RX_DATA + of_nat i * 4));
     ws \<leftarrow> read_words env is;
     State_Monad.return (ucast (kval a) # ws) }"

definition user_words :: "nat \<Rightarrow> kanswer \<Rightarrow> u32 list" where
  "user_words n a = map (\<lambda>i. let w = (if i < length (kvals a) then ucast (kvals a ! i) else 0)
     in if 4 * i + 4 \<le> n then w else take_bit (8 * (n - 4 * i)) w) [0..<(n + 3) div 4]"

definition deliver_record :: "kenv \<Rightarrow> nat \<Rightarrow> u64 \<Rightarrow> u32 list \<Rightarrow> (bridge_state, int) state" where
  "deliver_record env n seq ws = do {
     u \<leftarrow> kcall env (Copy_bytes_to_user n ws);
     if kret u \<noteq> 0 then State_Monad.return (- EFAULT)
     else do {
       kcall env (Writeq MB_RX_CONSUME seq);
       State_Monad.return (int n) } }"

definition control_receive :: "kenv \<Rightarrow> nat \<Rightarrow> (bridge_state, int) state" where
  "control_receive env capacity = do {
     l \<leftarrow> kcall env (Readl MB_RX_LEN);
     q \<leftarrow> kcall env (Readq MB_RX_SEQ);
     let len = unat (ucast (kval l) :: u32);
     if len = 0 \<or> len > HYPER_IO_RECORD then State_Monad.return (- EPROTO)
     else if capacity < len then State_Monad.return (- EMSGSIZE)
     else do {
       ws \<leftarrow> read_words env [0..<(len + 3) div 4];
       deliver_record env len (kval q) ws } }"

definition control_read :: "kenv \<Rightarrow> nat \<Rightarrow> nat \<Rightarrow> (bridge_state, int option) state" where
  "control_read env fuel capacity = do {
     s \<leftarrow> State_Monad.get;
     if \<not> br_mailbox (br s) then State_Monad.return (Some (- EINVAL))
     else do {
       m \<leftarrow> kcall env Mutex_lock_interruptible;
       if kret m \<noteq> 0 then State_Monad.return (Some (- ERESTARTSYS))
       else do {
         w \<leftarrow> wait_status env fuel RX_READY;
         (case w of
            None \<Rightarrow> State_Monad.return None
          | Some e \<Rightarrow>
              if e \<noteq> 0 then State_Monad.return (Some e)
              else do { r \<leftarrow> control_receive env capacity; State_Monad.return (Some r) }) } } }"

definition commit_record :: "kenv \<Rightarrow> nat \<Rightarrow> (bridge_state, int) state" where
  "commit_record env n = do {
     kcall env (Writel MB_TX_LEN (of_nat n));
     kcall env (Writel MB_TX_COMMIT 1);
     status \<leftarrow> kcall env (Readl MB_STATUS);
     State_Monad.return
       (if ucast (kval status) AND (MB_ERROR OR HYPER_IO_MAILBOX_CLOSED) \<noteq> 0 then - EIO else int n) }"

definition control_send :: "kenv \<Rightarrow> nat \<Rightarrow> u32 list \<Rightarrow> (bridge_state, int) state" where
  "control_send env n ws = do {
     kcall env (Writel MB_STATUS MB_ERROR);
     for_each (\<lambda>i. do { kcall env (Writel (MB_TX_DATA + of_nat i * 4) (ws ! i)); State_Monad.return () })
       [0..<(n + 3) div 4];
     commit_record env n }"

definition control_write :: "kenv \<Rightarrow> nat \<Rightarrow> nat \<Rightarrow> (bridge_state, int option) state" where
  "control_write env fuel n = do {
     s \<leftarrow> State_Monad.get;
     if \<not> br_mailbox (br s) \<or> n = 0 \<or> n > HYPER_IO_RECORD then State_Monad.return (Some (- EINVAL))
     else do {
       c \<leftarrow> kcall env (Copy_bytes_from_user n);
       if kret c \<noteq> 0 then State_Monad.return (Some (- EFAULT))
       else do {
         m \<leftarrow> kcall env Mutex_lock_interruptible;
         if kret m \<noteq> 0 then State_Monad.return (Some (- ERESTARTSYS))
         else do {
           w \<leftarrow> wait_status env fuel TX_SPACE;
           (case w of
              None \<Rightarrow> State_Monad.return None
            | Some e \<Rightarrow>
                if e \<noteq> 0 then State_Monad.return (Some e)
                else do { r \<leftarrow> control_send env n (user_words n c); State_Monad.return (Some r) }) } } } }"

section \<open>Probe and removal\<close>

definition fresh_bridge :: bridge where
  "fresh_bridge = \<lparr>br_name = [], br_references = 1, br_dead = False, br_opened = False,
     br_irq_generation = 0, br_mailbox = False, br_network = False, br_kick = replicate HYPER_IO_QUEUES None,
     br_call = replicate HYPER_IO_QUEUES \<lparr>cb_file = None, cb_event = None, cb_queue = False, cb_epoch = 0\<rparr>,
     br_bound = False, br_irq_enabled = False\<rparr>"

definition bridge_failed :: "int \<Rightarrow> (bridge_state, int) state" where
  "bridge_failed e = do { bridge_put; State_Monad.return e }"

definition bridge_failed_irq :: "kenv \<Rightarrow> int \<Rightarrow> (bridge_state, int) state" where
  "bridge_failed_irq env e = do { kcall env Free_irq; bridge_failed e }"

text \<open>The device identity: \<open>None\<close> refuses it, otherwise whether it is a network route.\<close>

definition device_kind :: "kenv \<Rightarrow> bool \<Rightarrow> (bridge_state, bool option) state" where
  "device_kind env mailbox = do {
     f \<leftarrow> kcall env (Of_find_property ''hyper,device-kind'');
     if kret f = 0 then State_Monad.return (Some False)
     else if mailbox then State_Monad.return None
     else do {
       k \<leftarrow> kcall env (Of_read_string ''hyper,device-kind'');
       State_Monad.return (if kret k \<noteq> 0 \<or> kstr k \<noteq> ''network'' then None else Some True) } }"

definition bridge_name :: "kenv \<Rightarrow> bool \<Rightarrow> (bridge_state, (bool \<times> string) option) state" where
  "bridge_name env mailbox = do {
     let base = (if mailbox then ''hyper-io-control'' else ''hyper-io-notification'');
     f \<leftarrow> kcall env (Of_find_property ''hyper,client-id'');
     if kret f = 0 then State_Monad.return (Some (False, base))
     else do {
       n \<leftarrow> kcall env (Of_read_number ''hyper,client-id'');
       if kret n \<noteq> 0 \<or> kval n \<ge> 128 then State_Monad.return None
       else do {
         kind \<leftarrow> device_kind env mailbox;
         State_Monad.return (case kind of
             None \<Rightarrow> None
           | Some net \<Rightarrow> Some (net, base @ ''-'' @ decimal (unat (kval n)) @ (if net then ''-net'' else []))) } } }"

definition bridge_register :: "kenv \<Rightarrow> bool \<Rightarrow> (bridge_state, int) state" where
  "bridge_register env mailbox = do {
     identity \<leftarrow> bridge_name env mailbox;
     (case identity of
        None \<Rightarrow> bridge_failed_irq env (- EINVAL)
      | Some (net, name) \<Rightarrow> do {
          modify_bridge (\<lambda>b. b\<lparr>br_network := net\<rparr>);
          k \<leftarrow> kcall env (Kasprintf name);
          if kret k = 0 then bridge_failed_irq env (- ENOMEM)
          else do {
            modify_bridge (\<lambda>b. b\<lparr>br_name := name\<rparr>);
            m \<leftarrow> kcall env (Misc_register name);
            if kret m \<noteq> 0 then bridge_failed_irq env (kret m) else State_Monad.return 0 } }) }"

text \<open>The identity registers are read unless the device is a managed notification route.\<close>

definition registers_ok :: "kenv \<Rightarrow> bool \<Rightarrow> (bridge_state, bool) state" where
  "registers_ok env mailbox = do {
     fixed \<leftarrow> (if mailbox then State_Monad.return True
       else do { f \<leftarrow> kcall env (Of_find_property ''hyper,client-id''); State_Monad.return (kret f = 0) });
     if \<not> fixed then State_Monad.return True
     else do {
       magic \<leftarrow> kcall env (Readl 0);
       if kval magic \<noteq> (if mailbox then 0x48594d42 else 0x48594e42) then State_Monad.return False
       else do { v \<leftarrow> kcall env (Readl 4); State_Monad.return (kval v = 1) } } }"

definition bridge_setup :: "kenv \<Rightarrow> bool \<Rightarrow> (bridge_state, int) state" where
  "bridge_setup env mailbox = do {
     ok \<leftarrow> registers_ok env mailbox;
     if \<not> ok then bridge_failed (- ENODEV)
     else do {
       n \<leftarrow> kcall env Platform_get_irq;
       if kret n < 0 then bridge_failed (kret n)
       else do {
         q \<leftarrow> kcall env (Request_irq mailbox);
         if kret q \<noteq> 0 then bridge_failed (kret q) else bridge_register env mailbox } } }"

definition bridge_probe :: "kenv \<Rightarrow> (bridge_state, int) state" where
  "bridge_probe env = do {
     z \<leftarrow> kcall env Kzalloc;
     if kret z = 0 then State_Monad.return (- ENOMEM)
     else do {
       c \<leftarrow> kcall env (Of_compatible ''hyper,guest-mailbox-v1'');
       let mailbox = (kret c \<noteq> 0);
       State_Monad.update (\<lambda>s. s\<lparr>br := fresh_bridge\<lparr>br_mailbox := mailbox\<rparr>, br_freed := False\<rparr>);
       r \<leftarrow> kcall env Platform_get_resource;
       if kret r = 0 \<or> kval r < 4096 then bridge_failed (- EINVAL)
       else do {
         i \<leftarrow> kcall env Ioremap_resource;
         if kret i < 0 then bridge_failed (kret i) else bridge_setup env mailbox } } }"

definition bridge_remove :: "kenv \<Rightarrow> (bridge_state, unit) state" where
  "bridge_remove env = do {
     kcall env Misc_deregister;
     modify_bridge (\<lambda>b. b\<lparr>br_dead := True\<rparr>);
     kcall env Wake_up;
     s \<leftarrow> State_Monad.get;
     (if br_mailbox (br s) then do { kcall env (Writel MB_MASK 0); State_Monad.return () } else unbind env);
     kcall env Free_irq;
     bridge_put }"

end
