(* ===== verification/Bridge_References.thy ===== *)
theory Bridge_References
  imports Io_Bridge
begin

text \<open>
  The references a bridge takes and gives back: a ledger of the calls it has made, the invariant that
  ties the ledger to the fields of the bridge, and what each operation does to both.
\<close>

section \<open>The references a bridge owns\<close>

text \<open>
  The ledger of a history: the eventfd contexts and files taken and not given back, the wait entries
  registered, whether the interrupt is enabled and requested, and whether every use so far was sound:
  only owned contexts are signalled, drained or given back, none of them while an interrupt can still
  read it, and only registered wait entries are removed.
\<close>

record ledger =
  lg_contexts :: "u64 multiset"
  lg_files :: "u64 multiset"
  lg_waiting :: "nat set"
  lg_irq_on :: bool
  lg_irq_live :: bool
  lg_sound :: bool

fun ledger_step :: "ledger \<Rightarrow> kevent \<Rightarrow> ledger" where
  "ledger_step L (Eventfd_ctx_fdget fd, a) =
     (if kret a < 0 then L else L\<lparr>lg_contexts := add_mset (kval a) (lg_contexts L)\<rparr>)"
| "ledger_step L (Eventfd_ctx_fileget f, a) =
     (if kret a < 0 then L\<lparr>lg_sound := lg_sound L \<and> f \<in># lg_files L\<rparr>
      else L\<lparr>lg_contexts := add_mset (kval a) (lg_contexts L), lg_sound := lg_sound L \<and> f \<in># lg_files L\<rparr>)"
| "ledger_step L (Eventfd_fget fd, a) =
     (if kret a < 0 then L else L\<lparr>lg_files := add_mset (kval a) (lg_files L)\<rparr>)"
| "ledger_step L (Eventfd_ctx_put p, a) =
     L\<lparr>lg_contexts := lg_contexts L - {#p#}, lg_sound := lg_sound L \<and> p \<in># lg_contexts L \<and> \<not> lg_irq_on L\<rparr>"
| "ledger_step L (Fput f, a) =
     L\<lparr>lg_files := lg_files L - {#f#}, lg_sound := lg_sound L \<and> f \<in># lg_files L\<rparr>"
| "ledger_step L (Eventfd_signal p, a) = L\<lparr>lg_sound := lg_sound L \<and> p \<in># lg_contexts L\<rparr>"
| "ledger_step L (Eventfd_do_read p, a) = L\<lparr>lg_sound := lg_sound L \<and> p \<in># lg_contexts L\<rparr>"
| "ledger_step L (Vfs_poll i f, a) =
     L\<lparr>lg_waiting := (if kret a \<noteq> 0 then insert i (lg_waiting L) else lg_waiting L),
       lg_sound := lg_sound L \<and> f \<in># lg_files L\<rparr>"
| "ledger_step L (Eventfd_remove_wait_queue i p, a) =
     L\<lparr>lg_waiting := lg_waiting L - {i}, lg_sound := lg_sound L \<and> i \<in> lg_waiting L \<and> p \<in># lg_contexts L\<rparr>"
| "ledger_step L (Enable_irq, a) = L\<lparr>lg_irq_on := True\<rparr>"
| "ledger_step L (Disable_irq, a) = L\<lparr>lg_irq_on := False\<rparr>"
| "ledger_step L (Request_irq auto, a) = (if kret a \<noteq> 0 then L else L\<lparr>lg_irq_live := True\<rparr>)"
| "ledger_step L (Free_irq, a) = L\<lparr>lg_irq_live := False\<rparr>"
| "ledger_step L e = L"

definition empty_ledger :: ledger where
  "empty_ledger = \<lparr>lg_contexts = {#}, lg_files = {#}, lg_waiting = {}, lg_irq_on = False, lg_irq_live = False,
     lg_sound = True\<rparr>"

definition ledger_of :: "kevent list \<Rightarrow> ledger" where
  "ledger_of es = foldl ledger_step empty_ledger es"

fun reference_call :: "kcall \<Rightarrow> bool" where
  "reference_call (Eventfd_ctx_fdget fd) = True"
| "reference_call (Eventfd_ctx_fileget f) = True"
| "reference_call (Eventfd_fget fd) = True"
| "reference_call (Eventfd_ctx_put p) = True"
| "reference_call (Fput f) = True"
| "reference_call (Eventfd_signal p) = True"
| "reference_call (Eventfd_do_read p) = True"
| "reference_call (Vfs_poll i f) = True"
| "reference_call (Eventfd_remove_wait_queue i p) = True"
| "reference_call Enable_irq = True"
| "reference_call Disable_irq = True"
| "reference_call (Request_irq auto) = True"
| "reference_call Free_irq = True"
| "reference_call c = False"

lemma ledger_step_other [simp]: "\<not> reference_call c \<Longrightarrow> ledger_step L (c, a) = L"
  by (cases c) simp_all

lemma ledger_append [simp]: "ledger_of (es @ fs) = foldl ledger_step (ledger_of es) fs"
  by (simp add: ledger_of_def)

text \<open>The pointers of an array that are not \<open>NULL\<close>.\<close>

definition opt_mset :: "'b option \<Rightarrow> 'b multiset" where
  "opt_mset p = (case p of Some x \<Rightarrow> {#x#} | None \<Rightarrow> {#})"

lemma opt_mset_simps [simp]: "opt_mset None = {#}" "opt_mset (Some x) = {#x#}"
  by (simp_all add: opt_mset_def)

definition ptrs :: "'b option list \<Rightarrow> 'b multiset" where
  "ptrs ps = sum_list (map opt_mset ps)"

lemma ptrs_simps [simp]: "ptrs [] = {#}" "ptrs (p # ps) = opt_mset p + ptrs ps"
  by (simp_all add: ptrs_def)

lemma ptrs_member: "i < length ps \<Longrightarrow> opt_mset (ps ! i) \<subseteq># ptrs ps"
proof (induction ps arbitrary: i)
  case (Cons p ps)
  then show ?case by (cases i) (auto simp: subset_mset.add_increasing)
qed simp

lemma ptrs_update: "i < length ps \<Longrightarrow> ptrs (ps[i := v]) = ptrs ps - opt_mset (ps ! i) + opt_mset v"
proof (induction ps arbitrary: i)
  case (Cons p ps)
  then show ?case
  proof (cases i)
    case (Suc j)
    have "opt_mset p + ptrs ps - opt_mset (ps ! j) = opt_mset p + (ptrs ps - opt_mset (ps ! j))"
      using Suc Cons.prems by (intro multiset_diff_union_assoc ptrs_member) simp
    then show ?thesis using Suc Cons by (simp add: add.assoc)
  qed simp
qed simp

lemma ptrs_set: "x \<in># ptrs ps \<longleftrightarrow> Some x \<in> set ps"
  by (induction ps) (auto simp: opt_mset_def split: option.splits)

lemma map_update_same: "i < length xs \<Longrightarrow> (map f xs)[i := f (xs ! i)] = map f xs"
  by (simp add: map_update [symmetric])

definition contexts :: "bridge \<Rightarrow> u64 multiset" where
  "contexts b = ptrs (br_kick b) + ptrs (map cb_event (br_call b))"

definition files :: "bridge \<Rightarrow> u64 multiset" where
  "files b = ptrs (map cb_file (br_call b))"

definition wired :: "bridge_state \<Rightarrow> bool" where
  "wired s \<longleftrightarrow> (let b = br s; L = ledger_of (kevents s) in
     length (br_kick b) = HYPER_IO_QUEUES \<and> length (br_call b) = HYPER_IO_QUEUES \<and>
     lg_contexts L = contexts b \<and> lg_files L = files b \<and>
     lg_waiting L = {i. i < HYPER_IO_QUEUES \<and> cb_queue (br_call b ! i)} \<and>
     lg_irq_on L = br_irq_enabled b \<and> lg_sound L \<and>
     (\<forall>i<HYPER_IO_QUEUES. cb_queue (br_call b ! i) \<longrightarrow> cb_event (br_call b ! i) \<noteq> None))"

lemma br_kcalled [simp]: "br (kcalled env c s) = br s" "br_freed (kcalled env c s) = br_freed s"
  by (simp_all add: kcalled_def)

lemma wp_modify_bridge [wp_rules]: "wp (modify_bridge f) Q = (\<lambda>s. Q () (s\<lparr>br := f (br s)\<rparr>))"
  by (simp add: modify_bridge_def wp_rules)

lemma wp_modify_call [wp_rules]:
  "wp (modify_call i f) Q = (\<lambda>s. Q () (s\<lparr>br := (br s)\<lparr>br_call := (br_call (br s))[i := f (br_call (br s) ! i)]\<rparr>\<rparr>))"
  by (simp add: modify_call_def wp_rules)

lemma wp_set_kick [wp_rules]:
  "wp (set_kick i p) Q = (\<lambda>s. Q () (s\<lparr>br := (br s)\<lparr>br_kick := (br_kick (br s))[i := p]\<rparr>\<rparr>))"
  by (simp add: set_kick_def wp_rules)

lemma linked_other [simp]: "\<not> reference_call c \<Longrightarrow> wired (kcalled env c s) \<longleftrightarrow> wired s"
  by (simp add: wired_def)

lemma linked_length: "wired s \<Longrightarrow> length (br_kick (br s)) = HYPER_IO_QUEUES \<and> length (br_call (br s)) = HYPER_IO_QUEUES"
  by (simp add: wired_def Let_def)

lemma ptrs_nth: "i < length xs \<Longrightarrow> f (xs ! i) = Some p \<Longrightarrow> p \<in># ptrs (map f xs)"
  by (auto simp: ptrs_set intro!: image_eqI [of _ f "xs ! i"])

lemma event_owned: "wired s \<Longrightarrow> i < HYPER_IO_QUEUES \<Longrightarrow> cb_event (br_call (br s) ! i) = Some p \<Longrightarrow> p \<in># contexts (br s)"
  and file_owned: "wired s \<Longrightarrow> i < HYPER_IO_QUEUES \<Longrightarrow> cb_file (br_call (br s) ! i) = Some p \<Longrightarrow> p \<in># files (br s)"
  and kick_owned: "wired s \<Longrightarrow> i < HYPER_IO_QUEUES \<Longrightarrow> br_kick (br s) ! i = Some p \<Longrightarrow> p \<in># contexts (br s)"
  using ptrs_nth [of i "br_kick (br s)" "\<lambda>x. x"]
  by (simp_all add: linked_length contexts_def files_def ptrs_nth)



section \<open>Taking and giving back references\<close>

lemma swap_member:
  fixes x :: "'b multiset"
  shows "x \<subseteq># a \<Longrightarrow> a + v - x + b = a + b - x + v" and "x \<subseteq># b \<Longrightarrow> a + (b + v - x) = a + b - x + v"
proof -
  show "a + v - x + b = a + b - x + v" if "x \<subseteq># a"
  proof (rule multiset_eqI)
    show "count (a + v - x + b) y = count (a + b - x + v) y" for y
      using mset_subset_eq_count [OF that, of y] by simp
  qed
  show "a + (b + v - x) = a + b - x + v" if "x \<subseteq># b"
  proof (rule multiset_eqI)
    show "count (a + (b + v - x)) y = count (a + b - x + v) y" for y
      using mset_subset_eq_count [OF that, of y] by simp
  qed
qed

lemma contexts_kick:
  "i < length (br_kick b) \<Longrightarrow>
     contexts (b\<lparr>br_kick := (br_kick b)[i := v]\<rparr>) = contexts b - opt_mset (br_kick b ! i) + opt_mset v"
  using ptrs_member [of i "br_kick b"] by (simp add: contexts_def ptrs_update swap_member(1))

lemma contexts_call:
  assumes "i < length (br_call b)"
  shows "contexts (b\<lparr>br_call := (br_call b)[i := c]\<rparr>) = contexts b - opt_mset (cb_event (br_call b ! i)) + opt_mset (cb_event c)"
proof -
  have "opt_mset (cb_event (br_call b ! i)) \<subseteq># ptrs (map cb_event (br_call b))"
    using assms ptrs_member [of i "map cb_event (br_call b)"] by simp
  then show ?thesis
    using assms by (simp add: contexts_def map_update ptrs_update swap_member(2))
qed

lemma files_call:
  "i < length (br_call b) \<Longrightarrow>
     files (b\<lparr>br_call := (br_call b)[i := c]\<rparr>) = files b - opt_mset (cb_file (br_call b ! i)) + opt_mset (cb_file c)"
  by (simp add: files_def map_update ptrs_update)

lemma kept_member: "opt_mset (cb_event (br_call b ! i)) \<subseteq># contexts b" if "i < length (br_call b)"
  using ptrs_member [of i "map cb_event (br_call b)"] that
  by (auto simp: contexts_def intro: subset_mset.add_increasing)

lemma kept_file: "opt_mset (cb_file (br_call b ! i)) \<subseteq># files b" if "i < length (br_call b)"
  using ptrs_member [of i "map cb_file (br_call b)"] that by (auto simp: files_def)

lemma files_kick [simp]: "files (b\<lparr>br_kick := ks\<rparr>) = files b"
  by (simp add: files_def)

lemma contexts_frames [simp]:
  "contexts (b\<lparr>br_irq_enabled := x\<rparr>) = contexts b" "contexts (b\<lparr>br_bound := x\<rparr>) = contexts b"
  "files (b\<lparr>br_irq_enabled := x\<rparr>) = files b" "files (b\<lparr>br_bound := x\<rparr>) = files b"
  by (simp_all add: contexts_def files_def)

lemmas entry_simps = wired_def Let_def contexts_kick contexts_call files_call kept_member kept_file nth_list_update

lemma take_kick:
  assumes "wired s" and "i < HYPER_IO_QUEUES" and "br_kick (br s) ! i = None"
    and "\<not> kret (env (kevents s) (Eventfd_ctx_fdget fd)) < 0"
  shows "wired (kcalled env (Eventfd_ctx_fdget fd) s
    \<lparr>br := (br s)\<lparr>br_kick := (br_kick (br s))[i := Some (kval (env (kevents s) (Eventfd_ctx_fdget fd)))]\<rparr>\<rparr>)"
  using assms by (simp add: entry_simps)

lemma take_file:
  assumes "wired s" and "i < HYPER_IO_QUEUES" and "cb_file (br_call (br s) ! i) = None"
    and "\<not> kret (env (kevents s) (Eventfd_fget fd)) < 0"
  shows "wired (kcalled env (Eventfd_fget fd) s
    \<lparr>br := (br s)\<lparr>br_call := (br_call (br s))[i := (br_call (br s) ! i)\<lparr>cb_file := Some (kval (env (kevents s) (Eventfd_fget fd)))\<rparr>]\<rparr>\<rparr>)"
  using assms by (auto simp: entry_simps)

lemma take_event:
  assumes "wired s" and "i < HYPER_IO_QUEUES" and "cb_event (br_call (br s) ! i) = None"
    and "cb_file (br_call (br s) ! i) = Some f" and "\<not> kret (env (kevents s) (Eventfd_ctx_fileget f)) < 0"
  shows "wired (kcalled env (Eventfd_ctx_fileget f) s
    \<lparr>br := (br s)\<lparr>br_call := (br_call (br s))[i := (br_call (br s) ! i)\<lparr>cb_event := Some (kval (env (kevents s) (Eventfd_ctx_fileget f))),
       cb_epoch := e\<rparr>]\<rparr>\<rparr>)"
  using assms file_owned [OF assms(1,2,4)] by (auto simp: entry_simps)

lemma take_wait:
  assumes "wired s" and "i < HYPER_IO_QUEUES" and "cb_event (br_call (br s) ! i) \<noteq> None"
    and "cb_file (br_call (br s) ! i) = Some f"
  shows "kret (env (kevents s) (Vfs_poll i f)) \<noteq> 0 \<Longrightarrow> wired (kcalled env (Vfs_poll i f) s
      \<lparr>br := (br s)\<lparr>br_call := (br_call (br s))[i := (br_call (br s) ! i)\<lparr>cb_queue := True\<rparr>]\<rparr>\<rparr>)"
    and "kret (env (kevents s) (Vfs_poll i f)) = 0 \<Longrightarrow> wired (kcalled env (Vfs_poll i f) s)"
  using assms file_owned [OF assms(1,2,4)] by (auto simp: entry_simps)

lemma take_failed:
  "wired s \<Longrightarrow> kret (env (kevents s) (Eventfd_ctx_fdget fd)) < 0 \<Longrightarrow> wired (kcalled env (Eventfd_ctx_fdget fd) s)"
  "wired s \<Longrightarrow> kret (env (kevents s) (Eventfd_fget fd)) < 0 \<Longrightarrow> wired (kcalled env (Eventfd_fget fd) s)"
  by (simp_all add: wired_def Let_def)

lemma take_event_failed:
  "wired s \<Longrightarrow> i < HYPER_IO_QUEUES \<Longrightarrow> cb_file (br_call (br s) ! i) = Some f \<Longrightarrow>
     kret (env (kevents s) (Eventfd_ctx_fileget f)) < 0 \<Longrightarrow> wired (kcalled env (Eventfd_ctx_fileget f) s)"
  using file_owned [of s i f] by (simp add: wired_def Let_def)

lemma drop_wait:
  assumes "wired s" and "i < HYPER_IO_QUEUES" and "cb_queue (br_call (br s) ! i)"
  shows "wired (kcalled env (Eventfd_remove_wait_queue i (pointer (cb_event (br_call (br s) ! i)))) s
    \<lparr>br := (br s)\<lparr>br_call := (br_call (br s))[i := (br_call (br s) ! i)\<lparr>cb_queue := False\<rparr>]\<rparr>\<rparr>)"
proof -
  obtain p where p: "cb_event (br_call (br s) ! i) = Some p" using assms by (auto simp: wired_def Let_def)
  then show ?thesis
    using assms event_owned [OF assms(1,2) p] kept_member [of i "br s"] by (auto simp: entry_simps pointer_def)
qed

lemma drop_event:
  assumes "wired s" and "i < HYPER_IO_QUEUES" and "cb_event (br_call (br s) ! i) = Some p"
    and "\<not> cb_queue (br_call (br s) ! i)" and "\<not> br_irq_enabled (br s)"
  shows "wired (kcalled env (Eventfd_ctx_put p) s
    \<lparr>br := (br s)\<lparr>br_call := (br_call (br s))[i := (br_call (br s) ! i)\<lparr>cb_event := None\<rparr>]\<rparr>\<rparr>)"
  using assms event_owned [OF assms(1-3)] by (auto simp: entry_simps)

lemma drop_file:
  assumes "wired s" and "i < HYPER_IO_QUEUES" and "cb_file (br_call (br s) ! i) = Some p"
  shows "wired (kcalled env (Fput p) s
    \<lparr>br := (br s)\<lparr>br_call := (br_call (br s))[i := (br_call (br s) ! i)\<lparr>cb_file := None\<rparr>]\<rparr>\<rparr>)"
  using assms file_owned [OF assms] by (auto simp: entry_simps)

lemma drop_kick:
  assumes "wired s" and "i < HYPER_IO_QUEUES" and "br_kick (br s) ! i = Some p" and "\<not> br_irq_enabled (br s)"
  shows "wired (kcalled env (Eventfd_ctx_put p) s\<lparr>br := (br s)\<lparr>br_kick := (br_kick (br s))[i := None]\<rparr>\<rparr>)"
  using assms kick_owned [OF assms(1-3)] by (simp add: entry_simps)

lemma switch_irq:
  "wired s \<Longrightarrow> wired (kcalled env Disable_irq s\<lparr>br := (br s)\<lparr>br_irq_enabled := False\<rparr>\<rparr>)"
  "wired s \<Longrightarrow> wired (kcalled env Enable_irq (s\<lparr>br := (br s)\<lparr>br_bound := True, br_irq_enabled := True\<rparr>\<rparr>))"
  "wired s \<Longrightarrow> wired (s\<lparr>br := (br s)\<lparr>br_bound := x\<rparr>\<rparr>)"
  by (simp_all add: wired_def Let_def contexts_def files_def)


section \<open>Unbinding\<close>

definition cleared :: "call_binding \<Rightarrow> bool" where
  "cleared c \<longleftrightarrow> cb_file c = None \<and> cb_event c = None \<and> \<not> cb_queue c"

text \<open>What binding and unbinding leave alone.\<close>

definition rest :: "bridge \<Rightarrow> bridge" where
  "rest b = b\<lparr>br_kick := [], br_call := [], br_bound := False, br_irq_enabled := False\<rparr>"

lemma rest_simps [simp]:
  "rest (b\<lparr>br_kick := ks\<rparr>) = rest b" "rest (b\<lparr>br_call := cs\<rparr>) = rest b" "rest (b\<lparr>br_bound := x\<rparr>) = rest b"
  "rest (b\<lparr>br_irq_enabled := x\<rparr>) = rest b"
  by (simp_all add: rest_def)

definition same_bridge :: "bridge_state \<Rightarrow> bridge_state \<Rightarrow> bool" where
  "same_bridge s t \<longleftrightarrow> rest (br t) = rest (br s) \<and> br_freed t = br_freed s \<and>
     lg_irq_live (ledger_of (kevents t)) = lg_irq_live (ledger_of (kevents s))"

lemma same_bridge_refl [simp]: "same_bridge s s"
  by (simp add: same_bridge_def)

lemma same_bridge_trans: "same_bridge s t \<Longrightarrow> same_bridge t u \<Longrightarrow> same_bridge s u"
  by (simp add: same_bridge_def)

lemma same_bridge_update: "rest b = rest (br t) \<Longrightarrow> same_bridge s (t\<lparr>br := b\<rparr>) \<longleftrightarrow> same_bridge s t"
  by (simp add: same_bridge_def)

fun irq_ownership :: "kcall \<Rightarrow> bool" where
  "irq_ownership (Request_irq auto) = True"
| "irq_ownership Free_irq = True"
| "irq_ownership c = False"

lemma irq_live_step [simp]: "\<not> irq_ownership c \<Longrightarrow> lg_irq_live (ledger_step L (c, a)) = lg_irq_live L"
  by (cases c) simp_all

lemma same_bridge_kcalled [simp]: "\<not> irq_ownership c \<Longrightarrow> same_bridge s (kcalled env c t) \<longleftrightarrow> same_bridge s t"
  by (simp add: same_bridge_def)

lemma same_bridge_simps:
  assumes "same_bridge s t"
  shows "br_mailbox (br t) = br_mailbox (br s)" and "br_dead (br t) = br_dead (br s)"
    and "br_opened (br t) = br_opened (br s)" and "br_network (br t) = br_network (br s)"
    and "br_references (br t) = br_references (br s)" and "br_freed t = br_freed s"
    and "lg_irq_live (ledger_of (kevents t)) = lg_irq_live (ledger_of (kevents s))"
    and "br_irq_generation (br t) = br_irq_generation (br s)"
proof -
  have r: "rest (br t) = rest (br s)" using assms by (simp add: same_bridge_def)
  show "br_mailbox (br t) = br_mailbox (br s)" using arg_cong [OF r, of br_mailbox] by (simp add: rest_def)
  show "br_dead (br t) = br_dead (br s)" using arg_cong [OF r, of br_dead] by (simp add: rest_def)
  show "br_opened (br t) = br_opened (br s)" using arg_cong [OF r, of br_opened] by (simp add: rest_def)
  show "br_network (br t) = br_network (br s)" using arg_cong [OF r, of br_network] by (simp add: rest_def)
  show "br_references (br t) = br_references (br s)" using arg_cong [OF r, of br_references] by (simp add: rest_def)
  show "br_irq_generation (br t) = br_irq_generation (br s)"
    using arg_cong [OF r, of br_irq_generation] by (simp add: rest_def)
qed (use assms in \<open>simp_all add: same_bridge_def\<close>)

text \<open>One round releases everything of its queue and nothing else.\<close>

definition unbound_post :: "bridge_state \<Rightarrow> nat \<Rightarrow> bridge_state \<Rightarrow> bool" where
  "unbound_post s i t \<longleftrightarrow> wired t \<and> same_bridge s t \<and> \<not> br_irq_enabled (br t) \<and>
     br_kick (br t) ! i = None \<and> cleared (br_call (br t) ! i) \<and>
     (\<forall>j. j \<noteq> i \<longrightarrow> br_kick (br t) ! j = br_kick (br s) ! j \<and> br_call (br t) ! j = br_call (br s) ! j)"

lemma unbind_queue_spec:
  assumes "wired s" and "i < HYPER_IO_QUEUES" and "\<not> br_irq_enabled (br s)"
  shows "wp (unbind_queue env i) (\<lambda>_. unbound_post s i) s"
proof -
  let ?c = "br_call (br s) ! i" and ?k = "br_kick (br s) ! i"
  define P where "P q e f t \<longleftrightarrow> wired t \<and> same_bridge s t \<and> \<not> br_irq_enabled (br t) \<and>
    br_kick (br t) = br_kick (br s) \<and> cb_queue (br_call (br t) ! i) = q \<and> cb_event (br_call (br t) ! i) = e \<and>
    cb_file (br_call (br t) ! i) = f \<and> (\<forall>j. j \<noteq> i \<longrightarrow> br_call (br t) ! j = br_call (br s) ! j)" for q e f t
  have len: "i < length (br_call (br t))" "i < length (br_kick (br t))" if "wired t" for t
    using that assms(2) by (simp_all add: linked_length)
  have s: "P (cb_queue ?c) (cb_event ?c) (cb_file ?c) s" using assms by (simp add: P_def)
  have wait: "P False (cb_event ?c) (cb_file ?c) (kcalled env (Eventfd_remove_wait_queue i (pointer (cb_event ?c))) s
      \<lparr>br := (br s)\<lparr>br_call := (br_call (br s))[i := ?c\<lparr>cb_queue := False\<rparr>]\<rparr>\<rparr>)" if "cb_queue ?c"
    using s drop_wait [OF assms(1,2) that] len [OF assms(1)] by (simp add: P_def same_bridge_update)
  have event: "P False None f (kcalled env (Eventfd_ctx_put (pointer (cb_event ?c))) t
      \<lparr>br := (br t)\<lparr>br_call := (br_call (br t))[i := (br_call (br t) ! i)\<lparr>cb_event := None\<rparr>]\<rparr>\<rparr>)"
    if "P False (cb_event ?c) f t" "cb_event ?c \<noteq> None" for f t
    using that drop_event [OF _ assms(2), of t] len [of t] by (auto simp: P_def same_bridge_update pointer_def)
  have files: "P q e None (kcalled env (Fput (pointer (cb_file ?c))) t
      \<lparr>br := (br t)\<lparr>br_call := (br_call (br t))[i := (br_call (br t) ! i)\<lparr>cb_file := None\<rparr>]\<rparr>\<rparr>)"
    if "P q e (cb_file ?c) t" "cb_file ?c \<noteq> None" for q e t
    using that drop_file [OF _ assms(2), of t] len [of t] by (auto simp: P_def same_bridge_update pointer_def)
  have kick: "unbound_post s i (kcalled env (Eventfd_ctx_put (pointer ?k)) t
      \<lparr>br := (br t)\<lparr>br_kick := (br_kick (br t))[i := None]\<rparr>\<rparr>)" if "P False None None t" "?k \<noteq> None" for t
    using that drop_kick [OF _ assms(2), of t] len [of t]
    by (auto simp: P_def unbound_post_def cleared_def same_bridge_update pointer_def)
  have kept: "unbound_post s i t" if "P False None None t" "?k = None" for t
    using that by (auto simp: P_def unbound_post_def cleared_def)
  have last: "wp (if ?k \<noteq> None then do { kcall env (Eventfd_ctx_put (pointer ?k)); set_kick i None }
      else State_Monad.return ()) (\<lambda>_. unbound_post s i) t" if "P False None None t" for t
    using kick [OF that] kept [OF that] by (simp add: wp_rules)
  have third: "wp (if cb_file ?c \<noteq> None then do { kcall env (Fput (pointer (cb_file ?c)));
        modify_call i (\<lambda>c. c\<lparr>cb_file := None\<rparr>) } else State_Monad.return ()) (\<lambda>_. P False None None) t"
    if "P False None (cb_file ?c) t" for t
    using files [OF that] that by (cases "cb_file ?c = None") (simp_all add: wp_rules)
  have second: "wp (if cb_event ?c \<noteq> None then do { kcall env (Eventfd_ctx_put (pointer (cb_event ?c)));
        modify_call i (\<lambda>c. c\<lparr>cb_event := None\<rparr>) } else State_Monad.return ()) (\<lambda>_. P False None (cb_file ?c)) t"
    if "P False (cb_event ?c) (cb_file ?c) t" for t
    using event [OF that] that by (cases "cb_event ?c = None") (simp_all add: wp_rules)
  have first: "wp (if cb_queue ?c then do { kcall env (Eventfd_remove_wait_queue i (pointer (cb_event ?c)));
        modify_call i (\<lambda>c. c\<lparr>cb_queue := False\<rparr>) } else State_Monad.return ()) (\<lambda>_. P False (cb_event ?c) (cb_file ?c)) s"
    using wait s by (cases "cb_queue ?c") (simp_all add: wp_rules)
  show ?thesis
    unfolding unbind_queue_def Let_def wp_bind wp_get
    by (rule wp_mono [OF first], rule wp_mono [OF second], assumption, rule wp_mono [OF third], assumption,
        erule last)
qed

definition idle_bridge :: "bridge \<Rightarrow> bool" where
  "idle_bridge b \<longleftrightarrow> \<not> br_bound b \<and> \<not> br_irq_enabled b \<and>
     (\<forall>j<HYPER_IO_QUEUES. br_kick b ! j = None \<and> cleared (br_call b ! j))"

lemma unbind_spec:
  assumes "wired s"
  shows "wp (unbind env) (\<lambda>_ t. wired t \<and> same_bridge s t \<and> idle_bridge (br t)) s"
proof -
  define J where "J k t \<longleftrightarrow> wired t \<and> same_bridge s t \<and> \<not> br_irq_enabled (br t) \<and>
    (\<forall>j<k. br_kick (br t) ! j = None \<and> cleared (br_call (br t) ! j))" for k t
  have loop: "wp (for_each (unbind_queue env) [0..<HYPER_IO_QUEUES]) (\<lambda>_. J HYPER_IO_QUEUES) t" if "J 0 t" for t
  proof (rule wp_for_each_upt)
    fix i u assume i: "i < HYPER_IO_QUEUES" and u: "J i u"
    have "wp (unbind_queue env i) (\<lambda>_. unbound_post u i) u"
      by (rule unbind_queue_spec) (use u i in \<open>simp_all add: J_def\<close>)
    then show "wp (unbind_queue env i) (\<lambda>_. J (Suc i)) u"
      by (rule wp_mono)
         (use u in \<open>auto simp: J_def unbound_post_def less_Suc_eq intro: same_bridge_trans\<close>)
  qed (use that in simp_all)
  have "J 0 (kcalled env Disable_irq s\<lparr>br := (br s)\<lparr>br_irq_enabled := False\<rparr>\<rparr>)" "\<not> br_irq_enabled (br s) \<Longrightarrow> J 0 s"
    using assms switch_irq(1) [OF assms, of env] by (simp_all add: J_def same_bridge_update)
  then have "wp (for_each (unbind_queue env) [0..<HYPER_IO_QUEUES]) (\<lambda>_. J HYPER_IO_QUEUES)
      (if br_irq_enabled (br s) then kcalled env Disable_irq s\<lparr>br := (br s)\<lparr>br_irq_enabled := False\<rparr>\<rparr> else s)"
    by (simp add: loop del: upt_Suc)
  then have "wp (for_each (unbind_queue env) [0..<HYPER_IO_QUEUES])
      (\<lambda>_ t. wired (t\<lparr>br := (br t)\<lparr>br_bound := False\<rparr>\<rparr>) \<and> same_bridge s t \<and> idle_bridge ((br t)\<lparr>br_bound := False\<rparr>))
      (if br_irq_enabled (br s) then kcalled env Disable_irq s\<lparr>br := (br s)\<lparr>br_irq_enabled := False\<rparr>\<rparr> else s)"
    by (rule wp_mono) (auto simp: J_def idle_bridge_def intro: switch_irq(3))
  then show ?thesis
    unfolding unbind_def by (simp add: wp_rules same_bridge_update del: upt_Suc split: if_splits)
qed

lemma quiet_owns_nothing:
  assumes "wired s" and "idle_bridge (br s)"
  shows "contexts (br s) = {#}" and "files (br s) = {#}" and "\<not> lg_irq_on (ledger_of (kevents s))"
    and "lg_waiting (ledger_of (kevents s)) = {}"
proof -
  have none: "ptrs ps = {#}" if "\<forall>j<length ps. ps ! j = None" for ps :: "u64 option list"
    using that by (metis in_set_conv_nth multiset_eqI ptrs_set count_empty not_in_iff option.distinct(1) empty_iff set_mset_eq_empty_iff multiset_nonemptyE)
  show "contexts (br s) = {#}" "files (br s) = {#}"
    using assms linked_length [OF assms(1)] by (auto simp: contexts_def files_def idle_bridge_def cleared_def intro!: none)
  show "\<not> lg_irq_on (ledger_of (kevents s))" "lg_waiting (ledger_of (kevents s)) = {}"
    using assms by (auto simp: wired_def Let_def idle_bridge_def cleared_def)
qed

end
