(* ===== verification/Bridge_Operations.thy ===== *)
theory Bridge_Operations
  imports Bridge_References
begin

text \<open>
  The operations of a bridge against its reference ledger: binding is all or nothing, and every command,
  interrupt, opening, closing and removal keeps the invariant \<open>bridge_inv\<close>.
\<close>

section \<open>Binding\<close>

lemma read_event: "wired s \<Longrightarrow> i < HYPER_IO_QUEUES \<Longrightarrow> cb_event (br_call (br s) ! i) = Some p \<Longrightarrow>
    wired (kcalled env (Eventfd_do_read p) s)"
  using event_owned [of s i p] by (simp add: wired_def Let_def)

lemma notify_call_spec:
  assumes "wired s" and "i < HYPER_IO_QUEUES" and "cb_queue (br_call (br s) ! i)"
  shows "wp (notify_call env i) (\<lambda>_ t. wired t \<and> same_bridge s t \<and> br t = br s) s"
proof -
  obtain p where "cb_event (br_call (br s) ! i) = Some p"
    using assms by (auto simp: wired_def Let_def)
  then show ?thesis
    unfolding notify_call_def Let_def using read_event [OF assms(1,2)]
    by (simp add: wp_rules pointer_def)
qed

definition entry_bound :: "hyper_io_eventfds \<Rightarrow> nat \<Rightarrow> bridge \<Rightarrow> bool" where
  "entry_bound fds i b \<longleftrightarrow>
     (let c = br_call b ! i in
      if ef_kick fds ! i = - 1 then br_kick b ! i = None \<and> cleared c
      else br_kick b ! i \<noteq> None \<and> cb_file c \<noteq> None \<and> cb_event c \<noteq> None \<and> cb_queue c \<and> cb_epoch c = ef_epoch fds)"

definition entry_post ::
    "bridge_state \<Rightarrow> nat \<Rightarrow> (bridge \<Rightarrow> bool) \<Rightarrow> int option \<Rightarrow> bridge_state \<Rightarrow> bool" where
  "entry_post s i ok r t \<longleftrightarrow> wired t \<and> same_bridge s t \<and> br_irq_enabled (br t) = br_irq_enabled (br s) \<and>
     (\<forall>j. j \<noteq> i \<longrightarrow> br_kick (br t) ! j = br_kick (br s) ! j \<and> br_call (br t) ! j = br_call (br s) ! j) \<and>
     (case r of None \<Rightarrow> ok (br t) | Some e \<Rightarrow> e \<noteq> 0)"

lemma entry_post_trans:
  "entry_post t i ok r u \<Longrightarrow> entry_post s i (\<lambda>_. True) None t \<Longrightarrow> entry_post s i ok r u"
  by (auto simp: entry_post_def intro: same_bridge_trans)

lemma entry_chain:
  assumes "entry_post s i (\<lambda>_. True) None t" and "wp m (entry_post t i ok) t" and "\<And>b. ok b \<Longrightarrow> ok' b"
  shows "wp m (entry_post s i ok') t"
  using assms(2)
proof (rule wp_mono)
  fix r u assume "entry_post t i ok r u"
  then have "entry_post s i ok r u" by (rule entry_post_trans) (rule assms(1))
  then show "entry_post s i ok' r u" by (cases r) (simp_all add: entry_post_def assms(3))
qed

lemma entry_at [simp]:
  assumes "wired s" and "i < HYPER_IO_QUEUES"
  shows "(br_call (br s))[i := c] ! i = c" and "(br_kick (br s))[i := k] ! i = k"
  using assms by (simp_all add: linked_length)

lemma bind_wait_spec:
  assumes "wired s" and "i < HYPER_IO_QUEUES" and "cb_event (br_call (br s) ! i) \<noteq> None"
    and "cb_file (br_call (br s) ! i) = Some f" and "\<not> cb_queue (br_call (br s) ! i)"
  shows "wp (bind_wait env i f) (entry_post s i (\<lambda>b. br_kick b = br_kick (br s) \<and>
     br_call b ! i = (br_call (br s) ! i)\<lparr>cb_queue := True\<rparr>)) s"
proof -
  let ?t = "kcalled env (Vfs_poll i f) s
      \<lparr>br := (br s)\<lparr>br_call := (br_call (br s))[i := (br_call (br s) ! i)\<lparr>cb_queue := True\<rparr>]\<rparr>\<rparr>"
  let ?ok = "\<lambda>b. br_kick b = br_kick (br s) \<and> br_call b ! i = (br_call (br s) ! i)\<lparr>cb_queue := True\<rparr>"
  note wait = take_wait [OF assms(1-4), of env]
  have t: "entry_post s i ?ok None ?t" if "kret (env (kevents s) (Vfs_poll i f)) \<noteq> 0"
    using wait(1) [OF that] assms(1,2) by (simp add: entry_post_def same_bridge_update)
  have notify: "wp (notify_call env i) (\<lambda>_. entry_post s i ?ok None) ?t"
    if "kret (env (kevents s) (Vfs_poll i f)) \<noteq> 0"
    by (rule wp_mono [OF notify_call_spec [OF wait(1) [OF that] assms(2)]])
       (use t [OF that] assms(1,2) in \<open>auto simp: entry_post_def intro: same_bridge_trans\<close>)
  have "entry_post s i ?ok (Some (- EINVAL)) (kcalled env (Vfs_poll i f) s)"
    if "kret (env (kevents s) (Vfs_poll i f)) = 0"
    using wait(2) [OF that] by (simp add: entry_post_def)
  then show ?thesis
    unfolding bind_wait_def using assms t notify
    by (cases "kret (env (kevents s) (Vfs_poll i f)) = 0") (simp_all add: wp_rules)
qed

lemma bind_event_spec:
  assumes "wired s" and "i < HYPER_IO_QUEUES" and "cb_event (br_call (br s) ! i) = None"
    and "cb_file (br_call (br s) ! i) = Some f" and "\<not> cb_queue (br_call (br s) ! i)"
  shows "wp (bind_event env epoch i f) (entry_post s i (\<lambda>b. br_kick b = br_kick (br s) \<and>
     cb_file (br_call b ! i) \<noteq> None \<and> cb_event (br_call b ! i) \<noteq> None \<and> cb_queue (br_call b ! i) \<and>
     cb_epoch (br_call b ! i) = epoch)) s"
proof -
  let ?a = "env (kevents s) (Eventfd_ctx_fileget f)"
  let ?t = "kcalled env (Eventfd_ctx_fileget f) s
      \<lparr>br := (br s)\<lparr>br_call := (br_call (br s))[i := (br_call (br s) ! i)\<lparr>cb_event := Some (kval ?a), cb_epoch := epoch\<rparr>]\<rparr>\<rparr>"
  have t: "wired ?t" if "\<not> kret ?a < 0" by (rule take_event [OF assms(1-4)]) (rule that)
  have step: "wp (bind_wait env i f) (entry_post ?t i (\<lambda>b. br_kick b = br_kick (br ?t) \<and>
      br_call b ! i = (br_call (br ?t) ! i)\<lparr>cb_queue := True\<rparr>)) ?t" if "\<not> kret ?a < 0"
    by (rule bind_wait_spec) (use t [OF that] assms in simp_all)
  have before: "entry_post s i (\<lambda>_. True) None ?t" if "\<not> kret ?a < 0"
    using t [OF that] by (simp add: entry_post_def same_bridge_update)
  have "wp (bind_wait env i f) (entry_post s i (\<lambda>b. br_kick b = br_kick (br s) \<and>
      cb_file (br_call b ! i) \<noteq> None \<and> cb_event (br_call b ! i) \<noteq> None \<and> cb_queue (br_call b ! i) \<and>
      cb_epoch (br_call b ! i) = epoch)) ?t" if "\<not> kret ?a < 0"
    by (rule entry_chain [OF before [OF that] step [OF that]]) (use assms in simp)
  moreover have "entry_post s i ok (Some (kret ?a)) (kcalled env (Eventfd_ctx_fileget f) s)" if "kret ?a < 0" for ok
    using take_event_failed [of s i f env] assms(1,2,4) that by (simp add: entry_post_def)
  ultimately show ?thesis
    unfolding bind_event_def by (cases "kret ?a < 0") (simp_all add: wp_rules)
qed

lemma bind_file_spec:
  assumes "wired s" and "i < HYPER_IO_QUEUES" and "cleared (br_call (br s) ! i)"
  shows "wp (bind_file env fds i) (entry_post s i (\<lambda>b. br_kick b = br_kick (br s) \<and>
     cb_file (br_call b ! i) \<noteq> None \<and> cb_event (br_call b ! i) \<noteq> None \<and> cb_queue (br_call b ! i) \<and>
     cb_epoch (br_call b ! i) = ef_epoch fds)) s"
proof -
  let ?c = "Eventfd_fget (ef_call fds ! i)"
  let ?a = "env (kevents s) ?c"
  let ?t = "kcalled env ?c s
      \<lparr>br := (br s)\<lparr>br_call := (br_call (br s))[i := (br_call (br s) ! i)\<lparr>cb_file := Some (kval ?a)\<rparr>]\<rparr>\<rparr>"
  let ?ok = "\<lambda>b. br_kick b = br_kick (br s) \<and> cb_file (br_call b ! i) \<noteq> None \<and>
     cb_event (br_call b ! i) \<noteq> None \<and> cb_queue (br_call b ! i) \<and> cb_epoch (br_call b ! i) = ef_epoch fds"
  have t: "wired ?t" if "\<not> kret ?a < 0"
    by (rule take_file) (use assms that in \<open>simp_all add: cleared_def\<close>)
  have step: "wp (bind_event env (ef_epoch fds) i (kval ?a)) (entry_post ?t i (\<lambda>b. br_kick b = br_kick (br ?t) \<and>
     cb_file (br_call b ! i) \<noteq> None \<and> cb_event (br_call b ! i) \<noteq> None \<and> cb_queue (br_call b ! i) \<and>
     cb_epoch (br_call b ! i) = ef_epoch fds)) ?t" if "\<not> kret ?a < 0"
    by (rule bind_event_spec) (use t [OF that] assms in \<open>simp_all add: cleared_def\<close>)
  have before: "entry_post s i (\<lambda>_. True) None ?t" if "\<not> kret ?a < 0"
    using t [OF that] by (simp add: entry_post_def same_bridge_update)
  have "wp (bind_event env (ef_epoch fds) i (kval ?a)) (entry_post s i ?ok) ?t" if "\<not> kret ?a < 0"
    by (rule entry_chain [OF before [OF that] step [OF that]]) (use assms in simp)
  moreover have "entry_post s i ok (Some (kret ?a)) (kcalled env ?c s)" if "kret ?a < 0" for ok
    using take_failed(2) [of s env "ef_call fds ! i"] assms(1) that by (simp add: entry_post_def)
  ultimately show ?thesis
    unfolding bind_file_def by (cases "kret ?a < 0") (simp_all add: wp_rules)
qed

lemma bind_queue_spec:
  assumes "wired s" and "i < HYPER_IO_QUEUES" and "cleared (br_call (br s) ! i)" and "br_kick (br s) ! i = None"
  shows "wp (bind_queue env fds i) (entry_post s i (entry_bound fds i)) s"
proof -
  let ?c = "Eventfd_ctx_fdget (ef_kick fds ! i)"
  let ?a = "env (kevents s) ?c"
  let ?t = "kcalled env ?c s\<lparr>br := (br s)\<lparr>br_kick := (br_kick (br s))[i := Some (kval ?a)]\<rparr>\<rparr>"
  have t: "wired ?t" if "\<not> kret ?a < 0" by (rule take_kick [OF assms(1,2,4)]) (rule that)
  have step: "wp (bind_file env fds i) (entry_post ?t i (\<lambda>b. br_kick b = br_kick (br ?t) \<and>
     cb_file (br_call b ! i) \<noteq> None \<and> cb_event (br_call b ! i) \<noteq> None \<and> cb_queue (br_call b ! i) \<and>
     cb_epoch (br_call b ! i) = ef_epoch fds)) ?t" if "\<not> kret ?a < 0"
    by (rule bind_file_spec) (use t [OF that] assms in simp_all)
  have before: "entry_post s i (\<lambda>_. True) None ?t" if "\<not> kret ?a < 0"
    using t [OF that] by (simp add: entry_post_def same_bridge_update)
  have "wp (bind_file env fds i) (entry_post s i (entry_bound fds i)) ?t"
    if "\<not> kret ?a < 0" "ef_kick fds ! i \<noteq> - 1"
    by (rule entry_chain [OF before [OF that(1)] step [OF that(1)]])
       (use that assms(1,2) in \<open>simp add: entry_bound_def Let_def\<close>)
  moreover have "entry_post s i ok (Some (kret ?a)) (kcalled env ?c s)" if "kret ?a < 0" for ok
    using take_failed(1) [of s env "ef_kick fds ! i"] assms(1) that by (simp add: entry_post_def)
  moreover have "entry_post s i (entry_bound fds i) None s" if "ef_kick fds ! i = - 1"
    using assms that by (simp add: entry_post_def entry_bound_def)
  ultimately show ?thesis
    unfolding bind_queue_def by (cases "kret ?a < 0"; cases "ef_kick fds ! i = - 1") (simp_all add: wp_rules)
qed


text \<open>Binding is all or nothing.\<close>

definition bound_post :: "hyper_io_eventfds \<Rightarrow> bridge_state \<Rightarrow> int \<Rightarrow> bridge_state \<Rightarrow> bool" where
  "bound_post fds s r t \<longleftrightarrow> wired t \<and> same_bridge s t \<and>
     (if r = 0 then br_bound (br t) \<and> br_irq_enabled (br t) \<and> (\<forall>i<HYPER_IO_QUEUES. entry_bound fds i (br t))
      else idle_bridge (br t))"

lemma entry_bound_frames [simp]:
  "entry_bound fds i (b\<lparr>br_bound := x, br_irq_enabled := y\<rparr>) = entry_bound fds i b"
  by (simp add: entry_bound_def)

lemma bind_queues_spec:
  assumes "wired s" and "idle_bridge (br s)"
  shows "wp (bind_queues env fds) (bound_post fds s) s"
proof -
  define J where "J k t \<longleftrightarrow> wired t \<and> same_bridge s t \<and> \<not> br_irq_enabled (br t) \<and>
    (\<forall>i<k. entry_bound fds i (br t)) \<and>
    (\<forall>i<HYPER_IO_QUEUES. k \<le> i \<longrightarrow> br_kick (br t) ! i = None \<and> cleared (br_call (br t) ! i))" for k t
  define E where "E e t \<longleftrightarrow> e \<noteq> (0 :: int) \<and> wired t \<and> same_bridge s t" for e t
  have "wp (for_return (bind_queue env fds) [0..<HYPER_IO_QUEUES])
      (\<lambda>r t. case r of None \<Rightarrow> J HYPER_IO_QUEUES t | Some e \<Rightarrow> E e t) s"
  proof (rule wp_for_return_upt)
    fix i t assume i: "i < HYPER_IO_QUEUES" and J: "J i t"
    have "wp (bind_queue env fds i) (entry_post t i (entry_bound fds i)) t"
      by (rule bind_queue_spec) (use i J in \<open>simp_all add: J_def\<close>)
    then show "wp (bind_queue env fds i) (\<lambda>r t. case r of None \<Rightarrow> J (Suc i) t | Some e \<Rightarrow> E e t) t"
    proof (rule wp_mono)
      fix r u assume p: "entry_post t i (entry_bound fds i) r u"
      have "entry_bound fds j (br u) = entry_bound fds j (br t)" if "j < i" for j
        using that p by (simp add: entry_post_def entry_bound_def)
      then show "case r of None \<Rightarrow> J (Suc i) u | Some e \<Rightarrow> E e u"
        using J p by (auto simp: J_def E_def entry_post_def less_Suc_eq split: option.splits intro: same_bridge_trans)
    qed
  qed (use assms in \<open>simp_all add: J_def idle_bridge_def\<close>)
  then have "wp (for_return (bind_queue env fds) [0..<HYPER_IO_QUEUES])
      (\<lambda>r t. case r of
         None \<Rightarrow> bound_post fds s 0 (kcalled env Enable_irq (t\<lparr>br := (br t)\<lparr>br_bound := True, br_irq_enabled := True\<rparr>\<rparr>))
       | Some e \<Rightarrow> wp (unbind env) (\<lambda>_. bound_post fds s e) t) s"
  proof (rule wp_mono)
    fix r t assume p: "case r of None \<Rightarrow> J HYPER_IO_QUEUES t | Some e \<Rightarrow> E e t"
    have "wp (unbind env) (\<lambda>_. bound_post fds s e) t" if "E e t" for e
      by (rule wp_mono [OF unbind_spec]) (use that in \<open>auto simp: E_def bound_post_def intro: same_bridge_trans\<close>)
    moreover have "bound_post fds s 0 (kcalled env Enable_irq (t\<lparr>br := (br t)\<lparr>br_bound := True, br_irq_enabled := True\<rparr>\<rparr>))"
      if "J HYPER_IO_QUEUES t"
      using that switch_irq(2) [of t env] by (simp add: J_def bound_post_def same_bridge_update)
    ultimately show "case r of
         None \<Rightarrow> bound_post fds s 0 (kcalled env Enable_irq (t\<lparr>br := (br t)\<lparr>br_bound := True, br_irq_enabled := True\<rparr>\<rparr>))
       | Some e \<Rightarrow> wp (unbind env) (\<lambda>_. bound_post fds s e) t"
      using p by (simp split: option.splits)
  qed
  then show ?thesis
    unfolding bind_queues_def by (simp add: wp_rules del: upt_Suc cong: option.case_cong)
qed

section \<open>The life of a bridge\<close>

definition live :: "bridge_state \<Rightarrow> bool" where
  "live s \<longleftrightarrow> lg_irq_live (ledger_of (kevents s))"

text \<open>
  The invariant: the ledger matches the fields, an unbound bridge owns nothing, and the object has
  one reference for the driver, until it is removed, and one for its single opener.
\<close>

definition bridge_inv :: "bridge_state \<Rightarrow> bool" where
  "bridge_inv s \<longleftrightarrow> (let b = br s in wired s \<and>
     (if br_bound b then br_irq_enabled b \<and> \<not> br_mailbox b \<and> \<not> br_dead b else idle_bridge b) \<and>
     br_references b = of_bool (live s) + of_bool (br_opened b) \<and>
     (br_freed s \<longleftrightarrow> \<not> live s \<and> \<not> br_opened b) \<and> (\<not> live s \<longrightarrow> br_dead b) \<and>
     (\<not> br_mailbox b \<longrightarrow> br_dead b = (\<not> live s)))"

lemma reference_irq [simp]: "irq_ownership c \<Longrightarrow> reference_call c"
  by (cases c) simp_all

lemma live_kcalled [simp]: "\<not> irq_ownership c \<Longrightarrow> live (kcalled env c s) = live s"
  by (simp add: live_def)

lemma live_update [simp]: "live (s\<lparr>br := b\<rparr>) = live s" "live (s\<lparr>br_freed := f\<rparr>) = live s"
  by (simp_all add: live_def)

lemma bridge_inv_other [simp]: "\<not> reference_call c \<Longrightarrow> bridge_inv (kcalled env c s) \<longleftrightarrow> bridge_inv s"
proof -
  assume c: "\<not> reference_call c"
  then have "live (kcalled env c s) = live s" using reference_irq by (intro live_kcalled) blast
  with c show ?thesis by (simp add: bridge_inv_def)
qed

lemma bridge_inv_linked: "bridge_inv s \<Longrightarrow> wired s"
  by (simp add: bridge_inv_def Let_def)

lemma bridge_inv_same:
  assumes "bridge_inv s" and "wired t" and "same_bridge s t"
    and "if br_bound (br t) then br_irq_enabled (br t) \<and> \<not> br_mailbox (br s) \<and> \<not> br_dead (br s) else idle_bridge (br t)"
  shows "bridge_inv t"
  using assms(1,2,4) same_bridge_simps [OF assms(3)]
  by (cases "br_bound (br t)") (auto simp: bridge_inv_def Let_def live_def)

lemma unbind_inv:
  assumes "bridge_inv s"
  shows "wp (unbind env) (\<lambda>_ t. bridge_inv t \<and> same_bridge s t \<and> idle_bridge (br t)) s"
  by (rule wp_mono [OF unbind_spec [OF bridge_inv_linked [OF assms]]])
     (auto intro: bridge_inv_same [OF assms] simp: idle_bridge_def)

lemma bridge_inv_quiet: "bridge_inv s \<Longrightarrow> \<not> br_bound (br s) \<Longrightarrow> idle_bridge (br s)"
  by (simp add: bridge_inv_def Let_def split: if_splits)

lemma bind_eventfds_spec:
  assumes "bridge_inv s" and "\<not> br_bound (br s)" and "\<not> br_mailbox (br s)" and "\<not> br_dead (br s)"
  shows "wp (bind_eventfds env fds) (\<lambda>r t. bridge_inv t \<and> same_bridge s t \<and>
     (if r = 0 then br_bound (br t) \<and> hyper_io_eventfds_valid fds (br_network (br s)) \<and> ef_epoch fds \<noteq> 0 \<and>
        (\<forall>i<HYPER_IO_QUEUES. entry_bound fds i (br t))
      else idle_bridge (br t))) s"
proof -
  have bind: "wp (bind_queues env fds) (\<lambda>r t. bridge_inv t \<and> same_bridge s t \<and>
     (if r = 0 then br_bound (br t) \<and> (\<forall>i<HYPER_IO_QUEUES. entry_bound fds i (br t)) else idle_bridge (br t))) t"
    if "bridge_inv t" "br t = br s" "same_bridge s t" for t
  proof (rule wp_mono [OF bind_queues_spec])
    show "wired t" "idle_bridge (br t)" using that(1,2) assms bridge_inv_linked bridge_inv_quiet by simp_all
    fix r u assume p: "bound_post fds t r u"
    have "bridge_inv u"
      by (rule bridge_inv_same [OF that(1)]) (use p that(2) assms in \<open>auto simp: bound_post_def idle_bridge_def split: if_splits\<close>)
    then show "bridge_inv u \<and> same_bridge s u \<and>
        (if r = 0 then br_bound (br u) \<and> (\<forall>i<HYPER_IO_QUEUES. entry_bound fds i (br u)) else idle_bridge (br u))"
      using p same_bridge_trans [OF that(3)] by (simp add: bound_post_def)
  qed
  have more: "wp (bind_queues env fds) (\<lambda>r t. bridge_inv t \<and> same_bridge s t \<and>
     (if r = 0 then br_bound (br t) \<and> hyper_io_eventfds_valid fds (br_network (br s)) \<and> ef_epoch fds \<noteq> 0 \<and>
        (\<forall>i<HYPER_IO_QUEUES. entry_bound fds i (br t)) else idle_bridge (br t))) t"
    if "bridge_inv t" "br t = br s" "same_bridge s t" "ef_epoch fds \<noteq> 0"
      "hyper_io_eventfds_valid fds (br_network (br s))" for t
    by (rule wp_mono [OF bind [OF that(1-3)]]) (use that in \<open>auto split: if_splits\<close>)
  show ?thesis
    unfolding bind_eventfds_def using assms bridge_inv_quiet [OF assms(1,2)] by (simp add: wp_rules more)
qed


text \<open>Operations that only read and write registers.\<close>

lemma admit_grant_kept:
  "bridge_inv s \<Longrightarrow> wp (admit_grant env g) (\<lambda>_ t. bridge_inv t \<and> br t = br s \<and> same_bridge s t) s"
  unfolding admit_grant_def admit_refused_def by (auto simp: wp_rules)

lemma read_extent_kept:
  "bridge_inv s \<Longrightarrow> wp (read_extent env x) (\<lambda>_ t. bridge_inv t \<and> br t = br s \<and> same_bridge s t) s"
  unfolding read_extent_def by (auto simp: wp_rules)

lemma report_quiescent_kept:
  "bridge_inv s \<Longrightarrow> wp (report_quiescent env x) (\<lambda>_ t. bridge_inv t \<and> br t = br s \<and> same_bridge s t) s"
  unfolding report_quiescent_def by (auto simp: wp_rules)

lemma ioctl_inv:
  assumes "bridge_inv s"
  shows "wp (notification_ioctl env c) (\<lambda>_. bridge_inv) s"
proof -
  have "wp (bind_eventfds env fds) (\<lambda>_. bridge_inv) s"
    if "\<not> br_bound (br s)" "\<not> br_mailbox (br s)" "\<not> br_dead (br s)" for fds
    by (rule wp_mono [OF bind_eventfds_spec [OF assms that]]) simp
  moreover have "wp (unbind env) (\<lambda>_. bridge_inv) s" by (rule wp_mono [OF unbind_inv [OF assms]]) simp
  moreover have "wp (admit_grant env g) (\<lambda>_. bridge_inv) s" for g
    by (rule wp_mono [OF admit_grant_kept [OF assms]]) simp
  moreover have "wp (read_extent env x) (\<lambda>_. bridge_inv) s" for x
    by (rule wp_mono [OF read_extent_kept [OF assms]]) simp
  moreover have "wp (report_quiescent env t) (\<lambda>_. bridge_inv) s" for t
    by (rule wp_mono [OF report_quiescent_kept [OF assms]]) simp
  ultimately show ?thesis
    unfolding notification_ioctl_def using assms by (cases c) (simp_all add: wp_rules)
qed

lemma signal_kick: "wired s \<Longrightarrow> i < HYPER_IO_QUEUES \<Longrightarrow> br_kick (br s) ! i = Some p \<Longrightarrow>
    wired (kcalled env (Eventfd_signal p) s)"
  using kick_owned [of s i p] by (simp add: wired_def Let_def)

lemma linked_generation [simp]:
  "b = br s \<Longrightarrow> wired (s\<lparr>br := b\<lparr>br_irq_generation := g\<rparr>\<rparr>) = wired s"
  "b = br s \<Longrightarrow> wired (s\<lparr>br := b\<lparr>br_irq_generation := g, br_dead := d\<rparr>\<rparr>) = wired s"
  "b = br s \<Longrightarrow> wired (s\<lparr>br := b\<lparr>br_dead := d\<rparr>\<rparr>) = wired s"
  "b = br s \<Longrightarrow> wired (s\<lparr>br := b\<lparr>br_references := n\<rparr>\<rparr>) = wired s"
  "b = br s \<Longrightarrow> wired (s\<lparr>br := b\<lparr>br_opened := x\<rparr>\<rparr>) = wired s"
  "b = br s \<Longrightarrow> wired (s\<lparr>br := b\<lparr>br_opened := x, br_references := n\<rparr>\<rparr>) = wired s"
  "wired (s\<lparr>br_freed := f\<rparr>) = wired s"
  "wired (kcalled env (Request_irq auto) s) = wired s" "wired (kcalled env Free_irq s) = wired s"
  by (simp_all add: wired_def Let_def contexts_def files_def)

lemma quiet_frames [simp]:
  "idle_bridge (b\<lparr>br_irq_generation := g\<rparr>) = idle_bridge b" "idle_bridge (b\<lparr>br_dead := d\<rparr>) = idle_bridge b"
  "idle_bridge (b\<lparr>br_references := n\<rparr>) = idle_bridge b" "idle_bridge (b\<lparr>br_opened := x\<rparr>) = idle_bridge b"
  by (simp_all add: idle_bridge_def)

lemma bridge_inv_still:
  assumes "bridge_inv s" and "wired t" and "br t = br s" and "same_bridge s t"
  shows "bridge_inv t"
  by (rule bridge_inv_same [OF assms(1,2,4)]) (use assms(1,3) in \<open>simp add: bridge_inv_def Let_def split: if_splits\<close>)

lemma bridge_inv_generation [simp]:
  "b = br s \<Longrightarrow> bridge_inv (s\<lparr>br := b\<lparr>br_irq_generation := g\<rparr>\<rparr>) = bridge_inv s"
  by (simp add: bridge_inv_def Let_def)

lemma irq_inv:
  assumes "bridge_inv s"
  shows "wp (bridge_irq env) (\<lambda>_. bridge_inv) s"
proof -
  let ?signal = "\<lambda>pending i. if bit pending i \<and> br_kick (br s) ! i \<noteq> None
      then do { kcall env (Eventfd_signal (pointer (br_kick (br s) ! i))); State_Monad.return () }
      else State_Monad.return ()"
  have "wp (for_each (?signal pending) [0..<HYPER_IO_QUEUES]) (\<lambda>_ t. wired t \<and> br t = br s \<and> same_bridge s t)
      (kcalled env (Readl 0x10) s)" for pending :: u64
  proof (rule wp_for_each)
    fix i t assume i: "i \<in> set [0..<HYPER_IO_QUEUES]" and t: "wired t \<and> br t = br s \<and> same_bridge s t"
    then show "wp (?signal pending i) (\<lambda>_ t. wired t \<and> br t = br s \<and> same_bridge s t) t"
      using signal_kick [of t i] by (auto simp: wp_rules pointer_def)
  qed (use assms in \<open>simp add: bridge_inv_linked\<close>)
  then have "wp (for_each (?signal pending) [0..<HYPER_IO_QUEUES]) (\<lambda>_. bridge_inv) (kcalled env (Readl 0x10) s)"
    for pending :: u64
    by (rule wp_mono) (auto intro: bridge_inv_still [OF assms])
  then show ?thesis
    unfolding bridge_irq_def using assms by (simp add: wp_rules del: upt_Suc)
qed

lemma wakeup_inv:
  assumes "bridge_inv s" and "i < HYPER_IO_QUEUES" and "cb_queue (br_call (br s) ! i)"
  shows "wp (call_wakeup env i key) (\<lambda>_. bridge_inv) s"
proof -
  have "wp (notify_call env i) (\<lambda>_. bridge_inv) s"
    by (rule wp_mono [OF notify_call_spec [OF bridge_inv_linked [OF assms(1)] assms(2,3)]])
       (auto intro: bridge_inv_still [OF assms(1)])
  then show ?thesis
    unfolding call_wakeup_def using assms(1) by (simp add: wp_rules)
qed

lemma bridge_open_inv: "bridge_inv s \<Longrightarrow> live s \<Longrightarrow> wp bridge_open (\<lambda>_. bridge_inv) s"
  unfolding bridge_open_def by (auto simp: wp_rules bridge_inv_def Let_def)

text \<open>Giving up a reference: the last one frees the object.\<close>

lemma release_inv:
  assumes "bridge_inv s" and "br_opened (br s)"
  shows "wp (bridge_release env) (\<lambda>_. bridge_inv) s"
proof -
  have put: "wp bridge_put (\<lambda>_. bridge_inv) (t\<lparr>br := (br t)\<lparr>br_opened := False\<rparr>\<rparr>)"
    if "bridge_inv t" "br_opened (br t)" "br_mailbox (br t) \<or> br_dead (br t) \<or> idle_bridge (br t)" for t
    unfolding bridge_put_def
    using that by (cases "live t") (auto simp: wp_rules bridge_inv_def Let_def idle_bridge_def)
  have "wp (unbind env) (\<lambda>_ t. wp bridge_put (\<lambda>_. bridge_inv) (t\<lparr>br := (br t)\<lparr>br_opened := False\<rparr>\<rparr>)) s"
    by (rule wp_mono [OF unbind_inv [OF assms(1)]]) (use assms(2) in \<open>auto intro!: put simp: same_bridge_simps(3)\<close>)
  then show ?thesis
    unfolding bridge_release_def using assms put [of "kcalled env (Writel MB_MASK 0) s"] by (simp add: wp_rules put)
qed

lemma remove_inv:
  assumes "bridge_inv s" and "live s"
  shows "wp (bridge_remove env) (\<lambda>_ t. bridge_inv t \<and> \<not> live t) s"
proof -
  let ?s = "kcalled env Wake_up (kcalled env Misc_deregister s\<lparr>br := (br s)\<lparr>br_dead := True\<rparr>\<rparr>)"
  define ready where "ready t \<longleftrightarrow> wired t \<and> live t \<and> idle_bridge (br t) \<and> br_dead (br t) \<and> \<not> br_freed t \<and>
    br_references (br t) = 1 + of_bool (br_opened (br t))" for t
  have put: "wp bridge_put (\<lambda>_ t. bridge_inv t \<and> \<not> live t) (kcalled env Free_irq t)" if "ready t" for t
    unfolding bridge_put_def
    using that by (cases "br_opened (br t)") (auto simp: wp_rules ready_def bridge_inv_def Let_def live_def idle_bridge_def)
  have "wired ?s" using assms(1) by (simp add: bridge_inv_linked)
  then have "wp (unbind env) (\<lambda>_ t. wp bridge_put (\<lambda>_ t. bridge_inv t \<and> \<not> live t) (kcalled env Free_irq t)) ?s"
  proof (rule wp_mono [OF unbind_spec])
    fix r t assume t: "wired t \<and> same_bridge ?s t \<and> idle_bridge (br t)"
    have "ready t"
      using t assms same_bridge_simps [of ?s t] by (auto simp: ready_def bridge_inv_def Let_def live_def)
    then show "wp bridge_put (\<lambda>_ t. bridge_inv t \<and> \<not> live t) (kcalled env Free_irq t)" by (rule put)
  qed
  moreover have "ready (kcalled env (Writel MB_MASK 0) ?s)" if "br_mailbox (br s)"
    using assms that by (auto simp: ready_def bridge_inv_def Let_def split: if_splits)
  ultimately show ?thesis
    unfolding bridge_remove_def by (simp add: wp_rules put)
qed


text \<open>The whole bind command.\<close>

definition bind_ioctl_post :: "hyper_io_eventfds \<Rightarrow> bridge_state \<Rightarrow> int \<Rightarrow> bridge_state \<Rightarrow> bool" where
  "bind_ioctl_post fds s r t \<longleftrightarrow> bridge_inv t \<and>
     (if r = 0 then \<not> br_bound (br s) \<and> br_bound (br t) \<and> hyper_io_eventfds_valid fds (br_network (br s)) \<and>
        (\<forall>i<HYPER_IO_QUEUES. entry_bound fds i (br t))
      else if br_bound (br s) then t = s else idle_bridge (br t))"

lemma bind_ioctl_spec:
  assumes "bridge_inv s"
  shows "wp (notification_ioctl env (Io_bind fds)) (bind_ioctl_post fds s) s"
proof -
  have "wp (bind_eventfds env fds) (bind_ioctl_post fds s) s"
    if "\<not> br_bound (br s)" "\<not> br_mailbox (br s)" "\<not> br_dead (br s)"
    by (rule wp_mono [OF bind_eventfds_spec [OF assms that]])
       (use that in \<open>auto simp: bind_ioctl_post_def split: if_splits\<close>)
  moreover have "bind_ioctl_post fds s r s" if "r \<noteq> 0" for r
    using that assms bridge_inv_quiet [OF assms] by (simp add: bind_ioctl_post_def)
  ultimately show ?thesis
    unfolding notification_ioctl_def by (simp add: wp_rules)
qed

end
