(* ===== verification/Bridge_Life.thy ===== *)
theory Bridge_Life
  imports Bridge_Operations
begin

text \<open>
  The mailbox of a bridge: what reading and writing a control record transfer, in which order the
  registers are used, and that a waiting reader is woken.
\<close>

section \<open>The mailbox\<close>

text \<open>The events of waiting: the status is read, the mask is armed, and after sleeping disarmed.\<close>

definition waiting_events :: "u32 \<Rightarrow> kevent list \<Rightarrow> bool" where
  "waiting_events wanted es \<longleftrightarrow> set (map fst es) \<subseteq>
     {Readl MB_STATUS, Writel MB_MASK 0, Writel MB_MASK (wanted OR HYPER_IO_MAILBOX_CLOSED)} \<union>
     range (\<lambda>g. Wait_event g wanted)"

fun mask_step :: "u32 \<Rightarrow> kevent \<Rightarrow> u32" where
  "mask_step m (Writel x v, a) = (if x = MB_MASK then v else m)"
| "mask_step m e = m"

definition wait_post :: "u32 \<Rightarrow> bridge_state \<Rightarrow> int option \<Rightarrow> bridge_state \<Rightarrow> bool" where
  "wait_post wanted s r t \<longleftrightarrow> bridge_inv t \<and> br_mailbox (br t) \<and>
     (\<exists>es. kevents t = kevents s @ es \<and> waiting_events wanted es \<and> (\<forall>m. foldl mask_step m es \<in> {m, 0}) \<and>
       (r = Some 0 \<longrightarrow> (\<exists>a. last es = (Readl MB_STATUS, a) \<and> es \<noteq> [] \<and> ucast (kval a) AND wanted \<noteq> 0 \<and>
          ucast (kval a) AND HYPER_IO_MAILBOX_CLOSED = 0)))"

lemma slept_inv:
  assumes "bridge_inv t" and "br_mailbox (br t)" and "b = br t"
  shows "bridge_inv (t\<lparr>br := b\<lparr>br_irq_generation := g, br_dead := br_dead (br t) \<or> x\<rparr>\<rparr>)"
  using assms by (auto simp: bridge_inv_def Let_def split: if_splits)

lemma wait_status_spec:
  assumes "bridge_inv s" and "br_mailbox (br s)"
  shows "wp (wait_status env fuel wanted) (wait_post wanted s) s"
  using assms
proof (induction fuel arbitrary: s)
  case 0
  then show ?case by (auto simp: wp_rules wait_post_def waiting_events_def intro: exI [of _ "[]"])
next
  case (Suc fuel)
  let ?r = "(Readl MB_STATUS, env (kevents s) (Readl MB_STATUS))"
  let ?s1 = "kcalled env (Readl MB_STATUS) s"
  let ?arm = "Writel MB_MASK (wanted OR HYPER_IO_MAILBOX_CLOSED)"
  let ?s2 = "kcalled env ?arm ?s1"
  let ?w = "Wait_event (br_irq_generation (br s)) wanted"
  let ?a = "env (kevents ?s2) ?w"
  let ?s3 = "kcalled env ?w ?s2\<lparr>br := (br s)\<lparr>br_irq_generation := br_irq_generation (br s) + kval ?a,
      br_dead := br_dead (br s) \<or> kvals ?a \<noteq> []\<rparr>\<rparr>"
  let ?s4 = "kcalled env (Writel MB_MASK 0) ?s3"
  have s3: "bridge_inv ?s3" "br_mailbox (br ?s3)"
    using Suc.prems slept_inv [of "kcalled env ?w ?s2"] by simp_all
  have stop: "wait_post wanted s r ?s1" if "r = Some 0 \<longrightarrow> ucast (kval (snd ?r)) AND wanted \<noteq> 0 \<and>
      ucast (kval (snd ?r)) AND HYPER_IO_MAILBOX_CLOSED = 0" for r
    using that Suc.prems by (simp add: wait_post_def waiting_events_def)
  have dead: "wait_post wanted s (Some (- ENODEV)) s"
    using Suc.prems by (simp add: wait_post_def waiting_events_def)
  obtain es4 where es4: "kevents ?s4 = kevents s @ es4" "waiting_events wanted es4" "\<And>m. foldl mask_step m es4 = 0"
    by (simp add: waiting_events_def)
  have woken: "wait_post wanted s (Some e) ?s4" if "e \<noteq> 0" for e
    using that s3 es4 unfolding wait_post_def by auto
  have again: "wp (wait_status env fuel wanted) (wait_post wanted s) ?s4"
  proof (rule wp_mono [OF Suc.IH])
    show "bridge_inv ?s4" "br_mailbox (br ?s4)" using s3 by simp_all
    fix r t assume "wait_post wanted ?s4 r t"
    then obtain es where inv: "bridge_inv t" "br_mailbox (br t)" and es: "kevents t = kevents ?s4 @ es"
      "waiting_events wanted es" "\<And>m. foldl mask_step m es \<in> {m, 0}"
      "r = Some 0 \<Longrightarrow> (\<exists>a. last es = (Readl MB_STATUS, a) \<and> es \<noteq> [] \<and> ucast (kval a) AND wanted \<noteq> 0 \<and>
          ucast (kval a) AND HYPER_IO_MAILBOX_CLOSED = 0)"
      unfolding wait_post_def by blast
    have "kevents t = kevents s @ (es4 @ es)" "waiting_events wanted (es4 @ es)"
      "\<And>m. foldl mask_step m (es4 @ es) \<in> {m, 0}"
      using es es4 by (auto simp: waiting_events_def)
    then show "wait_post wanted s r t"
      using inv es(4) unfolding wait_post_def by (intro conjI exI [of _ "es4 @ es"]) auto
  qed
  show ?case
    using stop dead woken again
    by (cases "br_dead (br s)") (simp_all add: wp_rules Let_def del: kevents_kcalled)
qed


text \<open>
  What a successful read has done: it has read the length and the sequence number, then every word of
  the record, has copied exactly the record to the caller, and only then has consumed it.
\<close>

definition delivered :: "nat \<Rightarrow> nat \<Rightarrow> kevent list \<Rightarrow> bool" where
  "delivered capacity n es \<longleftrightarrow> (\<exists>l q ds u w.
     es = (Readl MB_RX_LEN, l) # (Readq MB_RX_SEQ, q) # ds @
       [(Copy_bytes_to_user n (map (\<lambda>e. ucast (kval (snd e))) ds), u), (Writeq MB_RX_CONSUME (kval q), w)] \<and>
     map fst ds = map (\<lambda>i. Readl (MB_RX_DATA + of_nat i * 4)) [0..<(n + 3) div 4] \<and>
     kret u = 0 \<and> n = unat (ucast (kval l) :: u32) \<and> 0 < n \<and> n \<le> HYPER_IO_RECORD \<and> n \<le> capacity)"

definition consumes :: "kevent list \<Rightarrow> bool" where
  "consumes es \<longleftrightarrow> (\<exists>e\<in>set es. \<exists>q. fst e = Writeq MB_RX_CONSUME q)"

lemma consumes_simps [simp]:
  "consumes [] = False" "consumes (e # es) = ((\<exists>q. fst e = Writeq MB_RX_CONSUME q) \<or> consumes es)"
  "consumes (es @ fs) = (consumes es \<or> consumes fs)"
  by (auto simp: consumes_def)

lemma waiting_not_consuming: "waiting_events wanted es \<Longrightarrow> \<not> consumes es"
  by (auto simp: waiting_events_def consumes_def)

lemma read_words_spec:
  assumes "bridge_inv s"
  shows "wp (read_words env is) (\<lambda>ws t. bridge_inv t \<and> (\<exists>ds. kevents t = kevents s @ ds \<and>
     map fst ds = map (\<lambda>i. Readl (MB_RX_DATA + of_nat i * 4)) is \<and> ws = map (\<lambda>e. ucast (kval (snd e))) ds)) s"
  using assms
proof (induction "is" arbitrary: s)
  case (Cons i "is")
  let ?c = "Readl (MB_RX_DATA + of_nat i * 4)"
  have "bridge_inv (kcalled env ?c s)" using Cons.prems by simp
  from Cons.IH [OF this]
  have "wp (read_words env is) (\<lambda>ws t. bridge_inv t \<and> (\<exists>ds. kevents t = kevents s @ ds \<and>
      map fst ds = map (\<lambda>i. Readl (MB_RX_DATA + of_nat i * 4)) (i # is) \<and>
      ucast (kval (env (kevents s) ?c)) # ws = map (\<lambda>e. ucast (kval (snd e))) ds)) (kcalled env ?c s)"
  proof (rule wp_mono)
    fix ws t assume "bridge_inv t \<and> (\<exists>ds. kevents t = kevents (kcalled env ?c s) @ ds \<and>
      map fst ds = map (\<lambda>i. Readl (MB_RX_DATA + of_nat i * 4)) is \<and> ws = map (\<lambda>e. ucast (kval (snd e))) ds)"
    then obtain ds where "bridge_inv t" "kevents t = kevents (kcalled env ?c s) @ ds"
      "map fst ds = map (\<lambda>i. Readl (MB_RX_DATA + of_nat i * 4)) is" "ws = map (\<lambda>e. ucast (kval (snd e))) ds"
      by auto
    then show "bridge_inv t \<and> (\<exists>ds. kevents t = kevents s @ ds \<and>
        map fst ds = map (\<lambda>i. Readl (MB_RX_DATA + of_nat i * 4)) (i # is) \<and>
        ucast (kval (env (kevents s) ?c)) # ws = map (\<lambda>e. ucast (kval (snd e))) ds)"
      by (intro conjI exI [of _ "(?c, env (kevents s) ?c) # ds"]) simp_all
  qed
  then show ?case by (simp add: wp_rules)
qed (simp add: wp_rules)

definition receive_post :: "nat \<Rightarrow> bridge_state \<Rightarrow> int \<Rightarrow> bridge_state \<Rightarrow> bool" where
  "receive_post capacity s r t \<longleftrightarrow> bridge_inv t \<and> (\<exists>es. kevents t = kevents s @ es \<and>
     (if 0 < r then delivered capacity (nat r) es else r \<noteq> 0 \<and> \<not> consumes es))"

lemma control_receive_spec:
  assumes "bridge_inv s"
  shows "wp (control_receive env capacity) (receive_post capacity s) s"
proof -
  let ?l = "env (kevents s) (Readl MB_RX_LEN)"
  let ?s1 = "kcalled env (Readl MB_RX_LEN) s"
  let ?q = "env (kevents ?s1) (Readq MB_RX_SEQ)"
  let ?s2 = "kcalled env (Readq MB_RX_SEQ) ?s1"
  let ?n = "unat (ucast (kval ?l) :: u32)"
  have inv: "bridge_inv ?s2" using assms by simp
  have refuse: "receive_post capacity s r ?s2" if "r < 0" for r
    using that inv by (simp add: receive_post_def)
  have finish: "wp (deliver_record env ?n (kval ?q) ws) (receive_post capacity s) t"
    if bounds: "?n \<noteq> 0" "?n \<le> HYPER_IO_RECORD" "?n \<le> capacity" and t: "bridge_inv t"
      "kevents t = kevents ?s2 @ ds" "map fst ds = map (\<lambda>i. Readl (MB_RX_DATA + of_nat i * 4)) [0..<(?n + 3) div 4]"
      "ws = map (\<lambda>e. ucast (kval (snd e))) ds" for ds ws t
  proof -
    have "\<not> consumes ds"
    proof
      assume "consumes ds"
      then obtain q where "Writeq MB_RX_CONSUME q \<in> set (map fst ds)"
        unfolding consumes_def by (metis image_eqI set_map)
      then show False unfolding t(3) by auto
    qed
    moreover have "delivered capacity ?n ((Readl MB_RX_LEN, ?l) # (Readq MB_RX_SEQ, ?q) # ds @
        [(Copy_bytes_to_user ?n ws, u), (Writeq MB_RX_CONSUME (kval ?q), w)])" if "kret u = 0" for u w
      using that bounds t unfolding delivered_def by blast
    moreover have "0 < uint (ucast (kval ?l) :: u32)"
      using bounds(1) by (metis less_le uint_0_iff uint_ge_0 unat_0)
    ultimately show ?thesis
      unfolding deliver_record_def using bounds t by (simp add: wp_rules receive_post_def)
  qed
  have "wp (read_words env [0..<(?n + 3) div 4]) (\<lambda>ws. wp (deliver_record env ?n (kval ?q) ws) (receive_post capacity s)) ?s2"
    if "?n \<noteq> 0" "?n \<le> HYPER_IO_RECORD" "?n \<le> capacity"
    by (rule wp_mono [OF read_words_spec [OF inv]]) (use finish [OF that] in blast)
  then show ?thesis
    unfolding control_receive_def Let_def using refuse
    by (simp add: wp_rules del: kevents_kcalled)
qed

text \<open>The whole read: a record is consumed only after it has been delivered, and the mask is off.\<close>

definition read_post :: "nat \<Rightarrow> bridge_state \<Rightarrow> int option \<Rightarrow> bridge_state \<Rightarrow> bool" where
  "read_post capacity s r t \<longleftrightarrow> bridge_inv t \<and> (\<exists>ws es. kevents t = kevents s @ ws @ es \<and> \<not> consumes ws \<and>
     (case r of
        Some n \<Rightarrow> if 0 < n then delivered capacity (nat n) es else \<not> consumes es
      | None \<Rightarrow> es = []))"

text \<open>\<open>wait_event_interruptible\<close> answers zero or a negative error, and so does the whole wait.\<close>

lemma wait_status_error:
  assumes "\<forall>es g wanted. kret (env es (Wait_event g wanted)) \<le> 0"
  shows "wp (wait_status env fuel wanted) (\<lambda>r t. \<forall>e. r = Some e \<longrightarrow> e \<le> 0) s"
proof (induction fuel arbitrary: s)
  case (Suc fuel)
  then show ?case using assms by (simp add: wp_rules Let_def)
qed (simp add: wp_rules)

lemma control_read_spec:
  assumes "bridge_inv s" and "\<forall>es g wanted. kret (env es (Wait_event g wanted)) \<le> 0"
  shows "wp (control_read env fuel capacity) (read_post capacity s) s"
proof -
  let ?s = "kcalled env Mutex_lock_interruptible s"
  have stop: "read_post capacity s (Some e) t" if "bridge_inv t" "kevents t = kevents s @ ws" "\<not> consumes ws" "e \<le> 0" for e t ws
    using that unfolding read_post_def by (intro conjI exI [of _ ws] exI [of _ "[]"]) auto
  have "wp (wait_status env fuel RX_READY) (\<lambda>w t. case w of
      None \<Rightarrow> read_post capacity s None t
    | Some e \<Rightarrow> (e \<noteq> 0 \<longrightarrow> read_post capacity s (Some e) t) \<and>
        (e = 0 \<longrightarrow> wp (control_receive env capacity) (\<lambda>r. read_post capacity s (Some r)) t)) ?s"
    if "br_mailbox (br s)"
  proof (rule wp_mono [OF wp_conj [OF wait_status_spec wait_status_error]])
    show "bridge_inv ?s" "br_mailbox (br ?s)" using assms(1) that by simp_all
    fix w t assume w: "wait_post RX_READY ?s w t \<and> (\<forall>e. w = Some e \<longrightarrow> e \<le> 0)"
    then obtain es where t: "bridge_inv t" "kevents t = kevents s @ (Mutex_lock_interruptible, env (kevents s) Mutex_lock_interruptible) # es"
        "\<not> consumes es"
      using waiting_not_consuming by (auto simp: wait_post_def)
    have "read_post capacity s (Some r) u" if received: "receive_post capacity t r u" for r u
    proof -
      obtain fs where "bridge_inv u" "kevents u = kevents t @ fs" "if 0 < r then delivered capacity (nat r) fs else \<not> consumes fs"
        using received by (auto simp: receive_post_def split: if_splits)
      then show ?thesis using t unfolding read_post_def
        by (intro conjI exI [of _ "(Mutex_lock_interruptible, env (kevents s) Mutex_lock_interruptible) # es"] exI [of _ fs]) auto
    qed
    then have "wp (control_receive env capacity) (\<lambda>r. read_post capacity s (Some r)) t"
      by (rule wp_mono [OF control_receive_spec [OF t(1)]])
    moreover have "read_post capacity s (Some e) t" if "w = Some e" for e
      using that w t by (auto intro: stop)
    moreover have "read_post capacity s None t"
      using t unfolding read_post_def
      by (intro conjI exI [of _ "(Mutex_lock_interruptible, env (kevents s) Mutex_lock_interruptible) # es"] exI [of _ "[]"]) auto
    ultimately show "case w of
        None \<Rightarrow> read_post capacity s None t
      | Some e \<Rightarrow> (e \<noteq> 0 \<longrightarrow> read_post capacity s (Some e) t) \<and>
          (e = 0 \<longrightarrow> wp (control_receive env capacity) (\<lambda>r. read_post capacity s (Some r)) t)"
      by (cases w) simp_all
  qed (use assms(2) in simp)
  moreover have "read_post capacity s (Some (- EINVAL)) s" by (rule stop [of _ "[]"]) (use assms(1) in simp_all)
  moreover have "read_post capacity s (Some (- ERESTARTSYS)) ?s"
    by (rule stop [of _ "[(Mutex_lock_interruptible, env (kevents s) Mutex_lock_interruptible)]"]) (use assms(1) in simp_all)
  ultimately show ?thesis
    unfolding control_read_def by (simp add: wp_rules cong: option.case_cong)
qed


text \<open>
  A record sent: the stale error is cleared, every word is stored, then the length, and the commit
  comes last; the status read back decides the result.
\<close>

definition sent :: "nat \<Rightarrow> u32 list \<Rightarrow> int \<Rightarrow> kevent list \<Rightarrow> bool" where
  "sent n ws r es \<longleftrightarrow> map fst es = [Writel MB_STATUS MB_ERROR] @
       map (\<lambda>i. Writel (MB_TX_DATA + of_nat i * 4) (ws ! i)) [0..<(n + 3) div 4] @
       [Writel MB_TX_LEN (of_nat n), Writel MB_TX_COMMIT 1, Readl MB_STATUS] \<and>
     r = (if ucast (kval (snd (last es))) AND (MB_ERROR OR HYPER_IO_MAILBOX_CLOSED) \<noteq> (0 :: u32)
       then - EIO else int n)"

definition commits :: "kevent list \<Rightarrow> bool" where
  "commits es \<longleftrightarrow> Writel MB_TX_COMMIT 1 \<in> set (map fst es)"

lemma commits_append [simp]:
  "\<not> commits []" "commits (e # es) = (fst e = Writel MB_TX_COMMIT 1 \<or> commits es)"
  by (auto simp: commits_def)

lemma waiting_not_committing: "waiting_events wanted es \<Longrightarrow> \<not> commits es"
  by (auto simp: waiting_events_def commits_def)

lemma control_send_spec:
  assumes "bridge_inv s"
  shows "wp (control_send env n ws) (\<lambda>r t. bridge_inv t \<and> (\<exists>es. kevents t = kevents s @ es \<and> sent n ws r es)) s"
proof -
  let ?s1 = "kcalled env (Writel MB_STATUS MB_ERROR) s"
  define J where "J k t \<longleftrightarrow> bridge_inv t \<and> (\<exists>es. kevents t = kevents s @ es \<and> map fst es =
    Writel MB_STATUS MB_ERROR # map (\<lambda>i. Writel (MB_TX_DATA + of_nat i * 4) (ws ! i)) [0..<k])" for k t
  have "wp (for_each (\<lambda>i. do { kcall env (Writel (MB_TX_DATA + of_nat i * 4) (ws ! i)); State_Monad.return () })
      [0..<(n + 3) div 4]) (\<lambda>_. J ((n + 3) div 4)) ?s1"
    by (rule wp_for_each_upt) (use assms in \<open>auto simp: J_def wp_rules\<close>)
  moreover have "wp (commit_record env n) (\<lambda>r t. bridge_inv t \<and> (\<exists>es. kevents t = kevents s @ es \<and> sent n ws r es)) t"
    if stored: "J ((n + 3) div 4) t" for t
  proof -
    obtain es where "bridge_inv t" "kevents t = kevents s @ es" "map fst es =
        Writel MB_STATUS MB_ERROR # map (\<lambda>i. Writel (MB_TX_DATA + of_nat i * 4) (ws ! i)) [0..<(n + 3) div 4]"
      using stored by (auto simp: J_def)
    then show ?thesis unfolding commit_record_def by (simp add: wp_rules sent_def)
  qed
  ultimately have "wp (for_each (\<lambda>i. do { kcall env (Writel (MB_TX_DATA + of_nat i * 4) (ws ! i)); State_Monad.return () })
      [0..<(n + 3) div 4]) (\<lambda>_. wp (commit_record env n)
        (\<lambda>r t. bridge_inv t \<and> (\<exists>es. kevents t = kevents s @ es \<and> sent n ws r es))) ?s1"
    by (rule wp_mono)
  then show ?thesis unfolding control_send_def by (simp add: wp_rules)
qed

definition write_post :: "nat \<Rightarrow> bridge_state \<Rightarrow> int option \<Rightarrow> bridge_state \<Rightarrow> bool" where
  "write_post n s r t \<longleftrightarrow> bridge_inv t \<and> (\<exists>ws es. kevents t = kevents s @ ws @ es \<and> \<not> commits ws \<and>
     (case r of
        Some k \<Rightarrow> es = [] \<and> k \<le> 0 \<or> (\<exists>c. (Copy_bytes_from_user n, c) \<in> set ws \<and> kret c = 0 \<and> sent n (user_words n c) k es)
      | None \<Rightarrow> es = []))"

lemma control_write_spec:
  assumes "bridge_inv s" and "\<forall>es g wanted. kret (env es (Wait_event g wanted)) \<le> 0"
  shows "wp (control_write env fuel n) (write_post n s) s"
proof -
  let ?c = "(Copy_bytes_from_user n, env (kevents s) (Copy_bytes_from_user n))"
  let ?s1 = "kcalled env (Copy_bytes_from_user n) s"
  let ?m = "(Mutex_lock_interruptible, env (kevents ?s1) Mutex_lock_interruptible)"
  let ?s2 = "kcalled env Mutex_lock_interruptible ?s1"
  let ?ws = "user_words n (snd ?c)"
  have stop: "write_post n s (Some e) t" if "bridge_inv t" "kevents t = kevents s @ ws" "\<not> commits ws" "e \<le> 0" for e t ws
    using that unfolding write_post_def by (intro conjI exI [of _ ws] exI [of _ "[]"]) auto
  have "wp (wait_status env fuel TX_SPACE) (\<lambda>w t. case w of
      None \<Rightarrow> write_post n s None t
    | Some e \<Rightarrow> (e \<noteq> 0 \<longrightarrow> write_post n s (Some e) t) \<and>
        (e = 0 \<longrightarrow> wp (control_send env n ?ws) (\<lambda>r. write_post n s (Some r)) t)) ?s2"
    if "br_mailbox (br s)" "kret (snd ?c) = 0"
  proof (rule wp_mono [OF wp_conj [OF wait_status_spec wait_status_error]])
    show "bridge_inv ?s2" "br_mailbox (br ?s2)" using assms(1) that by simp_all
    fix w t assume w: "wait_post TX_SPACE ?s2 w t \<and> (\<forall>e. w = Some e \<longrightarrow> e \<le> 0)"
    then obtain es where t: "bridge_inv t" "kevents t = kevents s @ ?c # ?m # es" "\<not> commits es"
      using waiting_not_committing by (auto simp: wait_post_def)
    have "write_post n s (Some r) u"
      if "bridge_inv u" "kevents u = kevents t @ fs" "sent n ?ws r fs" for r u fs
      using that t \<open>kret (snd ?c) = 0\<close> unfolding write_post_def
      by (intro conjI exI [of _ "?c # ?m # es"] exI [of _ fs]) auto
    then have "wp (control_send env n ?ws) (\<lambda>r. write_post n s (Some r)) t"
      by (intro wp_mono [OF control_send_spec [OF t(1)]]) blast
    moreover have "write_post n s (Some e) t" if "w = Some e" for e
      using that w t by (auto intro: stop)
    moreover have "write_post n s None t"
      using t unfolding write_post_def by (intro conjI exI [of _ "?c # ?m # es"] exI [of _ "[]"]) auto
    ultimately show "case w of
        None \<Rightarrow> write_post n s None t
      | Some e \<Rightarrow> (e \<noteq> 0 \<longrightarrow> write_post n s (Some e) t) \<and>
          (e = 0 \<longrightarrow> wp (control_send env n ?ws) (\<lambda>r. write_post n s (Some r)) t)"
      by (cases w) simp_all
  qed (use assms(2) in simp)
  moreover have "write_post n s (Some (- EINVAL)) s" by (rule stop [of _ "[]"]) (use assms(1) in simp_all)
  moreover have "write_post n s (Some (- EFAULT)) ?s1" by (rule stop [of _ "[?c]"]) (use assms(1) in simp_all)
  moreover have "write_post n s (Some (- ERESTARTSYS)) ?s2" by (rule stop [of _ "[?c, ?m]"]) (use assms(1) in simp_all)
  ultimately show ?thesis
    unfolding control_write_def by (simp add: wp_rules cong: option.case_cong)
qed


section \<open>Waiting ends\<close>

text \<open>How often a thread has slept.\<close>

fun is_sleep :: "kevent \<Rightarrow> bool" where
  "is_sleep (Wait_event g w, a) = True"
| "is_sleep e = False"

definition sleeps :: "kevent list \<Rightarrow> nat" where
  "sleeps es = length (filter is_sleep es)"

lemma wait_status_returns:
  assumes "\<forall>es. N \<le> sleeps es \<longrightarrow>
      (ucast (kval (env es (Readl MB_STATUS))) :: u32) AND (wanted OR HYPER_IO_MAILBOX_CLOSED) \<noteq> 0"
    and "N < sleeps (kevents s) + fuel" and "0 < fuel"
  shows "wp (wait_status env fuel wanted) (\<lambda>r t. r \<noteq> None) s"
  using assms(2,3)
proof (induction fuel arbitrary: s)
  case (Suc fuel)
  let ?status = "ucast (kval (env (kevents s) (Readl MB_STATUS))) :: u32"
  let ?s1 = "kcalled env (Readl MB_STATUS) s"
  let ?s2 = "kcalled env (Writel MB_MASK (wanted OR HYPER_IO_MAILBOX_CLOSED)) ?s1"
  let ?w = "Wait_event (br_irq_generation (br s)) wanted"
  let ?s3 = "kcalled env ?w ?s2"
  have slept: "sleeps (kevents (kcalled env (Writel MB_MASK 0) (?s3\<lparr>br := b\<rparr>))) = Suc (sleeps (kevents s))" for b
    by (simp add: sleeps_def)
  have ready: "?status AND wanted \<noteq> 0 \<or> ?status AND HYPER_IO_MAILBOX_CLOSED \<noteq> 0" if "N \<le> sleeps (kevents s)"
  proof (rule ccontr)
    assume "\<not> (?status AND wanted \<noteq> 0 \<or> ?status AND HYPER_IO_MAILBOX_CLOSED \<noteq> 0)"
    then have "?status AND (wanted OR HYPER_IO_MAILBOX_CLOSED) = 0" by (simp add: bit.conj_disj_distrib)
    then show False using assms(1) that by blast
  qed
  have again: "wp (wait_status env fuel wanted) (\<lambda>r t. r \<noteq> None) (kcalled env (Writel MB_MASK 0) (?s3\<lparr>br := b\<rparr>))"
    if "\<not> N \<le> sleeps (kevents s)" for b
  proof (rule Suc.IH)
    show "N < sleeps (kevents (kcalled env (Writel MB_MASK 0) (?s3\<lparr>br := b\<rparr>))) + fuel"
      unfolding slept using Suc.prems by linarith
    show "0 < fuel" using Suc.prems that by linarith
  qed
  show ?case
    using ready again
    by (cases "N \<le> sleeps (kevents s)") (auto simp: wp_rules Let_def simp del: kevents_kcalled)
qed simp

lemma control_read_returns:
  assumes "\<forall>es. N \<le> sleeps es \<longrightarrow>
      (ucast (kval (env es (Readl MB_STATUS))) :: u32) AND (RX_READY OR HYPER_IO_MAILBOX_CLOSED) \<noteq> 0"
  shows "wp (control_read env (Suc N) capacity) (\<lambda>r t. r \<noteq> None) s"
proof -
  have "wp (wait_status env (Suc N) RX_READY) (\<lambda>r t. r \<noteq> None) u" for u
    by (rule wait_status_returns [where N = N]) (use assms in simp_all)
  then have "wp (wait_status env (Suc N) RX_READY) (\<lambda>w t. case w of
      None \<Rightarrow> False
    | Some e \<Rightarrow> e = 0 \<longrightarrow> wp (control_receive env capacity) (\<lambda>_ _. True) t) u" for u
    by (rule wp_mono) (auto simp: wp_def split: option.splits)
  then show ?thesis
    unfolding control_read_def by (simp add: wp_rules del: wait_status.simps cong: option.case_cong)
qed

end
