(* ===== verification/Bridge_Runs.thy ===== *)
theory Bridge_Runs
  imports Bridge_Life
begin

text \<open>
  The admission of grants through a notification bridge, and the runs of a bridge: every interleaving
  of file operations, interrupts, wake-ups and the removal after a successful probe.
\<close>

section \<open>Admission\<close>

text \<open>
  The tokens the hypervisor has admitted and not retired, after a history of register accesses: a
  token written to the admission register is admitted if the status read next is zero, and a write
  to the quiescence register retires it.
\<close>

fun token_step :: "u64 option \<times> u64 set \<Rightarrow> kevent \<Rightarrow> u64 option \<times> u64 set" where
  "token_step (p, A) (Writeq x v, a) =
     (if x = 0x28 then (Some v, A) else if x = 0x20 then (None, A - {v}) else (p, A))"
| "token_step (p, A) (Readq x, a) =
     (if x = 0x40 then (None, if kval a = 0 then A \<union> set_option p else A) else (p, A))"
| "token_step (p, A) e = (p, A)"

definition tokens :: "kevent list \<Rightarrow> u64 option \<times> u64 set" where
  "tokens es = foldl token_step (None, {}) es"

definition admitted_tokens :: "kevent list \<Rightarrow> u64 set" where
  "admitted_tokens es = snd (tokens es)"

lemma tokens_snoc [simp]: "tokens (es @ fs) = foldl token_step (tokens es) fs"
  by (simp add: tokens_def)

lemma token_write [simp]:
  "token_step P (Writeq 0x28 v, a) = (Some v, snd P)"
  "token_step P (Writeq 0x20 v, a) = (None, snd P - {v})"
  "token_step P (Readq 0x40, a) = (None, if kval a = 0 then snd P \<union> set_option (fst P) else snd P)"
  "x \<noteq> 0x40 \<Longrightarrow> token_step P (Readq x, a) = P"
  "token_step P (Copy_from_user, a) = P" "token_step P (Copy_to_user ws, a) = P"
  by (cases P; simp)+

text \<open>The facts the hypervisor has reported, for the admission of a grant that succeeded.\<close>

definition confirmed :: "hyper_io_admission \<Rightarrow> kevent list \<Rightarrow> bool" where
  "confirmed g es \<longleftrightarrow> (\<exists>c w a b l n u.
     es = [(Copy_from_user, c), (Writeq 0x28 (ad_token g), w), (Readq 0x40, a), (Readq 0x30, b), (Readq 0x38, l),
       (Readq 0x48, n), (Copy_to_user [ad_token g, ad_guest_base g, ad_length g, kval n], u)] \<and>
     kret c = 0 \<and> kval a = 0 \<and> kval b = ad_guest_base g \<and> kval l = ad_length g \<and>
     kval n \<noteq> 0 \<and> kval n \<le> ad_length g div 4096 \<and> kret u = 0)"

definition admit_post :: "hyper_io_admission \<Rightarrow> bridge_state \<Rightarrow> int \<Rightarrow> bridge_state \<Rightarrow> bool" where
  "admit_post g s r t \<longleftrightarrow>
     (if r = 0 then ad_token g \<noteq> 0 \<and> admitted_tokens (kevents t) = insert (ad_token g) (admitted_tokens (kevents s)) \<and>
        (\<exists>es. kevents t = kevents s @ es \<and> confirmed g es)
      else admitted_tokens (kevents t) \<subseteq> admitted_tokens (kevents s) \<and>
        admitted_tokens (kevents s) - {ad_token g} \<subseteq> admitted_tokens (kevents t))"

lemma admit_grant_spec: "wp (admit_grant env g) (admit_post g s) s"
  unfolding admit_grant_def admit_refused_def
  by (auto simp: wp_rules admit_post_def admitted_tokens_def confirmed_def)

lemma admit_ioctl_spec:
  "wp (notification_ioctl env (Io_admit g)) (\<lambda>r t. admit_post g s r t \<and> (br_bound (br s) \<longrightarrow> r \<noteq> 0 \<and> t = s)) s"
proof -
  have "wp (admit_grant env g) (\<lambda>r t. admit_post g s r t \<and> (br_bound (br s) \<longrightarrow> r \<noteq> 0 \<and> t = s)) s"
    if "\<not> br_bound (br s)"
    by (rule wp_mono [OF admit_grant_spec]) (simp add: that)
  then show ?thesis
    unfolding notification_ioctl_def by (simp add: wp_rules admit_post_def)
qed

text \<open>The quiescence command retires exactly its token, and never while eventfds are bound.\<close>

lemma quiescent_ioctl_spec:
  "wp (notification_ioctl env (Io_quiescent token)) (\<lambda>r t. br t = br s \<and>
     (if r = 0 then token \<noteq> 0 \<and> \<not> br_bound (br s) \<and> admitted_tokens (kevents t) = admitted_tokens (kevents s) - {token} \<and>
        (\<exists>c w. kevents t = kevents s @ [(Copy_from_user, c), (Writeq 0x20 token, w)])
      else admitted_tokens (kevents t) = admitted_tokens (kevents s)) \<and>
     (br_bound (br s) \<longrightarrow> r \<noteq> 0 \<and> t = s)) s"
  unfolding notification_ioctl_def report_quiescent_def by (auto simp: wp_rules admitted_tokens_def)

section \<open>Runs\<close>

inductive bridge_step :: "kenv \<Rightarrow> bridge_state \<Rightarrow> bridge_state \<Rightarrow> bool" for env where
  opens: "live s \<Longrightarrow> run_state bridge_open s = (r, t) \<Longrightarrow> bridge_step env s t"
| closing: "br_opened (br s) \<Longrightarrow> run_state (bridge_release env) s = (r, t) \<Longrightarrow> bridge_step env s t"
| control: "br_opened (br s) \<Longrightarrow> run_state (notification_ioctl env c) s = (r, t) \<Longrightarrow> bridge_step env s t"
| reading: "br_opened (br s) \<Longrightarrow> run_state (control_read env fuel n) s = (w, t) \<Longrightarrow> bridge_step env s t"
| writing: "br_opened (br s) \<Longrightarrow> run_state (control_write env fuel n) s = (w, t) \<Longrightarrow> bridge_step env s t"
| interrupt: "live s \<Longrightarrow> br_mailbox (br s) \<or> br_irq_enabled (br s) \<Longrightarrow> run_state (bridge_irq env) s = (u, t) \<Longrightarrow>
     bridge_step env s t"
| wakeup: "i < HYPER_IO_QUEUES \<Longrightarrow> cb_queue (br_call (br s) ! i) \<Longrightarrow>
     run_state (call_wakeup env i key) s = (r, t) \<Longrightarrow> bridge_step env s t"
| removal: "live s \<Longrightarrow> run_state (bridge_remove env) s = (u, t) \<Longrightarrow> bridge_step env s t"

inductive_cases bridge_stepE: "bridge_step env s t"

definition interruptible :: "kenv \<Rightarrow> bool" where
  "interruptible env \<longleftrightarrow> (\<forall>es g wanted. kret (env es (Wait_event g wanted)) \<le> 0)"

lemma bridge_step_inv:
  assumes "bridge_step env s t" and "bridge_inv s" and "interruptible env"
  shows "bridge_inv t"
  using assms(1)
proof cases
  case (opens r)
  then show ?thesis using wp_runD [OF bridge_open_inv [OF assms(2)]] by blast
next
  case (closing r)
  then show ?thesis using wp_runD [OF release_inv [OF assms(2)]] by blast
next
  case (control c r)
  then show ?thesis using wp_runD [OF ioctl_inv [OF assms(2)]] by blast
next
  case (reading fuel n w)
  have "read_post n s w t"
    by (rule wp_runD [OF control_read_spec [OF assms(2)] reading(2)]) (use assms(3) in \<open>simp add: interruptible_def\<close>)
  then show ?thesis by (simp add: read_post_def)
next
  case (writing fuel n w)
  have "write_post n s w t"
    by (rule wp_runD [OF control_write_spec [OF assms(2)] writing(2)]) (use assms(3) in \<open>simp add: interruptible_def\<close>)
  then show ?thesis by (simp add: write_post_def)
next
  case (interrupt u)
  then show ?thesis using wp_runD [OF irq_inv [OF assms(2)]] by blast
next
  case (wakeup i key r)
  then show ?thesis using wp_runD [OF wakeup_inv [OF assms(2)]] by blast
next
  case (removal u)
  then show ?thesis using wp_runD [OF remove_inv [OF assms(2)]] by blast
qed

lemma bridge_reachable_inv:
  assumes "(bridge_step env)\<^sup>*\<^sup>* s t" and "bridge_inv s" and "interruptible env"
  shows "bridge_inv t"
  using assms(1)
  by (induction rule: rtranclp_induct) (auto intro: assms(2) bridge_step_inv [OF _ _ assms(3)])

section \<open>Probe\<close>

text \<open>
  A probe that succeeds establishes the invariant with the interrupt requested and nobody holding the
  device open; one that fails has given the interrupt back and freed its object.
\<close>

definition bridge_probing :: "bridge_state \<Rightarrow> bool" where
  "bridge_probing t \<longleftrightarrow> ledger_of (kevents t) = empty_ledger \<and> br_references (br t) = 1 \<and> \<not> br_freed t \<and>
     (\<exists>m net name. br t = fresh_bridge\<lparr>br_mailbox := m, br_network := net, br_name := name\<rparr>)"

definition requested :: "bridge_state \<Rightarrow> bool" where
  "requested t \<longleftrightarrow> ledger_of (kevents t) = empty_ledger\<lparr>lg_irq_live := True\<rparr> \<and> br_references (br t) = 1 \<and>
     \<not> br_freed t \<and> (\<exists>m net name. br t = fresh_bridge\<lparr>br_mailbox := m, br_network := net, br_name := name\<rparr>)"

definition probe_post :: "int \<Rightarrow> bridge_state \<Rightarrow> bool" where
  "probe_post r t \<longleftrightarrow> (if r = 0 then bridge_inv t \<and> live t \<and> \<not> br_opened (br t)
     else ledger_of (kevents t) = empty_ledger \<and> br_freed t)"

lemma bridge_probing_kcalled [simp]: "\<not> reference_call c \<Longrightarrow> bridge_probing (kcalled env c t) = bridge_probing t"
  "\<not> reference_call c \<Longrightarrow> requested (kcalled env c t) = requested t"
  by (simp_all add: bridge_probing_def requested_def)

lemma requested_frames:
  "requested t \<Longrightarrow> requested (t\<lparr>br := (br t)\<lparr>br_network := net\<rparr>\<rparr>)"
  "requested t \<Longrightarrow> requested (t\<lparr>br := (br t)\<lparr>br_name := name\<rparr>\<rparr>)"
  by (auto simp: requested_def fresh_bridge_def)

lemma fresh_contexts [simp]: "contexts (fresh_bridge\<lparr>br_mailbox := m, br_network := net, br_name := name\<rparr>) = {#}"
  "files (fresh_bridge\<lparr>br_mailbox := m, br_network := net, br_name := name\<rparr>) = {#}"
  by (simp_all add: contexts_def files_def fresh_bridge_def numeral_eq_Suc)

lemma requested_inv: "requested t \<Longrightarrow> probe_post 0 t"
  by (auto simp: requested_def probe_post_def bridge_inv_def wired_def idle_bridge_def cleared_def live_def Let_def
      empty_ledger_def, auto simp: fresh_bridge_def)

lemma bridge_failed_spec: "bridge_probing t \<Longrightarrow> e \<noteq> 0 \<Longrightarrow> wp (bridge_failed e) probe_post t"
  unfolding bridge_failed_def bridge_put_def by (simp add: wp_rules bridge_probing_def probe_post_def)

lemma bridge_failed_irq_spec: "requested t \<Longrightarrow> e \<noteq> 0 \<Longrightarrow> wp (bridge_failed_irq env e) probe_post t"
  unfolding bridge_failed_irq_def bridge_failed_def bridge_put_def
  by (simp add: wp_rules requested_def probe_post_def empty_ledger_def)

lemma bridge_name_requested: "requested t \<Longrightarrow> wp (bridge_name env mailbox) (\<lambda>_. requested) t"
  unfolding bridge_name_def device_kind_def Let_def by (simp add: wp_rules)

lemma bridge_register_spec:
  assumes "requested t"
  shows "wp (bridge_register env mailbox) probe_post t"
proof -
  have "wp (case identity of
        None \<Rightarrow> bridge_failed_irq env (- EINVAL)
      | Some (net, name) \<Rightarrow> do {
          modify_bridge (\<lambda>b. b\<lparr>br_network := net\<rparr>);
          k \<leftarrow> kcall env (Kasprintf name);
          if kret k = 0 then bridge_failed_irq env (- ENOMEM)
          else do {
            modify_bridge (\<lambda>b. b\<lparr>br_name := name\<rparr>);
            m \<leftarrow> kcall env (Misc_register name);
            if kret m \<noteq> 0 then bridge_failed_irq env (kret m) else State_Monad.return 0 } }) probe_post u"
    if "requested u" for u identity
  proof (cases identity)
    case None
    then show ?thesis using that by (simp add: bridge_failed_irq_spec)
  next
    case (Some p)
    let ?v = "kcalled env (Kasprintf (snd p)) (u\<lparr>br := (br u)\<lparr>br_network := fst p\<rparr>\<rparr>)"
    let ?w = "?v\<lparr>br := (br ?v)\<lparr>br_name := snd p\<rparr>\<rparr>"
    let ?x = "kcalled env (Misc_register (snd p)) ?w"
    have v: "requested ?v" using requested_frames(1) [OF that] by simp
    have "requested ?x" using requested_frames(2) [OF v] by simp
    then show ?thesis
      using Some v requested_inv [of ?x]
      by (cases p) (auto simp: wp_rules bridge_failed_irq_spec simp del: kevents_kcalled)
  qed
  then show ?thesis
    unfolding bridge_register_def wp_bind by (rule wp_mono [OF bridge_name_requested [OF assms]])
qed

lemma request_irq:
  "bridge_probing u \<Longrightarrow> kret (env (kevents u) (Request_irq mailbox)) = 0 \<Longrightarrow> requested (kcalled env (Request_irq mailbox) u)"
  "bridge_probing u \<Longrightarrow> kret (env (kevents u) (Request_irq mailbox)) \<noteq> 0 \<Longrightarrow> bridge_probing (kcalled env (Request_irq mailbox) u)"
  by (auto simp: bridge_probing_def requested_def)

lemma bridge_setup_spec:
  assumes "bridge_probing t"
  shows "wp (bridge_setup env mailbox) probe_post t"
proof -
  have registers: "wp (registers_ok env mailbox) (\<lambda>_. bridge_probing) t"
    unfolding registers_ok_def using assms by (simp add: wp_rules)
  show ?thesis
    unfolding bridge_setup_def wp_bind
    by (rule wp_mono [OF registers])
       (simp add: wp_rules bridge_failed_spec bridge_register_spec request_irq del: kevents_kcalled)
qed

lemma bridge_probe_spec:
  assumes "ledger_of (kevents s) = empty_ledger"
  shows "wp (bridge_probe env) (\<lambda>r t. probe_post r t \<or> r \<noteq> 0 \<and> br t = br s \<and> ledger_of (kevents t) = empty_ledger) s"
proof -
  have fresh: "bridge_probing (t\<lparr>br := fresh_bridge\<lparr>br_mailbox := m\<rparr>, br_freed := False\<rparr>)"
    if "ledger_of (kevents t) = empty_ledger" for t m
  proof -
    have "fresh_bridge\<lparr>br_mailbox := m\<rparr> = fresh_bridge\<lparr>br_mailbox := m, br_network := False, br_name := []\<rparr>"
      by (simp add: fresh_bridge_def)
    then show ?thesis using that unfolding bridge_probing_def by (auto simp: fresh_bridge_def)
  qed
  have weaken: "wp m probe_post t \<Longrightarrow>
      wp m (\<lambda>r t. probe_post r t \<or> r \<noteq> 0 \<and> br t = br s \<and> ledger_of (kevents t) = empty_ledger) t" for m t
    by (erule wp_mono) simp
  show ?thesis
    unfolding bridge_probe_def Let_def
    using assms by (simp add: wp_rules weaken bridge_failed_spec bridge_setup_spec fresh)
qed

end
