(* ===== verification/Bridge_Properties.thy ===== *)
theory Bridge_Properties
  imports Bridge_Runs
begin

text \<open>
  The properties of the io-bridge module, with a concrete kernel and concrete bridges on which they
  are instantiated.
\<close>

section \<open>A concrete kernel\<close>

text \<open>
  Every call succeeds; the registers are those of a notification bridge whose route has epoch 7 and
  offers a grant of two pages in one extent.
\<close>

definition routed :: kenv where
  "routed es c = (case c of
     Kzalloc \<Rightarrow> kdone\<lparr>kret := 1\<rparr>
   | Platform_get_resource \<Rightarrow> kdone\<lparr>kret := 1, kval := 4096\<rparr>
   | Kasprintf n \<Rightarrow> kdone\<lparr>kret := 1\<rparr>
   | Readl x \<Rightarrow> kdone\<lparr>kval := (if x = 0 then 0x48594e42 else if x = 4 then 1 else if x = 8 then 7 else 0)\<rparr>
   | Readq x \<Rightarrow> kdone\<lparr>kval := (if x = 0x30 then 0x40000000 else if x = 0x38 then 8192 else if x = 0x48 then 1 else 0)\<rparr>
   | Eventfd_ctx_fdget fd \<Rightarrow> kdone\<lparr>kval := of_int fd\<rparr>
   | Eventfd_fget fd \<Rightarrow> kdone\<lparr>kval := of_int fd + 100\<rparr>
   | Eventfd_ctx_fileget f \<Rightarrow> kdone\<lparr>kval := f + 100\<rparr>
   | Vfs_poll i f \<Rightarrow> kdone\<lparr>kret := 1\<rparr>
   | _ \<Rightarrow> kdone)"

definition unprobed :: bridge_state where
  "unprobed = \<lparr>kevents = [], br = fresh_bridge, br_freed = True\<rparr>"

definition probed_bridge :: bridge_state where
  "probed_bridge = snd (run_state (bridge_probe routed) unprobed)"

definition opened_bridge :: bridge_state where
  "opened_bridge = snd (run_state bridge_open probed_bridge)"

definition three_queues :: hyper_io_eventfds where
  "three_queues = \<lparr>ef_epoch = 7, ef_reserved = 0, ef_kick = [3, 4, 5, - 1, - 1, - 1], ef_call = [6, 7, 8, - 1, - 1, - 1]\<rparr>"

definition two_page_admission :: hyper_io_admission where
  "two_page_admission = \<lparr>ad_token = 9, ad_guest_base = 0x40000000, ad_length = 8192, ad_extent_count = 0\<rparr>"

lemma routed_interruptible: "interruptible routed"
  by (simp add: interruptible_def routed_def kdone_def)

lemmas bridge_eval = bridge_probe_def bridge_setup_def registers_ok_def bridge_register_def bridge_name_def
  modify_bridge_def State_Monad.update_def run_kcall kcalled_def routed_def kdone_def unprobed_def Let_def

lemma routed_probe: "run_state (bridge_probe routed) unprobed = (0, probed_bridge)"
proof -
  have "fst (run_state (bridge_probe routed) unprobed) = 0" by (simp add: bridge_eval)
  then show ?thesis unfolding probed_bridge_def by (metis prod.collapse)
qed

lemma probed_bridge_inv: "bridge_inv probed_bridge" "live probed_bridge" "\<not> br_opened (br probed_bridge)"
proof -
  have "ledger_of (kevents unprobed) = empty_ledger" by (simp add: unprobed_def ledger_of_def)
  from wp_runD [OF bridge_probe_spec [OF this] routed_probe]
  show "bridge_inv probed_bridge" "live probed_bridge" "\<not> br_opened (br probed_bridge)"
    by (simp_all add: probe_post_def)
qed

lemma opened_bridge_step: "bridge_step routed probed_bridge opened_bridge"
  by (rule bridge_step.opens [OF probed_bridge_inv(2)]) (simp add: opened_bridge_def prod_eq_iff)

lemma opened_bridge_inv: "bridge_inv opened_bridge"
  by (rule bridge_step_inv [OF opened_bridge_step probed_bridge_inv(1) routed_interruptible])

lemma opened_bridge_fields:
  "\<not> br_bound (br opened_bridge)" "\<not> br_mailbox (br opened_bridge)" "\<not> br_dead (br opened_bridge)"
  "br_opened (br opened_bridge)" "\<not> br_network (br opened_bridge)"
  by (simp_all add: opened_bridge_def probed_bridge_def bridge_open_def fresh_bridge_def bridge_eval)

lemmas bind_eval = notification_ioctl_def bind_eventfds_def bind_queues_def bind_queue_def bind_file_def
  bind_event_def bind_wait_def modify_call_def set_kick_def

lemma three_queues_valid: "hyper_io_eventfds_valid three_queues False"
  by code_simp

lemma queue_numbers: "[0..<HYPER_IO_QUEUES] = [0, 1, 2, 3, 4, 5]"
  by (simp add: upt_rec)

lemma bound_ok: "fst (run_state (notification_ioctl routed (Io_bind three_queues)) opened_bridge) = 0"
  using three_queues_valid
  by (simp add: bind_eval queue_numbers opened_bridge_def probed_bridge_def bridge_open_def fresh_bridge_def
      bridge_eval three_queues_def)

section \<open>The life of a bridge\<close>

text \<open>
  C30. From a successful probe on, in every interleaving of opens, closes, commands, reads, writes,
  interrupts, wake-ups and the removal: a bridge holds exactly the eventfd contexts, files and wait
  entries recorded in its fields; no context is signalled, drained or given back that it does not
  hold, and none is given back while an interrupt could read it; an unbound bridge holds nothing and
  takes no interrupt; and the object is freed exactly when it is removed and nobody has it open.
\<close>

theorem bridge_holds_what_it_took:
  assumes "ledger_of (kevents r) = empty_ledger" and "run_state (bridge_probe env) r = (0, s)"
    and "(bridge_step env)\<^sup>*\<^sup>* s t" and "interruptible env"
  shows "(let b = br t; L = ledger_of (kevents t) in
     lg_sound L \<and> lg_contexts L = contexts b \<and> lg_files L = files b \<and>
     lg_waiting L = {i. i < HYPER_IO_QUEUES \<and> cb_queue (br_call b ! i)} \<and> lg_irq_on L = br_bound b \<and>
     (\<not> br_bound b \<longrightarrow> contexts b = {#} \<and> files b = {#} \<and> lg_waiting L = {}) \<and>
     br_references b = of_bool (lg_irq_live L) + of_bool (br_opened b) \<and>
     (br_freed t \<longleftrightarrow> \<not> lg_irq_live L \<and> \<not> br_opened b))"
proof -
  have "bridge_inv s"
    using wp_runD [OF bridge_probe_spec [OF assms(1)] assms(2)] by (simp add: probe_post_def)
  then have t: "bridge_inv t" by (rule bridge_reachable_inv [OF assms(3) _ assms(4)])
  have "\<not> br_bound (br t) \<Longrightarrow> contexts (br t) = {#} \<and> files (br t) = {#} \<and> lg_waiting (ledger_of (kevents t)) = {}"
    using quiet_owns_nothing [OF bridge_inv_linked [OF t]] bridge_inv_quiet [OF t] by blast
  with t show ?thesis
    by (auto simp: bridge_inv_def wired_def live_def Let_def idle_bridge_def split: if_splits)
qed

theorem bridge_holds_what_it_took_witness:
  "(bridge_step routed)\<^sup>*\<^sup>* probed_bridge opened_bridge \<and> br_opened (br opened_bridge) \<and>
   br_references (br opened_bridge) = 2"
proof -
  have run: "(bridge_step routed)\<^sup>*\<^sup>* probed_bridge opened_bridge" using opened_bridge_step by auto
  have "ledger_of (kevents unprobed) = empty_ledger" by (simp add: unprobed_def ledger_of_def)
  from bridge_holds_what_it_took [OF this routed_probe run routed_interruptible]
  have "br_references (br opened_bridge) = of_bool (live opened_bridge) + 1"
    using opened_bridge_fields(4) by (simp add: Let_def live_def)
  moreover have "live opened_bridge"
    using opened_bridge_inv opened_bridge_fields(2,3) by (simp add: bridge_inv_def Let_def)
  ultimately show ?thesis using run opened_bridge_fields(4) by simp
qed

text \<open>
  C31. Binding eventfds is all or nothing, whatever fails on the way: on success every used queue has
  its kick context, its call file and context, a registered wait entry and the current epoch, and the
  interrupt is on; on an error an unbound bridge is left holding nothing, and a bound one is refused
  without effect.
\<close>

theorem bind_all_or_nothing:
  assumes "bridge_inv s"
  shows "wp (notification_ioctl env (Io_bind fds)) (\<lambda>r t. bridge_inv t \<and>
     (if r = 0 then \<not> br_bound (br s) \<and> br_bound (br t) \<and> lg_irq_on (ledger_of (kevents t)) \<and>
        hyper_io_eventfds_valid fds (br_network (br s)) \<and>
        (\<forall>i<HYPER_IO_QUEUES. if ef_kick fds ! i = - 1 then br_kick (br t) ! i = None \<and> cleared (br_call (br t) ! i)
          else br_kick (br t) ! i \<noteq> None \<and> cb_file (br_call (br t) ! i) \<noteq> None \<and>
            cb_event (br_call (br t) ! i) \<noteq> None \<and> i \<in> lg_waiting (ledger_of (kevents t)) \<and>
            cb_epoch (br_call (br t) ! i) = ef_epoch fds)
      else if br_bound (br s) then t = s
      else contexts (br t) = {#} \<and> files (br t) = {#} \<and> \<not> lg_irq_on (ledger_of (kevents t)))) s"
proof (rule wp_mono [OF bind_ioctl_spec [OF assms]])
  fix r t assume p: "bind_ioctl_post fds s r t"
  then have l: "wired t" by (simp add: bind_ioctl_post_def bridge_inv_linked)
  show "bridge_inv t \<and>
     (if r = 0 then \<not> br_bound (br s) \<and> br_bound (br t) \<and> lg_irq_on (ledger_of (kevents t)) \<and>
        hyper_io_eventfds_valid fds (br_network (br s)) \<and>
        (\<forall>i<HYPER_IO_QUEUES. if ef_kick fds ! i = - 1 then br_kick (br t) ! i = None \<and> cleared (br_call (br t) ! i)
          else br_kick (br t) ! i \<noteq> None \<and> cb_file (br_call (br t) ! i) \<noteq> None \<and>
            cb_event (br_call (br t) ! i) \<noteq> None \<and> i \<in> lg_waiting (ledger_of (kevents t)) \<and>
            cb_epoch (br_call (br t) ! i) = ef_epoch fds)
      else if br_bound (br s) then t = s
      else contexts (br t) = {#} \<and> files (br t) = {#} \<and> \<not> lg_irq_on (ledger_of (kevents t)))"
    using p l quiet_owns_nothing [OF l]
    by (auto simp: bind_ioctl_post_def entry_bound_def bridge_inv_def wired_def Let_def split: if_splits)
qed

theorem bind_all_or_nothing_witness:
  "bridge_inv opened_bridge \<and>
   br_bound (br (snd (run_state (notification_ioctl routed (Io_bind three_queues)) opened_bridge)))"
proof -
  obtain t where t: "run_state (notification_ioctl routed (Io_bind three_queues)) opened_bridge = (0, t)"
    using bound_ok by (metis prod.collapse)
  show ?thesis
    using wp_runD [OF bind_all_or_nothing [OF opened_bridge_inv] t] opened_bridge_inv t by simp
qed

section \<open>Admission\<close>

text \<open>
  C32. Admitting a grant is all or nothing: it succeeds only when the hypervisor confirms base, length
  and a possible number of extents, and then the token is admitted and the caller has the facts; in
  every other case no token is admitted that was not admitted before, and none but the rejected one is
  retired. A bridge with bound eventfds admits nothing.
\<close>

theorem admission_all_or_nothing:
  "wp (notification_ioctl env (Io_admit g)) (\<lambda>r t.
     (if r = 0 then ad_token g \<noteq> 0 \<and> admitted_tokens (kevents t) = insert (ad_token g) (admitted_tokens (kevents s)) \<and>
        (\<exists>es. kevents t = kevents s @ es \<and> confirmed g es)
      else admitted_tokens (kevents t) \<subseteq> admitted_tokens (kevents s) \<and>
        admitted_tokens (kevents s) - {ad_token g} \<subseteq> admitted_tokens (kevents t)) \<and>
     (br_bound (br s) \<longrightarrow> r \<noteq> 0 \<and> t = s)) s"
  using admit_ioctl_spec [of env g s] unfolding admit_post_def .

lemma routed_admits: "fst (run_state (notification_ioctl routed (Io_admit two_page_admission)) opened_bridge) = 0"
  by (simp add: notification_ioctl_def admit_grant_def two_page_admission_def opened_bridge_fields routed_def kdone_def
      run_kcall word_less_nat_alt unat_div_distrib)

theorem admission_all_or_nothing_witness:
  "\<exists>t. run_state (notification_ioctl routed (Io_admit two_page_admission)) opened_bridge = (0, t) \<and>
     9 \<in> admitted_tokens (kevents t)"
proof -
  obtain r t where run: "run_state (notification_ioctl routed (Io_admit two_page_admission)) opened_bridge = (r, t)"
    by (cases "run_state (notification_ioctl routed (Io_admit two_page_admission)) opened_bridge")
  then have "r = 0" using routed_admits by simp
  with run wp_runD [OF admission_all_or_nothing run] show ?thesis by (simp add: two_page_admission_def)
qed

text \<open>
  C33. A quiescence report retires exactly its token, and is refused without effect as long as
  eventfds are bound: a grant cannot be declared quiescent while its backend may still be running.
\<close>

theorem quiescence_needs_unbound:
  "wp (notification_ioctl env (Io_quiescent token)) (\<lambda>r t. br t = br s \<and>
     (if r = 0 then token \<noteq> 0 \<and> \<not> br_bound (br s) \<and> admitted_tokens (kevents t) = admitted_tokens (kevents s) - {token} \<and>
        (\<exists>c w. kevents t = kevents s @ [(Copy_from_user, c), (Writeq 0x20 token, w)])
      else admitted_tokens (kevents t) = admitted_tokens (kevents s)) \<and>
     (br_bound (br s) \<longrightarrow> r \<noteq> 0 \<and> t = s)) s"
  by (rule quiescent_ioctl_spec)

lemma routed_retires: "fst (run_state (notification_ioctl routed (Io_quiescent 9)) opened_bridge) = 0"
  by (simp add: notification_ioctl_def report_quiescent_def opened_bridge_fields routed_def kdone_def run_kcall)

theorem quiescence_needs_unbound_witness:
  "\<exists>t. run_state (notification_ioctl routed (Io_quiescent 9)) opened_bridge = (0, t) \<and>
     9 \<notin> admitted_tokens (kevents t) \<and> \<not> br_bound (br opened_bridge)"
proof -
  obtain r t where run: "run_state (notification_ioctl routed (Io_quiescent 9)) opened_bridge = (r, t)"
    by (cases "run_state (notification_ioctl routed (Io_quiescent 9)) opened_bridge")
  then have "r = 0" using routed_retires by simp
  with run wp_runD [OF quiescence_needs_unbound run] show ?thesis by simp
qed

section \<open>The mailbox\<close>

text \<open>A mailbox that holds a record of six bytes with sequence number 41 and has room to send.\<close>

definition posted :: kenv where
  "posted es c = (case c of
     Readl x \<Rightarrow> kdone\<lparr>kval := (if x = MB_STATUS then 3 else if x = MB_RX_LEN then 6 else 0)\<rparr>
   | Readq x \<Rightarrow> kdone\<lparr>kval := (if x = MB_RX_SEQ then 41 else 0)\<rparr>
   | _ \<Rightarrow> kdone)"

definition mailbox :: bridge_state where
  "mailbox = \<lparr>kevents = [(Request_irq True, kdone)],
     br = fresh_bridge\<lparr>br_mailbox := True, br_opened := True, br_references := 2\<rparr>, br_freed = False\<rparr>"

lemma mailbox_inv: "bridge_inv mailbox"
  by (simp add: mailbox_def bridge_inv_def wired_def idle_bridge_def cleared_def live_def Let_def ledger_of_def
      empty_ledger_def kdone_def fresh_bridge_def contexts_def files_def numeral_eq_Suc nth_Cons')

lemma posted_interruptible: "interruptible posted"
  by (simp add: interruptible_def posted_def kdone_def)

lemma posted_read: "fst (run_state (control_read posted 1 64) mailbox) = Some 6"
  by (simp add: control_read_def control_receive_def deliver_record_def mailbox_def fresh_bridge_def run_kcall
      kcalled_def posted_def kdone_def Let_def upt_rec)

lemma posted_write: "fst (run_state (control_write posted 1 5) mailbox) = Some 5"
  by (simp add: control_write_def control_send_def commit_record_def mailbox_def fresh_bridge_def run_kcall
      kcalled_def posted_def kdone_def Let_def upt_rec)

text \<open>
  C34. Reading a control record: a positive result \<open>n\<close> is the length the mailbox announced, at most
  256 and at most the caller's capacity; all words of the record have been read and copied to the
  caller, and only then the record is consumed, under the sequence number read with it. In every other
  case (an error, an interrupted wait, a copy that failed) nothing is consumed.
\<close>

theorem control_read_delivers:
  assumes "bridge_inv s" and "interruptible env"
  shows "wp (control_read env fuel capacity) (\<lambda>r t. bridge_inv t \<and>
     (\<exists>ws es. kevents t = kevents s @ ws @ es \<and> \<not> consumes ws \<and>
       (case r of
          None \<Rightarrow> es = []
        | Some n \<Rightarrow> if 0 < n then (\<exists>l q ds u w.
              es = (Readl MB_RX_LEN, l) # (Readq MB_RX_SEQ, q) # ds @
                [(Copy_bytes_to_user (nat n) (map (\<lambda>e. ucast (kval (snd e))) ds), u),
                 (Writeq MB_RX_CONSUME (kval q), w)] \<and>
              map fst ds = map (\<lambda>i. Readl (MB_RX_DATA + of_nat i * 4)) [0..<(nat n + 3) div 4] \<and>
              kret u = 0 \<and> nat n = unat (ucast (kval l) :: u32) \<and> 0 < nat n \<and> nat n \<le> HYPER_IO_RECORD \<and>
              nat n \<le> capacity) else \<not> consumes es))) s"
  using control_read_spec [OF assms(1) assms(2) [unfolded interruptible_def], of fuel capacity]
  unfolding read_post_def delivered_def .

theorem control_read_delivers_witness:
  "bridge_inv mailbox \<and> consumes (kevents (snd (run_state (control_read posted 1 64) mailbox)))"
proof -
  obtain t where t: "run_state (control_read posted 1 64) mailbox = (Some 6, t)"
    using posted_read by (metis prod.collapse)
  show ?thesis
    using wp_runD [OF control_read_delivers [OF mailbox_inv posted_interruptible] t] mailbox_inv t by auto
qed

text \<open>
  C35. Sending a control record: unless it is refused before anything is stored (and then nothing is
  committed), the stale error is cleared first, every word of the caller's record is stored in order,
  then its length, and the commit is the last write; the result is the length exactly if the status
  read back shows neither an error nor a closed mailbox.
\<close>

theorem control_write_commits_last:
  assumes "bridge_inv s" and "interruptible env"
  shows "wp (control_write env fuel n) (\<lambda>r t. bridge_inv t \<and>
     (\<exists>ws es. kevents t = kevents s @ ws @ es \<and> \<not> commits ws \<and>
       (case r of
          None \<Rightarrow> es = []
        | Some k \<Rightarrow> es = [] \<and> k \<le> 0 \<or>
            (\<exists>c. (Copy_bytes_from_user n, c) \<in> set ws \<and> kret c = 0 \<and>
              map fst es = [Writel MB_STATUS MB_ERROR] @
                map (\<lambda>i. Writel (MB_TX_DATA + of_nat i * 4) (user_words n c ! i)) [0..<(n + 3) div 4] @
                [Writel MB_TX_LEN (of_nat n), Writel MB_TX_COMMIT 1, Readl MB_STATUS] \<and>
              k = (if ucast (kval (snd (last es))) AND (MB_ERROR OR HYPER_IO_MAILBOX_CLOSED) \<noteq> (0 :: u32)
                then - EIO else int n))))) s"
  using control_write_spec [OF assms(1) assms(2) [unfolded interruptible_def], of fuel n]
  unfolding write_post_def sent_def .

theorem control_write_commits_last_witness:
  "bridge_inv mailbox \<and> kevents (snd (run_state (control_write posted 1 5) mailbox)) \<noteq> kevents mailbox"
proof -
  obtain t where t: "run_state (control_write posted 1 5) mailbox = (Some 5, t)"
    using posted_write by (metis prod.collapse)
  show ?thesis
    using wp_runD [OF control_write_commits_last [OF mailbox_inv posted_interruptible] t] mailbox_inv t by auto
qed




end
