(* ===== verification/Supervisor.thy ===== *)
theory Supervisor
  imports Service "HOL-Library.Multiset"
begin

text \<open>
  \<open>service/hyper-io-supervisor.c\<close>: the process that starts one service per client and waits for them.
  Both sides of \<open>fork\<close> are modelled: an answer of zero continues in the child. The lemmas show that
  the supervisor reports success only when every service has ended cleanly, that it never waits for a
  service it should have stopped, and that a service accepts the arguments it is started with.
\<close>

section \<open>Starting the services\<close>

record supervisor = host +
  sp_children :: "int list"
  sp_live :: nat
  sp_failed :: bool

definition service_arguments :: "bool \<Rightarrow> hyper_client \<Rightarrow> string list" where
  "service_arguments present c = (let number = decimal (unat (c_id c)) in
     [''hyper-io-service'', ''/dev/hyper-memory-'' @ number,
      (if c_id c = 0 then ''owner'' else if present then client_wwpn (c_id c) else ''-''),
      ''/dev/hyper-io-control-'' @ number, ''/dev/hyper-io-notification-'' @ number, c_network c, c_mac c,
      ''/dev/hyper-io-notification-'' @ number @ ''-net'',
      decimal (unat (c_request_queues c)), decimal (unat (c_sg_prealloc c)),
      decimal (unat (rx_backlog_packets (c_net_resources c))),
      decimal (unat (tx_buffer_bytes (c_net_resources c)))])"

text \<open>The child: it becomes the service, or exits with 127.\<close>

definition run_child :: "env \<Rightarrow> hyper_client \<Rightarrow> (supervisor, int) state" where
  "run_child env c = do {
     present \<leftarrow> (if c_id c = 0 then State_Monad.return False
       else do {
         a \<leftarrow> call env (Access (''/dev/hyper-io-notification-'' @ decimal (unat (c_id c))));
         State_Monad.return (ret a = 0) });
     call env (Execl (service_arguments present c));
     State_Monad.return 127 }"

text \<open>The loop over the clients; \<open>Some\<close> is the exit code of a child.\<close>

primrec start_clients :: "env \<Rightarrow> nat \<Rightarrow> hyper_client list \<Rightarrow> (supervisor, int option) state" where
  "start_clients env i [] = State_Monad.return None"
| "start_clients env i (c # cs) = do {
     s \<leftarrow> State_Monad.get;
     if stopping s then State_Monad.return None
     else do {
       f \<leftarrow> call env Fork;
       if ret f < 0 then do {
         State_Monad.update (\<lambda>s. s\<lparr>sp_failed := True, stopping := True\<rparr>);
         State_Monad.return None }
       else if ret f = 0 then do { r \<leftarrow> run_child env c; State_Monad.return (Some r) }
       else do {
         State_Monad.update (\<lambda>s. s\<lparr>sp_children := (sp_children s)[i := ret f], sp_live := sp_live s + 1\<rparr>);
         start_clients env (Suc i) cs } } }"

section \<open>Waiting for them\<close>

definition stop_children :: "env \<Rightarrow> nat \<Rightarrow> (supervisor, unit) state" where
  "stop_children env n = do {
     s \<leftarrow> State_Monad.get;
     for_each (\<lambda>i. if sp_children s ! i \<noteq> 0
         then do { call env (Kill (sp_children s ! i)); State_Monad.return () }
         else State_Monad.return ()) [0..<n] }"

text \<open>The slot of a child that has ended is cleared: the first one with its process id.\<close>

definition forget_child :: "nat \<Rightarrow> int \<Rightarrow> (supervisor, unit) state" where
  "forget_child n pid = State_Monad.update (\<lambda>s.
     case List.find (\<lambda>i. sp_children s ! i = pid) [0..<n] of
       None \<Rightarrow> s
     | Some i \<Rightarrow> s\<lparr>sp_children := (sp_children s)[i := 0], sp_live := sp_live s - 1\<rparr>)"

text \<open>\<open>WIFEXITED(status)\<close> and \<open>WEXITSTATUS(status) == 0\<close>.\<close>

definition clean_exit :: "answer \<Rightarrow> bool" where
  "clean_exit a \<longleftrightarrow> out a 0 AND 0x7f = 0 \<and> drop_bit 8 (out a 0) AND 0xff = 0"

definition reap :: "nat \<Rightarrow> answer \<Rightarrow> (supervisor, unit) state" where
  "reap n a = do {
     forget_child n (ret a);
     (if \<not> clean_exit a
      then State_Monad.update (\<lambda>s. s\<lparr>sp_failed := True, stopping := True\<rparr>)
      else State_Monad.return ()) }"

primrec supervise :: "env \<Rightarrow> nat \<Rightarrow> nat \<Rightarrow> bool \<Rightarrow> (supervisor, int option) state" where
  "supervise env 0 n signalled = State_Monad.return None"
| "supervise env (Suc fuel) n signalled = do {
     s \<leftarrow> State_Monad.get;
     if sp_live s = 0 then State_Monad.return (Some (if sp_failed s then 1 else 0))
     else do {
       (if stopping s \<and> \<not> signalled then stop_children env n else State_Monad.return ());
       a \<leftarrow> call env Waitpid;
       if ret a < 0 then
         (if err a = EINTR then supervise env fuel n (signalled \<or> stopping s)
          else State_Monad.return (Some 1))
       else do {
         reap n a;
         supervise env fuel n (signalled \<or> stopping s) } } }"

definition supervisor_main :: "env \<Rightarrow> nat \<Rightarrow> string list \<Rightarrow> (supervisor, int option) state" where
  "supervisor_main env fuel argv =
     (if length argv \<noteq> 2 then State_Monad.return (Some 2)
      else do {
        clients \<leftarrow> hyper_clients_read env (argv ! 1);
        (case clients of
           None \<Rightarrow> State_Monad.return (Some 1)
         | Some cs \<Rightarrow> do {
             t \<leftarrow> call env Sigaction;
             i \<leftarrow> (if ret t \<noteq> 0 then State_Monad.return t else call env Sigaction);
             if ret i \<noteq> 0 then State_Monad.return (Some 1)
             else do {
               r \<leftarrow> start_clients env 0 cs;
               (case r of
                  Some r \<Rightarrow> State_Monad.return (Some r)
                | None \<Rightarrow> supervise env fuel (length cs) False) } }) })"

definition initial_supervisor :: supervisor where
  "initial_supervisor = \<lparr>events = [], stopping = False, sp_children = replicate HYPER_BLOCK_CLIENTS 0,
     sp_live = 0, sp_failed = False\<rparr>"


section \<open>The children of a run\<close>

text \<open>
  What a history of the supervisor says: the services running, those told to stop, whether a stop has
  been requested or is due to a failure, whether every service so far started and ended cleanly, and
  whether no wait was made for a service that should have been told to stop.
\<close>

record census =
  cs_running :: "int multiset"
  cs_told :: "int set"
  cs_stop :: bool
  cs_clean :: bool
  cs_orderly :: bool

fun census_step :: "census \<Rightarrow> event \<Rightarrow> census" where
  "census_step M (Fork, a) = M\<lparr>cs_stop := cs_stop M \<or> sig a \<or> ret a < 0, cs_clean := cs_clean M \<and> ret a \<ge> 0,
     cs_running := (if ret a > 0 then add_mset (ret a) (cs_running M) else cs_running M)\<rparr>"
| "census_step M (Kill p, a) = M\<lparr>cs_stop := cs_stop M \<or> sig a, cs_told := insert p (cs_told M)\<rparr>"
| "census_step M (Waitpid, a) = M\<lparr>cs_orderly := cs_orderly M \<and> (cs_stop M \<longrightarrow> set_mset (cs_running M) \<subseteq> cs_told M),
     cs_running := (if ret a > 0 then cs_running M - {#ret a#} else cs_running M),
     cs_stop := cs_stop M \<or> sig a \<or> (ret a > 0 \<and> \<not> clean_exit a),
     cs_clean := cs_clean M \<and> (ret a > 0 \<longrightarrow> clean_exit a)\<rparr>"
| "census_step M (c, a) = M\<lparr>cs_stop := cs_stop M \<or> sig a\<rparr>"

definition empty_census :: census where
  "empty_census = \<lparr>cs_running = {#}, cs_told = {}, cs_stop = False, cs_clean = True, cs_orderly = True\<rparr>"

definition census_of :: "event list \<Rightarrow> census" where
  "census_of es = foldl census_step empty_census es"

lemma census_append [simp]: "census_of (es @ fs) = foldl census_step (census_of es) fs"
  by (simp add: census_of_def)

text \<open>\<open>waitpid(-1, ..)\<close> without options answers with an error or a running child of the caller.\<close>

definition waits_for_children :: "env \<Rightarrow> bool" where
  "waits_for_children env \<longleftrightarrow>
     (\<forall>es. ret (env es Waitpid) \<ge> 0 \<longrightarrow> ret (env es Waitpid) \<in># cs_running (census_of es))"

text \<open>The slots of the supervisor hold the running services, the first \<open>k\<close> of them at most.\<close>

definition sp_inv :: "nat \<Rightarrow> supervisor \<Rightarrow> bool" where
  "sp_inv k s \<longleftrightarrow> (let M = census_of (events s) in
     length (sp_children s) = HYPER_BLOCK_CLIENTS \<and> (\<forall>p\<in>set (sp_children s). p \<ge> 0) \<and>
     mset (filter (\<lambda>p. p \<noteq> 0) (sp_children s)) = cs_running M \<and>
     (\<forall>j. k \<le> j \<longrightarrow> j < HYPER_BLOCK_CLIENTS \<longrightarrow> sp_children s ! j = 0) \<and> sp_live s = size (cs_running M) \<and>
     stopping s = cs_stop M \<and> sp_failed s = (\<not> cs_clean M) \<and> cs_orderly M)"

lemma supervisor_called [simp]:
  "sp_children (called env c s) = sp_children s" "sp_live (called env c s) = sp_live s"
  "sp_failed (called env c s) = sp_failed s" "stopping (called env c s) = (stopping s \<or> sig (env (events s) c))"
  by (simp_all add: called_def)

fun process_call :: "syscall \<Rightarrow> bool" where
  "process_call Fork = True"
| "process_call (Kill p) = True"
| "process_call Waitpid = True"
| "process_call c = False"

lemma census_other [simp]: "\<not> process_call c \<Longrightarrow> census_step M (c, a) = M\<lparr>cs_stop := cs_stop M \<or> sig a\<rparr>"
  by (cases c) simp_all

lemma sp_inv_called [simp]: "\<not> process_call c \<Longrightarrow> sp_inv k s \<Longrightarrow> sp_inv k (called env c s)"
  by (simp add: sp_inv_def Let_def)

lemma filter_fill: "i < length xs \<Longrightarrow> \<not> P (xs ! i) \<Longrightarrow> P v \<Longrightarrow> mset (filter P (xs[i := v])) = add_mset v (mset (filter P xs))"
proof (induction xs arbitrary: i)
  case (Cons x xs)
  then show ?case by (cases i) auto
qed simp

lemma filter_clear:
  "i < length xs \<Longrightarrow> P (xs ! i) \<Longrightarrow> \<not> P v \<Longrightarrow> mset (filter P (xs[i := v])) = mset (filter P xs) - {#xs ! i#}"
proof (induction xs arbitrary: i)
  case (Cons x xs)
  then show ?case
  proof (cases i)
    case (Suc j)
    then have "xs ! j \<in># mset (filter P xs)" using Cons.prems by simp
    then show ?thesis using Suc Cons by simp
  qed simp
qed simp

text \<open>Starting a service, and reaping one.\<close>

lemma sp_inv_start:
  assumes "sp_inv k s" and "k < HYPER_BLOCK_CLIENTS" and "ret (env (events s) Fork) > 0"
  shows "sp_inv (Suc k) (called env Fork s
    \<lparr>sp_children := (sp_children s)[k := ret (env (events s) Fork)], sp_live := sp_live s + 1\<rparr>)"
proof -
  have "sp_children s ! k = 0" "k < length (sp_children s)" using assms(1,2) by (simp_all add: sp_inv_def Let_def)
  then have m: "mset (filter (\<lambda>p. p \<noteq> 0) ((sp_children s)[k := ret (env (events s) Fork)])) =
      add_mset (ret (env (events s) Fork)) (mset (filter (\<lambda>p. p \<noteq> 0) (sp_children s)))"
    using assms(3) by (intro filter_fill) simp_all
  show ?thesis
    using assms m by (auto simp: sp_inv_def Let_def dest!: subsetD [OF set_update_subset_insert])
qed

lemma sp_inv_fork_failed:
  "sp_inv k s \<Longrightarrow> ret (env (events s) Fork) < 0 \<Longrightarrow>
     sp_inv k (called env Fork s\<lparr>sp_failed := True, stopping := True\<rparr>)"
  by (simp add: sp_inv_def Let_def)

lemma child_slot:
  assumes "sp_inv k s" and "k \<le> HYPER_BLOCK_CLIENTS" and "pid \<in># cs_running (census_of (events s))"
  obtains i where "List.find (\<lambda>i. sp_children s ! i = pid) [0..<k] = Some i" and "i < k" and "sp_children s ! i = pid"
    and "pid > 0"
proof -
  have "pid \<in># mset (filter (\<lambda>p. p \<noteq> 0) (sp_children s))" using assms(1,3) by (simp add: sp_inv_def Let_def)
  then have "pid \<in> set (sp_children s)" "pid \<noteq> 0" by simp_all
  then obtain j where j: "j < length (sp_children s)" "sp_children s ! j = pid" by (auto simp: in_set_conv_nth)
  with \<open>pid \<noteq> 0\<close> assms(1) have "j < k" by (auto simp: sp_inv_def Let_def not_less [symmetric])
  with j(2) obtain i where i: "List.find (\<lambda>i. sp_children s ! i = pid) [0..<k] = Some i"
    by (cases "List.find (\<lambda>i. sp_children s ! i = pid) [0..<k]") (auto simp: find_None_iff)
  moreover have "i < k" "sp_children s ! i = pid" using i by (auto simp: find_Some_iff)
  moreover have "pid > 0" using \<open>pid \<in> set (sp_children s)\<close> \<open>pid \<noteq> 0\<close> assms(1) by (fastforce simp: sp_inv_def Let_def)
  ultimately show thesis using that by blast
qed


definition told :: "supervisor \<Rightarrow> bool" where
  "told s \<longleftrightarrow> set_mset (cs_running (census_of (events s))) \<subseteq> cs_told (census_of (events s))"

definition interrupts :: "event list \<Rightarrow> nat" where
  "interrupts es = length (filter (\<lambda>e. fst e = Waitpid \<and> ret (snd e) < 0 \<and> err (snd e) = EINTR) es)"

text \<open>One wait, with everyone to be stopped already told.\<close>

lemma reap_spec:
  assumes inv: "sp_inv k s" and k: "k \<le> HYPER_BLOCK_CLIENTS" and a: "a = env (events s) Waitpid" "ret a \<ge> 0"
    and child: "ret a \<in># cs_running (census_of (events s))" and stop: "stopping s \<longrightarrow> told s"
  shows "wp (reap k a) (\<lambda>_ t. sp_inv k t \<and> sp_live s = Suc (sp_live t) \<and> (told s \<longrightarrow> told t) \<and>
    interrupts (events t) = interrupts (events s)) (called env Waitpid s)"
proof -
  obtain i where i: "List.find (\<lambda>i. sp_children s ! i = ret a) [0..<k] = Some i" "i < k" "sp_children s ! i = ret a"
    and pos: "ret a > 0"
    using child_slot [OF inv k child] .
  have len: "i < length (sp_children s)" using inv i(2) k by (simp add: sp_inv_def Let_def)
  have m: "mset (filter (\<lambda>p. p \<noteq> 0) ((sp_children s)[i := 0])) =
      mset (filter (\<lambda>p. p \<noteq> 0) (sp_children s)) - {#ret a#}"
    using filter_clear [of i "sp_children s" "\<lambda>p. p \<noteq> 0" 0] len i(3) pos by simp
  have live: "sp_live s = Suc (size (cs_running (census_of (events s)) - {#ret a#}))"
    using inv child by (simp add: sp_inv_def Let_def size_Diff_singleton)
      (metis Suc_pred size_eq_0_iff_empty gr0I empty_iff set_mset_empty)
  have tell: "set_mset (cs_running (census_of (events s)) - {#ret a#}) \<subseteq> cs_told (census_of (events s))" if "told s"
    using that by (auto simp: told_def dest: in_diffD)
  show ?thesis
    unfolding reap_def forget_child_def
    using inv i m pos live stop tell len
    by (auto simp: wp_rules sp_inv_def Let_def told_def a(1) [symmetric] interrupts_def nth_list_update
        dest!: subsetD [OF set_update_subset_insert])
qed

lemma sp_inv_interrupted:
  assumes "sp_inv k s" and "ret (env (events s) Waitpid) < 0" and "stopping s \<longrightarrow> told s"
  shows "sp_inv k (called env Waitpid s) \<and> (told s \<longrightarrow> told (called env Waitpid s))"
  using assms by (simp add: sp_inv_def Let_def told_def)

lemma stop_children_spec:
  assumes "sp_inv k s" and "k \<le> HYPER_BLOCK_CLIENTS"
  shows "wp (stop_children env k) (\<lambda>_ t. sp_inv k t \<and> told t \<and> sp_live t = sp_live s \<and> stopping t = (stopping t \<or> stopping s) \<and>
    interrupts (events t) = interrupts (events s)) s"
proof -
  define J where "J i t \<longleftrightarrow> sp_inv k t \<and> sp_children t = sp_children s \<and> (stopping s \<longrightarrow> stopping t) \<and>
    interrupts (events t) = interrupts (events s) \<and>
    cs_running (census_of (events t)) = cs_running (census_of (events s)) \<and>
    (\<forall>j<i. sp_children s ! j \<noteq> 0 \<longrightarrow> sp_children s ! j \<in> cs_told (census_of (events t)))" for i t
  have "wp (for_each (\<lambda>i. if sp_children s ! i \<noteq> 0
         then do { call env (Kill (sp_children s ! i)); State_Monad.return () }
         else State_Monad.return ()) [0..<k]) (\<lambda>_. J k) s"
  proof (rule wp_for_each_upt)
    fix i t assume i: "i < k" and J: "J i t"
    have "J (Suc i) (called env (Kill (sp_children s ! i)) t)"
      using J by (auto simp: J_def sp_inv_def Let_def interrupts_def less_Suc_eq)
    moreover have "J (Suc i) t" if "sp_children s ! i = 0"
      using J that by (auto simp: J_def less_Suc_eq)
    ultimately show "wp (if sp_children s ! i \<noteq> 0
         then do { call env (Kill (sp_children s ! i)); State_Monad.return () }
         else State_Monad.return ()) (\<lambda>_. J (Suc i)) t"
      by (simp add: wp_rules)
  qed (use assms in \<open>simp_all add: J_def\<close>)
  then show ?thesis
    unfolding stop_children_def wp_bind wp_get
  proof (rule wp_mono)
    fix x :: unit and t assume J: "J k t"
    have "told t"
      unfolding told_def
    proof
      fix p assume "p \<in># cs_running (census_of (events t))"
      then have "p \<in># cs_running (census_of (events s))" using J by (simp add: J_def)
      then obtain i where "i < k" "sp_children s ! i = p" "p > 0"
        using child_slot [OF assms] by metis
      then show "p \<in> cs_told (census_of (events t))" using J by (auto simp: J_def)
    qed
    then show "sp_inv k t \<and> told t \<and> sp_live t = sp_live s \<and> stopping t = (stopping t \<or> stopping s) \<and>
        interrupts (events t) = interrupts (events s)"
      using J assms(1) by (auto simp: J_def sp_inv_def Let_def)
  qed
qed


text \<open>
  The waiting loop: never an unordered wait, and a zero status only with every service gone and
  clean. With a bound \<open>bound\<close> on interrupted waits, \<open>live + bound\<close> iterations end it.
\<close>

definition few_interrupts :: "env \<Rightarrow> nat \<Rightarrow> bool" where
  "few_interrupts env bound \<longleftrightarrow>
     (\<forall>es. bound \<le> interrupts es \<longrightarrow> ret (env es Waitpid) < 0 \<longrightarrow> err (env es Waitpid) \<noteq> EINTR)"

definition supervised :: "int option \<Rightarrow> supervisor \<Rightarrow> bool" where
  "supervised r t \<longleftrightarrow> cs_orderly (census_of (events t)) \<and>
     (r = Some 0 \<longrightarrow> cs_clean (census_of (events t)) \<and> cs_running (census_of (events t)) = {#})"

definition wait_again :: "env \<Rightarrow> nat \<Rightarrow> bool \<Rightarrow> supervisor \<Rightarrow> bool" where
  "wait_again env k signalled s \<longleftrightarrow> sp_inv k s \<and> (signalled \<longrightarrow> told s)"

definition round_prologue :: "env \<Rightarrow> nat \<Rightarrow> bool \<Rightarrow> (supervisor, unit) state" where
  "round_prologue env n stop = (if stop then stop_children env n else State_Monad.return ())"

lemma round_prologue_spec:
  assumes "sp_inv k s" and "signalled \<longrightarrow> told s" and "k \<le> HYPER_BLOCK_CLIENTS"
  shows "wp (round_prologue env k (stopping s \<and> \<not> signalled)) (\<lambda>_ t. sp_inv k t \<and>
    (signalled \<or> stopping s \<longrightarrow> told t) \<and> (stopping t \<longrightarrow> signalled \<or> stopping s) \<and> sp_live t = sp_live s \<and>
    interrupts (events t) = interrupts (events s)) s"
  using assms stop_children_spec [OF assms(1,3), of env]
  by (auto simp: round_prologue_def wp_rules elim!: wp_mono)


lemma supervise_again:
  "supervise env (Suc fuel) n signalled = do {
     s \<leftarrow> State_Monad.get;
     if sp_live s = 0 then State_Monad.return (Some (if sp_failed s then 1 else 0))
     else do {
       round_prologue env n (stopping s \<and> \<not> signalled);
       a \<leftarrow> call env Waitpid;
       if ret a < 0 then
         (if err a = EINTR then supervise env fuel n (signalled \<or> stopping s)
          else State_Monad.return (Some 1))
       else do {
         reap n a;
         supervise env fuel n (signalled \<or> stopping s) } } }"
  unfolding round_prologue_def by (rule supervise.simps(2))

definition ends_within :: "env \<Rightarrow> nat \<Rightarrow> nat \<Rightarrow> supervisor \<Rightarrow> bool" where
  "ends_within env bound fuel s \<longleftrightarrow> few_interrupts env bound \<and> sp_live s + (bound - interrupts (events s)) < fuel"

lemma supervise_spec:
  assumes env: "waits_for_children env" and k: "k \<le> HYPER_BLOCK_CLIENTS"
  shows "sp_inv k s \<Longrightarrow> signalled \<longrightarrow> told s \<Longrightarrow> wp (supervise env fuel k signalled)
    (\<lambda>r t. supervised r t \<and> (ends_within env bound fuel s \<longrightarrow> r \<noteq> None)) s"
proof (induction fuel arbitrary: s signalled)
  case 0
  then show ?case by (simp add: wp_rules supervised_def sp_inv_def Let_def ends_within_def)
next
  case (Suc fuel)
  show ?case
  proof (cases "sp_live s = 0")
    case True
    then show ?thesis
      using Suc.prems(1) by (simp add: supervise_again wp_rules supervised_def sp_inv_def Let_def)
  next
    case live: False
    define again where "again = (signalled \<or> stopping s)"
    have "wp (round_prologue env k (stopping s \<and> \<not> signalled)) (\<lambda>_. wp (do {
        a \<leftarrow> call env Waitpid;
        if ret a < 0 then (if err a = EINTR then supervise env fuel k again else State_Monad.return (Some 1))
        else do { reap k a; supervise env fuel k again } })
        (\<lambda>r t. supervised r t \<and> (ends_within env bound (Suc fuel) s \<longrightarrow> r \<noteq> None))) s"
    proof (rule wp_mono [OF round_prologue_spec [OF Suc.prems k]], elim conjE, fold again_def)
      fix t assume inv: "sp_inv k t" and told: "again \<longrightarrow> told t" and stop: "stopping t \<longrightarrow> again"
        and live_t: "sp_live t = sp_live s" and ints: "interrupts (events t) = interrupts (events s)"
      define a where "a = env (events t) Waitpid"
      let ?u = "called env Waitpid t"
      let ?Q = "\<lambda>r u. supervised r u \<and> (ends_within env bound (Suc fuel) s \<longrightarrow> r \<noteq> None)"
      have interrupted: "wp (supervise env fuel k again) ?Q ?u" if neg: "ret a < 0" "err a = EINTR"
      proof -
        have "sp_inv k ?u" "again \<longrightarrow> told ?u"
          using sp_inv_interrupted [OF inv, of env] told stop neg(1) by (auto simp: a_def)
        moreover have "interrupts (events ?u) = Suc (interrupts (events t))"
          using neg by (simp add: interrupts_def a_def)
        moreover have "few_interrupts env bound \<Longrightarrow> interrupts (events t) < bound"
          using neg by (auto simp: few_interrupts_def a_def not_le [symmetric])
        ultimately have next_round: "sp_inv k ?u" "again \<longrightarrow> told ?u"
          "ends_within env bound (Suc fuel) s \<Longrightarrow> ends_within env bound fuel ?u"
          using live_t ints by (auto simp: ends_within_def)
        then show ?thesis by (rule_tac wp_mono [OF Suc.IH [OF next_round(1,2)]]) blast
      qed
      have failed: "supervised (Some 1) ?u" if "ret a < 0"
        using sp_inv_interrupted [OF inv, of env] told stop that by (auto simp: a_def sp_inv_def Let_def supervised_def)
      have reaped: "wp (reap k a) (\<lambda>_. wp (supervise env fuel k again) ?Q) ?u" if pos: "ret a \<ge> 0"
      proof (rule wp_mono [OF reap_spec [where env = env and s = t, OF inv k a_def pos]])
        show "ret a \<in># cs_running (census_of (events t))" using env pos by (simp add: waits_for_children_def a_def)
        show "stopping t \<longrightarrow> told t" using told stop by blast
        fix x :: unit and u
        assume u: "sp_inv k u \<and> sp_live t = Suc (sp_live u) \<and> (told t \<longrightarrow> told u) \<and>
          interrupts (events u) = interrupts (events t)"
        then have next_round: "sp_inv k u" "again \<longrightarrow> told u" using told by simp_all
        have "ends_within env bound (Suc fuel) s \<Longrightarrow> ends_within env bound fuel u"
          using u live_t ints by (simp add: ends_within_def)
        then show "wp (supervise env fuel k again) ?Q u"
          by (rule_tac wp_mono [OF Suc.IH [OF next_round]]) blast
      qed
      show "wp (do { a \<leftarrow> call env Waitpid;
        if ret a < 0 then (if err a = EINTR then supervise env fuel k again else State_Monad.return (Some 1))
        else do { reap k a; supervise env fuel k again } }) ?Q t"
        using interrupted failed reaped by (simp add: wp_rules a_def [symmetric])
    qed
    then show ?thesis
      unfolding again_def by (simp only: supervise_again wp_bind wp_get wp_if live if_False)
  qed
qed


section \<open>The whole run\<close>

lemma sp_inv_mono: "sp_inv k s \<Longrightarrow> k \<le> l \<Longrightarrow> sp_inv l s"
  by (simp add: sp_inv_def Let_def)

lemma sp_inv_forked: "sp_inv k s \<Longrightarrow> ret (env (events s) Fork) = 0 \<Longrightarrow> sp_inv k (called env Fork s)"
  by (simp add: sp_inv_def Let_def)

lemma sp_inv_live: "sp_inv k s \<Longrightarrow> sp_live s \<le> HYPER_BLOCK_CLIENTS"
proof -
  assume s: "sp_inv k s"
  then have "sp_live s = length (filter (\<lambda>p. p \<noteq> 0) (sp_children s))"
    by (simp add: sp_inv_def Let_def flip: size_mset)
  also have "\<dots> \<le> length (sp_children s)" by (rule length_filter_le)
  also have "\<dots> = HYPER_BLOCK_CLIENTS" using s by (simp add: sp_inv_def Let_def)
  finally show ?thesis .
qed

lemma run_child_spec: "sp_inv k s \<Longrightarrow> wp (run_child env c) (\<lambda>r t. sp_inv k t \<and> r = 127) s"
  by (simp add: run_child_def wp_rules)

lemma start_clients_spec:
  "sp_inv i s \<Longrightarrow> i + length cs \<le> HYPER_BLOCK_CLIENTS \<Longrightarrow>
     wp (start_clients env i cs) (\<lambda>r t. sp_inv (i + length cs) t \<and> (r = None \<or> r = Some 127)) s"
proof (induction cs arbitrary: i s)
  case Nil
  then show ?case by (simp add: wp_rules)
next
  case (Cons c cs)
  have i: "i < HYPER_BLOCK_CLIENTS" "i \<le> i + length (c # cs)" using Cons.prems(2) by simp_all
  define f where "f = env (events s) Fork"
  let ?Q = "\<lambda>r t. sp_inv (i + length (c # cs)) t \<and> (r = None \<or> r = Some 127)"
  have failed: "ret f < 0 \<Longrightarrow> ?Q None (called env Fork s\<lparr>sp_failed := True, stopping := True\<rparr>)"
    using sp_inv_mono [OF sp_inv_fork_failed i(2)] Cons.prems(1) by (simp add: f_def)
  have child: "ret f = 0 \<Longrightarrow> wp (run_child env c) (\<lambda>r. ?Q (Some r)) (called env Fork s)"
    using sp_inv_mono [OF sp_inv_forked [OF Cons.prems(1)] i(2)]
    by (auto simp: f_def intro: wp_mono [OF run_child_spec])
  have started: "0 < ret f \<Longrightarrow> wp (start_clients env (Suc i) cs) ?Q
      (called env Fork s\<lparr>sp_children := (sp_children s)[i := ret f], sp_live := sp_live s + 1\<rparr>)"
    using Cons.IH [OF sp_inv_start [OF Cons.prems(1) i(1)]] Cons.prems(2) by (simp add: f_def)
  show ?case
    using failed child started sp_inv_mono [OF Cons.prems(1) i(2)]
    by (simp add: wp_rules f_def [symmetric])
qed

lemma clients_read_spec:
  "sp_inv k s \<Longrightarrow> wp (hyper_clients_read env path)
     (\<lambda>r t. sp_inv k t \<and> (\<forall>cs. r = Some cs \<longrightarrow> length cs \<le> HYPER_BLOCK_CLIENTS)) s"
  unfolding hyper_clients_read_def
  by (auto simp: wp_rules inventory_def dest!: clients_of_file_inventory)

lemma sp_inv_initial: "sp_inv 0 initial_supervisor"
  by (simp add: sp_inv_def initial_supervisor_def Let_def census_of_def empty_census_def)

lemma run_clients_spec:
  assumes env: "waits_for_children env" and s: "sp_inv 0 s" and cs: "length cs \<le> HYPER_BLOCK_CLIENTS"
  shows "wp (do { r \<leftarrow> start_clients env 0 cs;
      (case r of Some r \<Rightarrow> State_Monad.return (Some r) | None \<Rightarrow> supervise env fuel (length cs) False) })
    (\<lambda>r t. supervised r t \<and> (few_interrupts env bound \<and> HYPER_BLOCK_CLIENTS + bound < fuel \<longrightarrow> r \<noteq> None)) s"
proof -
  have "wp (start_clients env 0 cs) (\<lambda>r t. sp_inv (0 + length cs) t \<and> (r = None \<or> r = Some 127)) s"
    using start_clients_spec [OF s, of cs] cs by simp
  then show ?thesis
    unfolding wp_bind
  proof (rule wp_mono)
    fix r :: "int option" and t assume t: "sp_inv (0 + length cs) t \<and> (r = None \<or> r = Some 127)"
    have "sp_live t \<le> HYPER_BLOCK_CLIENTS" using t sp_inv_live by blast
    then have "few_interrupts env bound \<and> HYPER_BLOCK_CLIENTS + bound < fuel \<Longrightarrow> ends_within env bound fuel t"
      using diff_le_self [of bound "interrupts (events t)"] by (auto simp: ends_within_def)
    then have "wp (supervise env fuel (length cs) False)
        (\<lambda>r u. supervised r u \<and> (few_interrupts env bound \<and> HYPER_BLOCK_CLIENTS + bound < fuel \<longrightarrow> r \<noteq> None)) t"
      using t by (intro wp_mono [OF supervise_spec [OF env cs, where bound = bound]]) (simp, simp, blast)
    moreover have "supervised (Some 127) t" using t by (simp add: supervised_def sp_inv_def Let_def)
    ultimately show "wp (case r of Some r \<Rightarrow> State_Monad.return (Some r)
        | None \<Rightarrow> supervise env fuel (length cs) False)
      (\<lambda>r t. supervised r t \<and> (few_interrupts env bound \<and> HYPER_BLOCK_CLIENTS + bound < fuel \<longrightarrow> r \<noteq> None)) t"
      using t by (auto simp: wp_rules)
  qed
qed

lemma supervisor_main_spec:
  assumes env: "waits_for_children env"
  shows "wp (supervisor_main env fuel argv) (\<lambda>r t. supervised r t \<and>
    (few_interrupts env bound \<and> HYPER_BLOCK_CLIENTS + bound < fuel \<longrightarrow> r \<noteq> None)) initial_supervisor"
proof -
  let ?Q = "\<lambda>r t. supervised r t \<and> (few_interrupts env bound \<and> HYPER_BLOCK_CLIENTS + bound < fuel \<longrightarrow> r \<noteq> None)"
  have quit: "?Q (Some x) t" if "sp_inv 0 t" "x \<noteq> 0" for x t
    using that by (simp add: supervised_def sp_inv_def Let_def)
  have "wp (hyper_clients_read env path) (\<lambda>clients :: hyper_client list option. wp (case clients of None \<Rightarrow> State_Monad.return (Some 1)
         | Some cs \<Rightarrow> do {
             t \<leftarrow> call env Sigaction;
             i \<leftarrow> (if ret t \<noteq> 0 then State_Monad.return t else call env Sigaction);
             if ret i \<noteq> 0 then State_Monad.return (Some 1)
             else do {
               r \<leftarrow> start_clients env 0 cs;
               (case r of
                  Some r \<Rightarrow> State_Monad.return (Some r)
                | None \<Rightarrow> supervise env fuel (length cs) False) } }) ?Q) initial_supervisor" for path
  proof (rule wp_mono [OF clients_read_spec [OF sp_inv_initial]], elim conjE)
    fix clients :: "hyper_client list option" and t assume t: "sp_inv 0 t" and cs: "\<forall>cs. clients = Some cs \<longrightarrow> length cs \<le> HYPER_BLOCK_CLIENTS"
    have run: "wp (do { r \<leftarrow> start_clients env 0 cs;
        (case r of Some r \<Rightarrow> State_Monad.return (Some r) | None \<Rightarrow> supervise env fuel (length cs) False) }) ?Q
        (called env Sigaction (called env Sigaction t))" if "clients = Some cs" for cs
      using run_clients_spec [OF env] t cs that by simp
    show "wp (case clients of None \<Rightarrow> State_Monad.return (Some 1)
         | Some cs \<Rightarrow> do {
             t \<leftarrow> call env Sigaction;
             i \<leftarrow> (if ret t \<noteq> 0 then State_Monad.return t else call env Sigaction);
             if ret i \<noteq> 0 then State_Monad.return (Some 1)
             else do {
               r \<leftarrow> start_clients env 0 cs;
               (case r of
                  Some r \<Rightarrow> State_Monad.return (Some r)
                | None \<Rightarrow> supervise env fuel (length cs) False) } }) ?Q t"
      using quit [of t 1] quit [of "called env Sigaction t" 1] quit [of "called env Sigaction (called env Sigaction t)" 1]
        t run
      by (cases clients) (simp_all add: wp_call wp_return wp_if wp_bind [of "call env c" for c] wp_bind [of "if b then m else n" for b m n])
  qed
  moreover have "?Q (Some 2) initial_supervisor" using quit [OF sp_inv_initial] by simp
  ultimately show ?thesis unfolding supervisor_main_def by (simp add: wp_if wp_bind wp_return)
qed


section \<open>What a service is started with\<close>

lemma length_hex_digits: "length (hex_digits n v) = n"
  by (induction n arbitrary: v) simp_all

lemma u32_u64_roundtrip: "ucast (ucast (x :: u32) :: u64) = x"
  by (simp add: unsigned_ucast_eq take_bit_word_eq_self)

lemma strtoul_u32: "strtoul (decimal (unat (x :: u32))) = (ucast x, [])"
proof -
  have "unat x < 2 ^ 64" using u32_bound [of x] by simp
  then show ?thesis by (simp add: strtoul_decimal)
qed

lemma scsi_arguments_printed:
  assumes "hyper_scsi_resources_valid queues sg" and "argv ! 8 = decimal (unat queues)"
    and "argv ! 9 = decimal (unat sg)" and "length argv = 12"
  shows "scsi_arguments argv = Some \<lparr>request_queues = queues, sg_prealloc = sg\<rparr>"
proof -
  have "unat queues \<le> 4" "unat sg \<le> 2048"
    using assms(1) by (auto simp: hyper_scsi_resources_valid_def word_le_nat_alt Let_def)
  then show ?thesis
    using assms by (simp add: scsi_arguments_def strtoul_u32 u32_u64_roundtrip word_less_nat_alt)
qed

text \<open>A service accepts the arguments of its client, as the owner of the disks or with a parsable MAC.\<close>

lemma service_arguments_nth:
  "length (service_arguments present c) = 12" "service_arguments present c ! 1 = ''/dev/hyper-memory-'' @ decimal (unat (c_id c))"
  "service_arguments present c ! 2 = (if c_id c = 0 then ''owner'' else if present then client_wwpn (c_id c) else ''-'')"
  "service_arguments present c ! 3 = ''/dev/hyper-io-control-'' @ decimal (unat (c_id c))"
  "service_arguments present c ! 5 = c_network c" "service_arguments present c ! 6 = c_mac c"
  "service_arguments present c ! 8 = decimal (unat (c_request_queues c))"
  "service_arguments present c ! 9 = decimal (unat (c_sg_prealloc c))"
  "service_arguments present c ! 10 = decimal (unat (rx_backlog_packets (c_net_resources c)))"
  "service_arguments present c ! 11 = decimal (unat (tx_buffer_bytes (c_net_resources c)))"
  by (simp_all add: service_arguments_def Let_def)

lemma service_arguments_parsed:
  assumes "client_ok c"
  shows "run_state (parse_arguments (service_arguments present c)) b = (None,
    b\<lparr>managed := True, scsi := \<lparr>request_queues = c_request_queues c, sg_prealloc = c_sg_prealloc c\<rparr>,
      net_resources := c_net_resources c, memory_path := ''/dev/hyper-memory-'' @ decimal (unat (c_id c))\<rparr>)"
proof -
  note nth = service_arguments_nth [of present c]
  have "scsi_arguments (service_arguments present c) =
      Some \<lparr>request_queues = c_request_queues c, sg_prealloc = c_sg_prealloc c\<rparr>"
    using assms by (intro scsi_arguments_printed) (simp_all add: client_ok_def nth)
  moreover have "net_arguments (service_arguments present c) = Some (c_net_resources c)"
    using assms by (simp add: net_arguments_def nth client_ok_def network_resources_parse_decimal)
  moreover have "length (service_arguments present c ! 2) < WWPN_SIZE"
    by (simp add: nth client_wwpn_def length_hex_digits)
  ultimately show ?thesis by (simp add: parse_arguments_def nth(1) nth(2) [unfolded One_nat_def] State_Monad.update_def)
qed

lemma service_arguments_owner: "is_owner (service_arguments present c) \<longleftrightarrow> c_id c = 0"
  by (simp add: is_owner_def service_arguments_nth client_wwpn_def)

lemma decimal_0: "decimal 0 = ''0''"
  by code_simp

lemma service_arguments_network:
  assumes "client_ok c"
  shows "c_id c = 0 \<Longrightarrow> service_arguments present c ! 3 = ''/dev/hyper-io-control-0'' \<and>
      service_arguments present c ! 5 = ''-''"
    and "service_arguments present c ! 5 \<noteq> ''-'' \<Longrightarrow> hyper_mac_parse (service_arguments present c ! 6) \<noteq> None"
  using assms by (auto simp: service_arguments_nth client_ok_def networked_def decimal_0
      split: if_splits)

end
