(* ===== verification/Network_Setup.thy ===== *)
theory Network_Setup
  imports Network Config "HOL-Library.Sublist"
begin

text \<open>
  \<open>service/hyper-networks.c\<close>: the one-shot program that builds the bridges of the network inventory
  before any service starts. A run first checks every entry, then makes the link changes of every entry
  in order. The lemmas show that nothing is changed before the whole inventory has passed, that the
  changes made are always a prefix of the plan of the inventory, and all of it when the status is zero.
\<close>

section \<open>The program\<close>

definition interface_up :: "env \<Rightarrow> int \<Rightarrow> string \<Rightarrow> (host, int) state" where
  "interface_up env fd name = do {
     g \<leftarrow> call env (Ioctl fd (SIOCGIFFLAGS name));
     if ret g \<noteq> 0 then State_Monad.return (- 1)
     else do {
       u \<leftarrow> call env (Ioctl fd (SIOCSIFFLAGS name (out g 0 OR IFF_UP)));
       State_Monad.return (ret u) } }"

text \<open>The condition of the first loop, and its body; \<open>Some\<close> ends the program.\<close>

definition network_absent :: "env \<Rightarrow> int \<Rightarrow> hyper_network \<Rightarrow> (host, bool) state" where
  "network_absent env fd n = do {
     u \<leftarrow> call env (If_nametoindex (nw_uplink n));
     if ret u = 0 then State_Monad.return False
     else do {
       b \<leftarrow> call env (If_nametoindex (nw_bridge n));
       if ret b \<noteq> 0 then State_Monad.return False
       else do {
         m \<leftarrow> call env (Ioctl fd (SIOCGIFMTU (nw_uplink n)));
         State_Monad.return (ret m = 0 \<and> out m 0 = 1500) } } }"

definition give_up :: "env \<Rightarrow> int \<Rightarrow> bool \<Rightarrow> (host, int option) state" where
  "give_up env fd ok =
     (if ok then State_Monad.return None else do { call env (Close fd); State_Monad.return (Some 1) })"

definition validate_network :: "env \<Rightarrow> int \<Rightarrow> hyper_network \<Rightarrow> (host, int option) state" where
  "validate_network env fd n = do { ok \<leftarrow> network_absent env fd n; give_up env fd ok }"

text \<open>The condition of the second loop, and its body.\<close>

definition bridge_created :: "env \<Rightarrow> int \<Rightarrow> hyper_network \<Rightarrow> (host, bool) state" where
  "bridge_created env fd n = do {
     u \<leftarrow> call env (If_nametoindex (nw_uplink n));
     b \<leftarrow> call env (Ioctl fd (SIOCBRADDBR (nw_bridge n)));
     if ret b \<noteq> 0 then State_Monad.return False
     else do {
       p \<leftarrow> call env (Ioctl fd (SIOCBRADDIF (nw_bridge n) (ret u)));
       if ret p \<noteq> 0 then State_Monad.return False
       else do {
         x \<leftarrow> interface_up env fd (nw_uplink n);
         if x \<noteq> 0 then State_Monad.return False
         else do {
           y \<leftarrow> interface_up env fd (nw_bridge n);
           State_Monad.return (y = 0) } } } }"

definition create_network :: "env \<Rightarrow> int \<Rightarrow> hyper_network \<Rightarrow> (host, int option) state" where
  "create_network env fd n = do { ok \<leftarrow> bridge_created env fd n; give_up env fd ok }"

definition setup_networks :: "env \<Rightarrow> int \<Rightarrow> hyper_network list \<Rightarrow> (host, int) state" where
  "setup_networks env fd ns = do {
     v \<leftarrow> for_return (\<lambda>i. validate_network env fd (ns ! i)) [0..<length ns];
     (case v of
        Some r \<Rightarrow> State_Monad.return r
      | None \<Rightarrow> do {
          c \<leftarrow> for_return (\<lambda>i. create_network env fd (ns ! i)) [0..<length ns];
          (case c of
             Some r \<Rightarrow> State_Monad.return r
           | None \<Rightarrow> do { call env (Close fd); State_Monad.return 0 }) }) }"

definition networks_main :: "env \<Rightarrow> string list \<Rightarrow> (host, int) state" where
  "networks_main env argv =
     (if length argv \<noteq> 2 then State_Monad.return 1
      else do {
        networks \<leftarrow> hyper_networks_read env (argv ! 1);
        (case networks of
           None \<Rightarrow> State_Monad.return 1
         | Some ns \<Rightarrow> do {
             s \<leftarrow> call env Socket;
             if ret s < 0 then State_Monad.return 1 else setup_networks env (ret s) ns }) })"

definition initial_host :: host where
  "initial_host = \<lparr>events = [], stopping = False\<rparr>"

section \<open>The link changes of a run\<close>

text \<open>
  A history read as changes of the links: a port is named by the interface that last resolved to its
  index.
\<close>

datatype change = Bridge_created string | Port_joined string "string option" | Raised string

record links =
  resolved :: "int \<Rightarrow> string option"
  changes :: "change list"

definition add_change :: "answer \<Rightarrow> change \<Rightarrow> links \<Rightarrow> links" where
  "add_change a c L = (if ret a = 0 then L\<lparr>changes := changes L @ [c]\<rparr> else L)"

fun links_step :: "links \<Rightarrow> event \<Rightarrow> links" where
  "links_step L (If_nametoindex n, a) = L\<lparr>resolved := (resolved L)(ret a \<mapsto> n)\<rparr>"
| "links_step L (Ioctl f (SIOCBRADDBR b), a) = add_change a (Bridge_created b) L"
| "links_step L (Ioctl f (SIOCBRADDIF b i), a) = add_change a (Port_joined b (resolved L i)) L"
| "links_step L (Ioctl f (SIOCSIFFLAGS n v), a) =
     (if v AND IFF_UP = IFF_UP then add_change a (Raised n) L else L)"
| "links_step L e = L"

definition links_of :: "event list \<Rightarrow> links" where
  "links_of es = foldl links_step \<lparr>resolved = Map.empty, changes = []\<rparr> es"

definition network_plan :: "hyper_network \<Rightarrow> change list" where
  "network_plan n = [Bridge_created (nw_bridge n), Port_joined (nw_bridge n) (Some (nw_uplink n)),
     Raised (nw_uplink n), Raised (nw_bridge n)]"

definition plan :: "hyper_network list \<Rightarrow> change list" where
  "plan ns = concat (map network_plan ns)"

text \<open>A call that asks for a change, and what must be known of an entry before the first one.\<close>

fun link_request :: "syscall \<Rightarrow> bool" where
  "link_request (Ioctl f (SIOCBRADDBR b)) = True"
| "link_request (Ioctl f (SIOCBRADDIF b i)) = True"
| "link_request (Ioctl f (SIOCSIFFLAGS n v)) = True"
| "link_request c = False"

definition admissible :: "event list \<Rightarrow> hyper_network \<Rightarrow> bool" where
  "admissible es n \<longleftrightarrow> (\<exists>u b f m. (If_nametoindex (nw_uplink n), u) \<in> set es \<and> ret u \<noteq> 0 \<and>
     (If_nametoindex (nw_bridge n), b) \<in> set es \<and> ret b = 0 \<and>
     (Ioctl f (SIOCGIFMTU (nw_uplink n)), m) \<in> set es \<and> ret m = 0 \<and> out m 0 = 1500)"

lemma links_of_append [simp]: "links_of (es @ fs) = foldl links_step (links_of es) fs"
  by (simp add: links_of_def)

lemma links_other [simp]:
  "links_step L (Close f, a) = L" "links_step L (Fopen p, a) = L" "links_step L (Fclose, a) = L"
  "links_step L (Socket, a) = L" "links_step L (Ioctl f (SIOCGIFMTU n), a) = L"
  "links_step L (Ioctl f (SIOCGIFFLAGS n), a) = L"
  by simp_all


section \<open>Nothing is changed before everything is checked\<close>

definition guarded :: "hyper_network list \<Rightarrow> event list \<Rightarrow> bool" where
  "guarded ns es \<longleftrightarrow> (\<forall>as e bs. es = as @ e # bs \<longrightarrow> link_request (fst e) \<longrightarrow> (\<forall>n\<in>set ns. admissible as n))"

definition ready :: "hyper_network list \<Rightarrow> event list \<Rightarrow> bool" where
  "ready ns es \<longleftrightarrow> guarded ns es \<and> (\<forall>n\<in>set ns. admissible es n)"

lemma admissible_append: "admissible es n \<Longrightarrow> admissible (es @ fs) n"
  unfolding admissible_def by (metis UnI1 set_append)

lemma guarded_snoc: "guarded ns es \<Longrightarrow> link_request (fst e) \<longrightarrow> (\<forall>n\<in>set ns. admissible es n) \<Longrightarrow> guarded ns (es @ [e])"
  unfolding guarded_def by (metis append_Cons append_butlast_last_id butlast.simps(2) butlast_append butlast_snoc
      last.simps last_appendR list.distinct(1) not_Cons_self2)

lemma ready_snoc: "ready ns es \<Longrightarrow> ready ns (es @ [e])"
  unfolding ready_def using guarded_snoc admissible_append by blast

lemma ready_append [simp]: "ready ns es \<Longrightarrow> ready ns (es @ fs)"
proof (induction fs rule: rev_induct)
  case (snoc e fs)
  then show ?case using ready_snoc [of ns "es @ fs" e] by simp
qed simp

lemma raised [simp]: "(v OR IFF_UP) AND IFF_UP = IFF_UP"
  by (rule bit_word_eqI) (auto simp: bit_and_iff bit_or_iff)

text \<open>The state of a run as its events: what is done so far.\<close>

definition done_with :: "hyper_network list \<Rightarrow> change list \<Rightarrow> host \<Rightarrow> bool" where
  "done_with ns cs s \<longleftrightarrow> ready ns (events s) \<and> changes (links_of (events s)) = cs"

lemma interface_up_spec:
  assumes "done_with ns cs s"
  shows "wp (interface_up env fd name) (\<lambda>r t. done_with ns (if r = 0 then cs @ [Raised name] else cs) t) s"
  using assms by (simp add: interface_up_def wp_rules done_with_def add_change_def)


lemma done_with_called [simp]: "done_with ns cs s \<Longrightarrow> \<not> link_request c \<Longrightarrow> done_with ns cs (called env c s)"
proof -
  have "changes (links_step L (c, a)) = changes L" if "\<not> link_request c" for L a
    using that by (cases "(L, c, a)" rule: links_step.cases) simp_all
  then show "done_with ns cs s \<Longrightarrow> \<not> link_request c \<Longrightarrow> done_with ns cs (called env c s)"
    by (simp add: done_with_def)
qed

definition progress :: "hyper_network list \<Rightarrow> change list \<Rightarrow> change list \<Rightarrow> bool \<Rightarrow> host \<Rightarrow> bool" where
  "progress ns cs full ok s \<longleftrightarrow> (\<exists>ds. done_with ns ds s \<and> prefix cs ds \<and> prefix ds full \<and> (ok \<longrightarrow> ds = full))"

lemma progressI: "done_with ns (cs @ ds) s \<Longrightarrow> prefix (cs @ ds) full \<Longrightarrow> ok \<longrightarrow> cs @ ds = full \<Longrightarrow> progress ns cs full ok s"
  unfolding progress_def by (intro exI [of _ "cs @ ds"]) simp

lemma both_raised:
  assumes "done_with ns cs s"
  shows "wp (do { x \<leftarrow> interface_up env fd n;
      if x \<noteq> 0 then State_Monad.return False
      else do { y \<leftarrow> interface_up env fd m; State_Monad.return (y = 0) } })
    (\<lambda>ok. progress ns cs (cs @ [Raised n, Raised m]) ok) s"
  unfolding wp_bind
proof (rule wp_mono [OF interface_up_spec [OF assms]])
  fix x t assume t: "done_with ns (if x = 0 then cs @ [Raised n] else cs) t"
  have part: "done_with ns (cs @ [Raised n]) u \<Longrightarrow> progress ns cs (cs @ [Raised n, Raised m]) False u"
    and full: "done_with ns (cs @ [Raised n, Raised m]) u \<Longrightarrow> progress ns cs (cs @ [Raised n, Raised m]) True u" for u
    by (auto intro: progressI)
  have "wp (interface_up env fd m) (\<lambda>y. progress ns cs (cs @ [Raised n, Raised m]) (y = 0)) t" if "x = 0"
    using t that part full
    by (auto intro!: wp_mono [OF interface_up_spec [where cs = "cs @ [Raised n]" and ns = ns]] split: if_splits)
  then show "wp (if x \<noteq> 0 then State_Monad.return False
      else do { y \<leftarrow> interface_up env fd m; State_Monad.return (y = 0) })
    (\<lambda>ok. progress ns cs (cs @ [Raised n, Raised m]) ok) t"
    using t by (auto simp: wp_rules intro: progressI [where ds = "[]"])
qed

lemma bridge_created_spec:
  assumes s: "done_with ns cs s"
  shows "wp (bridge_created env fd n) (\<lambda>ok. progress ns cs (cs @ network_plan n) ok) s"
proof -
  define u where "u = called env (If_nametoindex (nw_uplink n)) s"
  define i where "i = ret (env (events s) (If_nametoindex (nw_uplink n)))"
  define b where "b = called env (Ioctl fd (SIOCBRADDBR (nw_bridge n))) u"
  define p where "p = called env (Ioctl fd (SIOCBRADDIF (nw_bridge n) i)) b"
  let ?full = "cs @ network_plan n"
  have u: "done_with ns cs u" using s by (simp add: u_def)
  have bfail: "progress ns cs ?full False b" if "ret (env (events u) (Ioctl fd (SIOCBRADDBR (nw_bridge n)))) \<noteq> 0"
    using u that by (intro progressI [where ds = "[]"]) (simp_all add: b_def done_with_def add_change_def)
  have bok: "done_with ns (cs @ [Bridge_created (nw_bridge n)]) b \<and> resolved (links_of (events b)) i = Some (nw_uplink n)"
    if "ret (env (events u) (Ioctl fd (SIOCBRADDBR (nw_bridge n)))) = 0"
    using u that by (simp add: b_def done_with_def add_change_def) (simp add: u_def i_def)
  have pfail: "progress ns cs ?full False p"
    if "ret (env (events u) (Ioctl fd (SIOCBRADDBR (nw_bridge n)))) = 0"
      "ret (env (events b) (Ioctl fd (SIOCBRADDIF (nw_bridge n) i))) \<noteq> 0"
    using bok that by (intro progressI [where ds = "[Bridge_created (nw_bridge n)]"])
      (simp_all add: p_def done_with_def add_change_def network_plan_def)
  have pok: "wp (do { x \<leftarrow> interface_up env fd (nw_uplink n);
      if x \<noteq> 0 then State_Monad.return False
      else do { y \<leftarrow> interface_up env fd (nw_bridge n); State_Monad.return (y = 0) } })
    (\<lambda>ok. progress ns cs ?full ok) p"
    if "ret (env (events u) (Ioctl fd (SIOCBRADDBR (nw_bridge n)))) = 0"
      "ret (env (events b) (Ioctl fd (SIOCBRADDIF (nw_bridge n) i))) = 0"
  proof -
    let ?cs = "cs @ [Bridge_created (nw_bridge n), Port_joined (nw_bridge n) (Some (nw_uplink n))]"
    have "done_with ns ?cs p" using bok that by (simp add: p_def done_with_def add_change_def)
    moreover have "?full = ?cs @ [Raised (nw_uplink n), Raised (nw_bridge n)]" by (simp add: network_plan_def)
    moreover have "progress ns ?cs ?full ok t \<Longrightarrow> progress ns cs ?full ok t" for ok t
      by (auto simp: progress_def intro: append_prefixD)
    ultimately show ?thesis using both_raised [of ns ?cs p env fd "nw_uplink n" "nw_bridge n"]
      by (auto elim: wp_mono)
  qed
  show ?thesis
    unfolding bridge_created_def
    using bfail pfail pok by (simp only: wp_bind wp_call wp_if wp_return u_def [symmetric] i_def [symmetric] b_def [symmetric] p_def [symmetric]) simp
qed


section \<open>The two loops\<close>

definition unlinked :: "host \<Rightarrow> bool" where
  "unlinked s \<longleftrightarrow> (\<forall>e\<in>set (events s). \<not> link_request (fst e)) \<and> changes (links_of (events s)) = []"

definition outcome :: "hyper_network list \<Rightarrow> bool \<Rightarrow> host \<Rightarrow> bool" where
  "outcome ns ok t \<longleftrightarrow> guarded ns (events t) \<and> prefix (changes (links_of (events t))) (plan ns) \<and>
     (ok \<longrightarrow> changes (links_of (events t)) = plan ns)"

lemma unlinked_called [simp]: "unlinked s \<Longrightarrow> \<not> link_request c \<Longrightarrow> unlinked (called env c s)"
proof -
  have "changes (links_step L (c, a)) = changes L" if "\<not> link_request c" for L a
    using that by (cases "(L, c, a)" rule: links_step.cases) simp_all
  then show "unlinked s \<Longrightarrow> \<not> link_request c \<Longrightarrow> unlinked (called env c s)"
    by (auto simp: unlinked_def)
qed

lemma unlinked_guarded: "unlinked s \<Longrightarrow> guarded ns (events s)"
  by (auto simp: unlinked_def guarded_def)

lemma unlinked_outcome: "unlinked s \<Longrightarrow> outcome ns False s"
  using unlinked_guarded by (simp add: outcome_def unlinked_def)

lemma progress_outcome: "progress ns cs (cs @ ds) ok t \<Longrightarrow> prefix (cs @ ds) (plan ns) \<Longrightarrow> outcome ns False t"
  unfolding progress_def outcome_def done_with_def ready_def using prefix_order.trans by blast

lemma validate_network_spec:
  assumes "unlinked s" and "\<forall>j<i. admissible (events s) (ns ! j)"
  shows "wp (validate_network env fd (ns ! i)) (\<lambda>r t. case r of
      None \<Rightarrow> unlinked t \<and> (\<forall>j<Suc i. admissible (events t) (ns ! j))
    | Some v \<Rightarrow> unlinked t \<and> v = 1) s"
proof -
  let ?n = "ns ! i"
  define u where "u = called env (If_nametoindex (nw_uplink ?n)) s"
  define b where "b = called env (If_nametoindex (nw_bridge ?n)) u"
  define m where "m = called env (Ioctl fd (SIOCGIFMTU (nw_uplink ?n))) b"
  have state: "unlinked u" "unlinked b" "unlinked m" using assms(1) by (simp_all add: u_def b_def m_def)
  have "admissible (events m) (ns ! j)" if "j < i" for j
    using assms(2) that by (simp add: u_def b_def m_def admissible_append)
  moreover have "admissible (events m) ?n"
    if "ret (env (events s) (If_nametoindex (nw_uplink ?n))) \<noteq> 0"
      "ret (env (events u) (If_nametoindex (nw_bridge ?n))) = 0"
      "ret (env (events b) (Ioctl fd (SIOCGIFMTU (nw_uplink ?n)))) = 0"
      "out (env (events b) (Ioctl fd (SIOCGIFMTU (nw_uplink ?n)))) 0 = 1500"
    unfolding admissible_def
    by (intro exI [of _ "env (events s) (If_nametoindex (nw_uplink ?n))"]
        exI [of _ "env (events u) (If_nametoindex (nw_bridge ?n))"] exI [of _ fd]
        exI [of _ "env (events b) (Ioctl fd (SIOCGIFMTU (nw_uplink ?n)))"] conjI that)
      (simp_all add: u_def b_def m_def)
  ultimately show ?thesis
    unfolding validate_network_def network_absent_def give_up_def
    using state
    by (simp only: wp_bind wp_call wp_if wp_return u_def [symmetric] b_def [symmetric] m_def [symmetric])
      (auto simp: less_Suc_eq)
qed

lemma create_network_spec:
  assumes "done_with ns (plan (take i ns)) s" and "i < length ns"
  shows "wp (create_network env fd (ns ! i)) (\<lambda>r t. case r of
      None \<Rightarrow> done_with ns (plan (take (Suc i) ns)) t
    | Some v \<Rightarrow> outcome ns False t \<and> v = 1) s"
proof -
  let ?full = "plan (take i ns) @ network_plan (ns ! i)"
  have full: "?full = plan (take (Suc i) ns)" using assms(2) by (simp add: plan_def take_Suc_conv_app_nth)
  have part: "prefix ?full (plan ns)"
    unfolding full by (rule prefixI [of _ _ "plan (drop (Suc i) ns)"])
      (simp only: plan_def append_take_drop_id flip: concat_append map_append)
  have close: "progress ns cs ds ok t \<Longrightarrow> progress ns cs ds ok (called env (Close fd) t)" for cs ds ok t
    unfolding progress_def by (erule ex_forward) simp
  have stop: "progress ns (plan (take i ns)) ?full ok t \<Longrightarrow> outcome ns False (called env (Close fd) t)" for ok t
    using progress_outcome [OF close part] .
  have go_on: "progress ns (plan (take i ns)) ?full True t \<Longrightarrow> done_with ns (plan (take (Suc i) ns)) t" for t
    by (simp add: progress_def flip: full)
  show ?thesis
    unfolding create_network_def give_up_def wp_bind
  proof (rule wp_mono [OF bridge_created_spec [OF assms(1)]])
    fix ok t assume "progress ns (plan (take i ns)) ?full ok t"
    then show "wp (if ok then State_Monad.return None else do { call env (Close fd); State_Monad.return (Some 1) })
      (\<lambda>r t. case r of None \<Rightarrow> done_with ns (plan (take (Suc i) ns)) t | Some v \<Rightarrow> outcome ns False t \<and> v = 1) t"
      using stop go_on by (cases ok) (simp_all add: wp_rules)
  qed
qed

lemma setup_networks_spec:
  assumes "unlinked s"
  shows "wp (setup_networks env fd ns) (\<lambda>r. outcome ns (r = 0)) s"
proof -
  have valid: "wp (for_return (\<lambda>i. validate_network env fd (ns ! i)) [0..<length ns]) (\<lambda>r t. case r of
      None \<Rightarrow> unlinked t \<and> (\<forall>j<length ns. admissible (events t) (ns ! j))
    | Some v \<Rightarrow> unlinked t \<and> v = 1) s"
    by (rule wp_for_return_upt) (use assms validate_network_spec in auto)
  have create: "wp (for_return (\<lambda>i. create_network env fd (ns ! i)) [0..<length ns]) (\<lambda>r t. case r of
      None \<Rightarrow> done_with ns (plan (take (length ns) ns)) t
    | Some v \<Rightarrow> outcome ns False t \<and> v = 1) t"
    if "unlinked t" "\<forall>j<length ns. admissible (events t) (ns ! j)" for t
  proof (rule wp_for_return_upt)
    have "guarded ns (events t)" using that(1) by (rule unlinked_guarded)
    then show "done_with ns (plan (take 0 ns)) t"
      using that by (auto simp: done_with_def ready_def unlinked_def plan_def in_set_conv_nth)
  qed (use create_network_spec in auto)
  have finish: "outcome ns True (called env (Close fd) t)" if "done_with ns (plan (take (length ns) ns)) t" for t
    using that done_with_called [OF that, of "Close fd" env] by (simp add: outcome_def done_with_def ready_def)
  show ?thesis
    unfolding setup_networks_def wp_bind
  proof (rule wp_mono [OF valid])
    fix r :: "int option" and t assume t: "case r of None \<Rightarrow> unlinked t \<and> (\<forall>j<length ns. admissible (events t) (ns ! j))
      | Some v \<Rightarrow> unlinked t \<and> v = 1"
    have "wp (for_return (\<lambda>i. create_network env fd (ns ! i)) [0..<length ns]) (\<lambda>c. wp (case c of
          Some r \<Rightarrow> State_Monad.return r
        | None \<Rightarrow> do { call env (Close fd); State_Monad.return 0 }) (\<lambda>r. outcome ns (r = 0))) t" if "r = None"
      by (rule wp_mono [OF create]) (use t that finish in \<open>auto simp: wp_rules split: option.splits\<close>)
    then show "wp (case r of
        Some r \<Rightarrow> State_Monad.return r
      | None \<Rightarrow> do {
          c \<leftarrow> for_return (\<lambda>i. create_network env fd (ns ! i)) [0..<length ns];
          (case c of
             Some r \<Rightarrow> State_Monad.return r
           | None \<Rightarrow> do { call env (Close fd); State_Monad.return 0 }) }) (\<lambda>r. outcome ns (r = 0)) t"
      using t unlinked_outcome by (cases r) (simp_all add: wp_return wp_bind)
  qed
qed

text \<open>The inventory a run has read, if any.\<close>

definition configured :: "env \<Rightarrow> string list \<Rightarrow> hyper_network list option" where
  "configured env argv = (let f = env [] (Fopen (argv ! 1)) in
     if length argv \<noteq> 2 \<or> ret f = 0 then None else networks_of_file (str f) (out f 0 \<noteq> 0))"

lemma networks_main_spec:
  "wp (networks_main env argv) (\<lambda>r t. case configured env argv of
      None \<Rightarrow> r = 1 \<and> unlinked t
    | Some ns \<Rightarrow> outcome ns (r = 0) t) initial_host"
proof -
  have s: "unlinked initial_host" "events initial_host = []"
    by (simp_all add: unlinked_def initial_host_def links_of_def)
  then have fail: "unlinked t \<Longrightarrow> outcome ns False t" for ns t using unlinked_outcome by blast
  have "wp (setup_networks env fd ns) (\<lambda>r. outcome ns (r = 0))
      (called env Socket (called env Fclose (called env (Fopen p) initial_host)))" for fd ns p
    using s by (intro setup_networks_spec) simp
  then show ?thesis
    using s fail
    by (auto simp: networks_main_def hyper_networks_read_def configured_def wp_rules Let_def split: option.split)
qed

end
