(* ===== verification/Setup_Properties.thy ===== *)
theory Setup_Properties
  imports Supervisor Network_Setup Samples
begin

text \<open>
  The properties of the programs that bring the appliance up, with sample environments: a supervisor
  with two services that end cleanly, and an inventory of one network whose bridge is built.
\<close>

section \<open>Samples\<close>

definition family :: env where
  "family es c = (case c of
     Fopen p \<Rightarrow> success\<lparr>ret := 1, str := sample_clients\<rparr>
   | Fork \<Rightarrow> success\<lparr>ret := 100 + int (length es)\<rparr>
   | Waitpid \<Rightarrow> (if 104 \<in># cs_running (census_of es) then success\<lparr>ret := 104\<rparr>
       else if 105 \<in># cs_running (census_of es) then success\<lparr>ret := 105\<rparr>
       else success\<lparr>ret := - 1\<rparr>)
   | _ \<Rightarrow> success)"

definition sample_supervisor :: "string list" where
  "sample_supervisor = [''hyper-io-supervisor'', ''/etc/hyper-clients.conf'']"

definition linking :: env where
  "linking es c = (case c of
     Fopen p \<Rightarrow> success\<lparr>ret := 1, str := sample_networks\<rparr>
   | Socket \<Rightarrow> success\<lparr>ret := 7\<rparr>
   | If_nametoindex n \<Rightarrow> (if n = ''eth0'' then success\<lparr>ret := 2\<rparr> else success)
   | Ioctl f (SIOCGIFMTU n) \<Rightarrow> success\<lparr>out := (\<lambda>_. 1500)\<rparr>
   | _ \<Rightarrow> success)"

definition sample_setup :: "string list" where
  "sample_setup = [''hyper-networks'', ''/etc/hyper-networks.conf'']"

lemma family_waits: "waits_for_children family"
  by (simp add: waits_for_children_def family_def)

lemma family_few: "few_interrupts family 0"
  by (simp add: few_interrupts_def family_def) (simp add: success_def)










lemma sample_networks_parsed:
  "networks_of_file sample_networks False = Some [\<lparr>nw_name = ''lan'', nw_bridge = ''br0'', nw_uplink = ''eth0''\<rparr>]"
  by code_simp

lemma linking_ends: "fst (run_state (networks_main linking sample_setup) initial_host) = 0"
proof -
  have "wp (networks_main linking sample_setup) (\<lambda>r t. r = 0) initial_host"
    by (simp add: networks_main_def sample_setup_def hyper_networks_read_def setup_networks_def validate_network_def
        network_absent_def give_up_def create_network_def bridge_created_def interface_up_def wp_rules
        linking_def sample_networks_parsed)
  then show ?thesis by (simp add: wp_def case_prod_beta)
qed

section \<open>The supervisor\<close>



text \<open>
  C38. The supervisor returns: if waits are interrupted at most \<open>bound\<close> times, a run ends, in every
  order in which its services end and however they end, within one iteration for each possible client and
  each interruption.
\<close>

theorem supervisor_returns:
  assumes "waits_for_children env" and "few_interrupts env bound" and "HYPER_BLOCK_CLIENTS + bound < fuel"
  shows "fst (run_state (supervisor_main env fuel argv) initial_supervisor) \<noteq> None"
  using wp_runD [OF supervisor_main_spec [OF assms(1), where bound = bound] prod.collapse [symmetric]] assms(2,3)
  by simp

theorem supervisor_returns_witness:
  "fst (run_state (supervisor_main family 129 sample_supervisor) initial_supervisor) \<noteq> None"
  by (rule supervisor_returns [OF family_waits family_few]) simp

text \<open>
  C39. The two programs agree on the command line: for every client of every accepted inventory, the
  service started with the arguments the supervisor prints accepts them, with the resources of exactly
  that client; it takes the role of block owner exactly for client zero, for which the owner's further
  checks hold, and any other client's MAC text can be parsed.
\<close>

theorem service_accepts_arguments:
  assumes "clients_of_file contents read_error = Some cs" and "c \<in> set cs"
  shows "run_state (parse_arguments (service_arguments present c)) b = (None,
      b\<lparr>managed := True, scsi := \<lparr>request_queues = c_request_queues c, sg_prealloc = c_sg_prealloc c\<rparr>,
        net_resources := c_net_resources c, memory_path := ''/dev/hyper-memory-'' @ decimal (unat (c_id c))\<rparr>) \<and>
    is_owner (service_arguments present c) = (c_id c = 0) \<and>
    (c_id c = 0 \<longrightarrow> service_arguments present c ! 3 = ''/dev/hyper-io-control-0'' \<and>
      service_arguments present c ! 5 = ''-'') \<and>
    (service_arguments present c ! 5 \<noteq> ''-'' \<longrightarrow> hyper_mac_parse (service_arguments present c ! 6) \<noteq> None)"
proof -
  have ok: "client_ok c" using clients_of_file_inventory [OF assms(1)] assms(2) by (auto simp: inventory_def list_all_iff)
  show ?thesis
    using service_arguments_parsed [OF ok] service_arguments_owner service_arguments_network [OF ok] by simp
qed

theorem service_accepts_arguments_witness:
  "\<exists>cs. clients_of_file sample_clients False = Some cs \<and> length cs = 2 \<and>
     fst (run_state (parse_arguments (service_arguments True (cs ! 1))) initial_backend) = None"
proof -
  obtain cs where cs: "clients_of_file sample_clients False = Some cs" "length cs = 2"
    by (rule sample_clients_parsed)
  then have "cs ! 1 \<in> set cs" by simp
  with cs service_accepts_arguments [OF cs(1) this] show ?thesis by auto
qed

section \<open>The bridges\<close>

text \<open>
  C40. Setting up the networks: without a valid inventory no link is touched. Otherwise no change is even
  requested before every entry has been checked (its uplink exists with the right MTU, its bridge does
  not exist), the changes made are at any time a prefix of the plan of the inventory, each uplink joining
  its own bridge, and a zero status means that the whole plan has been carried out.
\<close>

theorem networks_set_up:
  assumes "run_state (networks_main env argv) initial_host = (r, t)"
  shows "case configured env argv of
      None \<Rightarrow> r = 1 \<and> (\<forall>e\<in>set (events t). \<not> link_request (fst e))
    | Some ns \<Rightarrow> (\<forall>as e bs. events t = as @ e # bs \<longrightarrow> link_request (fst e) \<longrightarrow> (\<forall>n\<in>set ns. admissible as n)) \<and>
        prefix (changes (links_of (events t))) (plan ns) \<and>
        (r = 0 \<longrightarrow> changes (links_of (events t)) = plan ns)"
  using wp_runD [OF networks_main_spec assms]
  by (simp add: unlinked_def outcome_def guarded_def split: option.splits)

theorem networks_set_up_witness:
  "\<exists>r t. run_state (networks_main linking sample_setup) initial_host = (r, t) \<and> r = 0 \<and>
     changes (links_of (events t)) = [Bridge_created ''br0'', Port_joined ''br0'' (Some ''eth0''),
       Raised ''eth0'', Raised ''br0'']"
proof -
  obtain r t where run: "run_state (networks_main linking sample_setup) initial_host = (r, t)"
    by (cases "run_state (networks_main linking sample_setup) initial_host")
  then have "r = 0" using linking_ends by simp
  moreover have "configured linking sample_setup =
      Some [\<lparr>nw_name = ''lan'', nw_bridge = ''br0'', nw_uplink = ''eth0''\<rparr>]"
    by (simp add: configured_def sample_setup_def linking_def sample_networks_parsed)
  ultimately show ?thesis using run networks_set_up [OF run] by (simp add: plan_def network_plan_def)
qed

end
