(* ===== verification/Spec2Isabelle.thy ===== *)
theory Spec2Isabelle
  imports Samples Kernel_Properties Bridge_Properties Setup_Properties
begin

text \<open>
  A verification development for HypeR-io-vm, the Linux service VM that gives other virtual machines
  their disks and network interfaces.

  The program. An appliance boots, \<open>service/hyper-networks.c\<close> builds the bridges of the network inventory,
  and \<open>service/hyper-io-supervisor.c\<close> starts one \<open>service/hyper-io-service.c\<close> process per client and
  waits for them. A client service talks to its virtual machine over a control file (256-byte records,
  \<open>include/hyper_io.h\<close>), maps the memory the machine has granted, and hands the virtqueues in it to vhost:
  vhost-scsi for storage, vhost-net with a TAP interface for the network. The service of client zero owns
  the physical disks: it answers reads and binds sector ranges to other clients. Two kernel modules carry
  this: \<open>modules/guest-memory\<close> gives granted memory its page metadata and maps it, and
  \<open>modules/io-bridge\<close> turns hypervisor registers into the control file, eventfd notifications and the
  admission of grants. The central promise is about retirement: granted memory is handed back (a quiescence
  proof is written) only when no device can still reach it.

  The modelling style. Each side reaches its surroundings through calls: \<open>syscall\<close> with \<open>answer\<close> for the
  processes (\<open>Host\<close>), \<open>kcall\<close> with \<open>kanswer\<close> for the modules (\<open>Kernel\<close>). An environment is any function
  from the history and the next call to an answer, so every theorem ranges over every behaviour of kernel,
  hypervisor and user space, failures included; what a theorem needs of them is a named hypothesis
  (\<open>waits_for_children\<close>, \<open>few_interrupts\<close> and the like), each with a sample environment that satisfies
  it. Functions of the source are definitions in the state monad over a record of the C state; machine
  integers are words; C strings are HOL strings; arrays are lists of their C length.

  The theories, in the order of the code.

  \<^item> \<open>Prelude\<close>: word arithmetic, the weakest precondition \<open>wp\<close> of the state monad and its rules, C loops.
    \<open>Wire\<close>: little-endian fields (\<open>wire_field\<close>, interpreted for the three widths). \<open>Text\<close>: \<open>fgets\<close>, word
    scanning, \<open>strtoul\<close>, \<open>%u\<close> and \<open>%09x\<close>.
  \<^item> \<open>Layout\<close>, \<open>Block_Policy\<close>, \<open>Session\<close>, \<open>Protocol\<close>: the headers \<open>include/hyper_io_layout.h\<close>,
    \<open>hyper_block_policy.h\<close>, \<open>hyper_io_session.h\<close> and \<open>hyper_io.h\<close>; the lemmas characterise the wrapping
    checks over the natural numbers and relate messages to their bytes.
  \<^item> \<open>Config\<close>: \<open>client-config.c\<close>, \<open>network-config.c\<close> and the parsers of \<open>hyper_network.h\<close> and
    \<open>hyper_clients.h\<close>; the lemmas show that accepted inventories are well formed.
  \<^item> \<open>Backend\<close>, \<open>Vhost\<close>, \<open>Network\<close>, \<open>Shared_Memory\<close>: \<open>backend.h\<close>, \<open>vhost.c\<close>, \<open>network.c\<close>, \<open>memory.c\<close>.
    \<open>Retirement\<close> is the abstract specification of the retirement protocol, a monitor over the calls of a
    run (\<open>safe\<close>), with the contracts of draining and activating a device as locales (\<open>drainable\<close>,
    \<open>activatable\<close>), interpreted for both devices.
  \<^item> \<open>Block_Target\<close>, \<open>Block\<close>: \<open>block-target.c\<close> and \<open>block.c\<close>; the lemmas keep the owner's tables well
    formed and its reads in bounds.
  \<^item> \<open>Service\<close>: \<open>hyper-io-service.c\<close>, from the dispatch of one record to \<open>main\<close>. The locale
    \<open>status_operation\<close> is the contract of the handlers that only return a status.
  \<^item> \<open>Supervisor\<close>, \<open>Network_Setup\<close>: \<open>hyper-io-supervisor.c\<close> and \<open>hyper-networks.c\<close>. A ledger over the
    calls says which services run (\<open>census\<close>) and which link changes were made (\<open>links\<close>); the lemmas relate
    it to the process's own variables.
  \<^item> \<open>Granules\<close>, \<open>Guest_Memory\<close>: \<open>modules/guest-memory/granules.c\<close> and \<open>memory.c\<close>. The registry refines a
    multiset of granule indices, in every interleaving of its users; \<open>granule_supply\<close> is the interface the
    memory device uses, interpreted for the registry.
  \<^item> \<open>Io_Bridge\<close>: \<open>modules/io-bridge/hyper_io_bridge.c\<close>. \<open>Bridge_References\<close> and \<open>Bridge_Operations\<close> tie the
    eventfd contexts, files, wait entries and the interrupt a bridge holds to its fields;
    \<open>Bridge_Life\<close> treats the mailbox and \<open>Bridge_Runs\<close> the admission of grants and whole runs.
  \<^item> \<open>Samples\<close>, \<open>Kernel_Samples\<close>: concrete states and environments. The properties are in this theory (the
    service), in \<open>Kernel_Properties\<close>, \<open>Bridge_Properties\<close> and \<open>Setup_Properties\<close>.

  Loops and bounds. A loop without a bound of its own takes fuel and returns \<open>None\<close> when it runs out; a
  safety theorem holds at every fuel, so also of runs that never end. Where the code promises to return,
  that is proved: the read loop of the owner ends within the length of the read, the waiting loop of the
  bridge with the fuel \<open>N + 1\<close> when the register shows a record after \<open>N\<close> wake-ups, and the supervisor
  within one iteration per possible client and interrupted wait.

  Not modelled.

  \<^item> Text that is only printed (diagnostics, \<open>perror\<close>, kernel log messages) and the \<open>vm_flags\<close> bits that
    a successful mapping sets.
  \<^item> The memory of the C programs: an array is a list and a message a list of bytes, so the theorems state
    bounds of the indices the code computes; an array pointer that is \<open>NULL\<close> is the empty list.
  \<^item> Locks are the atomicity of the steps they protect. The registry's work-queue callbacks are placed at the
    latest point the code allows; interrupts and wake-ups of a bridge interleave between operations and at
    the waits inside them.
  \<^item> A termination signal is delivered by the time some call returns. A signal that arrives between the
    test of \<open>stopping\<close> and the blocking call that follows is seen when that call next returns.
  \<^item> vhost, LIO, device mapper, eventfd and the hypervisor are not under \<open>src\<close>: they are the environment.
    Tests, build and publication scripts, kernel and QEMU patches, configuration and the shell scripts of the
    root file system are outside the model.
\<close>

section \<open>Runs of a client service\<close>

text \<open>
  C1. Every run of the client service (\<open>main\<close> of \<open>hyper-io-service.c\<close>), with any arguments, against
  any behaviour of the kernel and the host, and at any point of its execution, obeys the retirement
  protocol of shared memory: no mapping is removed while a vhost backend may still use it, no
  prepared memory is given back while it is mapped or in use, and no quiescence proof is sent for a
  grant before everything that depends on it is gone, and then only for the admitted token.
\<close>

theorem service_run_safe:
  "wp (service_main env fuel argv) (\<lambda>_ t. safe (events t)) initial_backend"
  by (rule wp_mono [OF service_main_spec]) (simp add: client_inv_def backend_inv_def)

text \<open>
  C2. Releasing a client's memory, whatever the kernel answers: it succeeds only with both devices
  closed, the mapping and the memory file gone and the grant token retired; a failure keeps the
  token, and keeps mapping, file and region unless both devices have been drained.
\<close>

theorem release_memory_retires:
  assumes "backend_inv b"
  shows "wp (release_memory env) (\<lambda>r t.
     (r = HYPER_IO_OK \<longrightarrow> closed Disk t \<and> closed Net t \<and> memory t = MAP_FAILED \<and> memory_fd t < 0 \<and>
        token t = 0 \<and> region t = no_region) \<and>
     (r \<noteq> HYPER_IO_OK \<longrightarrow> r = HYPER_IO_QUIESCENCE_FAILED \<and> token t = token b \<and>
        (closed Disk t \<and> closed Net t \<or> shared t = shared b)) \<and>
     backend_inv t) b"
  by (rule wp_mono [OF release_memory_spec [OF assms]])
     (auto simp: release_post_def released_def split: if_splits)

theorem release_memory_retires_witness:
  "backend_inv active_client \<and>
   fst (run_state (release_memory calm) active_client) = HYPER_IO_OK \<and>
   memory (snd (run_state (release_memory calm) active_client)) = MAP_FAILED"
proof -
  have "fst (run_state (release_memory calm) active_client) = HYPER_IO_OK" by code_simp
  then show ?thesis
    using release_memory_retires [OF sample_inv(3), of calm] sample_inv(3)
    by (simp add: wp_def case_prod_beta)
qed





text \<open>
  C5. No store into the page array is out of bounds: for every extent the layout check admits, each
  index the inner loop computes (in wrapping 64-bit arithmetic) is below \<open>length / 4096\<close>.
\<close>

theorem extent_stores_in_bounds:
  assumes "hyper_io_extent_valid cursor len alias offset extent" and "unat cursor mod 4096 = 0"
    and "at \<in> set (extent_steps extent)"
  shows "unat ((cursor + at) div 4096) < unat len div 4096"
  using assms by (rule store_extent_bounds)

theorem extent_stores_in_bounds_witness:
  "hyper_io_extent_valid 4096 12288 0 4096 8192 \<and> 4096 \<in> set (extent_steps 8192) \<and>
   unat ((4096 + 4096 :: u64) div 4096) < unat (12288 :: u64) div 4096"
proof -
  have v: "hyper_io_extent_valid 4096 12288 0 4096 8192" by code_simp
  have s: "4096 \<in> set (extent_steps 8192)" by (auto simp: extent_steps_def image_iff intro: bexI [of _ 1])
  from v s show ?thesis using extent_stores_in_bounds [OF v _ s] by simp
qed

section \<open>Activation of the two devices\<close>

text \<open>
  C6. Activating the disk: success leaves the vhost endpoint attached over live memory; a rejected
  request leaves the client as it was; a reported backend failure leaves the device closed; no
  other device, no memory and no configuration is touched.
\<close>

theorem activate_disk_outcome:
  assumes "backend_inv b"
  shows "wp (activate_disk env m) (\<lambda>r t.
     (r = HYPER_IO_OK \<longrightarrow> ep_attached (disk t) \<and> memory t \<noteq> MAP_FAILED) \<and>
     (r \<in> {HYPER_IO_UNSUPPORTED, HYPER_IO_BUSY, HYPER_IO_INVALID} \<longrightarrow> quietly b t) \<and>
     (r = HYPER_IO_BACKEND_FAILURE \<longrightarrow> closed Disk t) \<and>
     net t = net b \<and> shared t = shared b \<and> config t = config b \<and> backend_inv t) b"
  by (rule wp_mono [OF disk_activation.activate_spec [OF assms]])
     (auto simp: activate_post_def untouched_def endpoint_of_def)

theorem activate_disk_outcome_witness:
  "backend_inv mapped_client \<and>
   net (snd (run_state (activate_disk calm sample_activate) mapped_client)) = net mapped_client"
  using activate_disk_outcome [OF sample_inv(2), of calm sample_activate] sample_inv(2)
  by (simp add: wp_def case_prod_beta)

text \<open>
  C7. Activating the network: the same contract for the network device, whose TAP may change and
  whose disk may not.
\<close>

theorem activate_network_outcome:
  assumes "backend_inv b"
  shows "wp (activate_network env m) (\<lambda>r t.
     (r = HYPER_IO_OK \<longrightarrow> ep_attached (net t) \<and> memory t \<noteq> MAP_FAILED) \<and>
     (r \<in> {HYPER_IO_UNSUPPORTED, HYPER_IO_BUSY, HYPER_IO_INVALID} \<longrightarrow> quietly b t) \<and>
     (r = HYPER_IO_BACKEND_FAILURE \<longrightarrow> closed Net t) \<and>
     disk t = disk b \<and> shared t = shared b \<and> config t = config b \<and> backend_inv t) b"
  by (rule wp_mono [OF net_activation.activate_spec [OF assms]])
     (auto simp: activate_post_def untouched_def endpoint_of_def)

theorem activate_network_outcome_witness:
  "backend_inv network_client \<and>
   disk (snd (run_state (activate_network granting sample_activate) network_client)) = disk network_client"
  using activate_network_outcome [OF sample_inv(4), of granting sample_activate] sample_inv(4)
  by (simp add: wp_def case_prod_beta)

text \<open>
  C8. Ring validation is exact: the wrapping 64-bit checks of the queue addresses accept a set of
  queues if and only if every required queue is present with a power-of-two size of at most 128,
  every part of every ring lies aligned inside the shared region, and no two parts overlap.
\<close>

theorem ring_validation_exact:
  assumes "unat (memory b) + unat (mi_length (region b)) < 2 ^ 64"
  shows "check_queues b required 0 [] qs =
     (if rings_ok b required qs then Some (concat (map (queue_extents b) qs)) else None)"
  using assms by (rule check_queues_rings_ok)

theorem ring_validation_exact_witness:
  "rings_ok mapped_client 2 sample_queues \<and>
   check_queues mapped_client 2 0 [] sample_queues \<noteq> None"
proof -
  have c: "check_queues mapped_client 2 0 [] sample_queues \<noteq> None"
    by (simp add: sample_queues_def sample_defs queue_absent_def queue_parts_def queue_address_def
        check_parts.simps check_queues.simps Let_def word_less_nat_alt)
  have "unat (memory mapped_client) + unat (mi_length (region mapped_client)) < 2 ^ 64"
    by (simp add: sample_defs)
  from ring_validation_exact [OF this, of 2 sample_queues] c show ?thesis by (simp split: if_splits)
qed

text \<open>
  C9. A rejected ring configuration has no effect at all: \<open>configure_vhost\<close> that answers busy or
  invalid has made no call and changed nothing, and any other answer is success with the endpoint
  bound, or a backend failure.
\<close>

theorem configure_rejects_cleanly:
  assumes "backend_inv b"
  shows "wp (configure_vhost env d path e features qs n required) (\<lambda>r t.
     (r \<in> {HYPER_IO_BUSY, HYPER_IO_INVALID} \<longrightarrow> t = b) \<and>
     (r = HYPER_IO_OK \<longrightarrow> ep_bound (endpoint_of d t) \<and> 0 \<le> ep_fd (endpoint_of d t)) \<and>
     r \<in> {HYPER_IO_OK, HYPER_IO_BUSY, HYPER_IO_INVALID, HYPER_IO_BACKEND_FAILURE} \<and> backend_inv t) b"
  by (rule wp_mono [OF configure_vhost_spec [OF assms]])
     (use assms in \<open>auto simp: configure_post_def configuring_def draining_def split: if_splits\<close>)

theorem configure_rejects_cleanly_witness:
  "backend_inv mapped_client \<and>
   snd (run_state (configure_vhost calm Net ''/dev/vhost-net'' 1 VERSION_1 sample_queues 2 2) mapped_client) = mapped_client"
proof -
  have "fst (run_state (configure_vhost calm Net ''/dev/vhost-net'' 1 VERSION_1 sample_queues 2 2) mapped_client) =
      HYPER_IO_INVALID"
    by (simp add: configure_vhost_def Let_def sample_defs endpoint_of_def)
  then show ?thesis
    using configure_rejects_cleanly [OF sample_inv(2), of calm Net "''/dev/vhost-net''" 1 VERSION_1 sample_queues 2 2]
      sample_inv(2)
    by (simp add: wp_def case_prod_beta)
qed

section \<open>Requests\<close>



text \<open>
  C11. At most once: a request that has been dispatched and is received again is answered with the
  same reply, without touching the backend (only the diagnostic sequence moves).
\<close>

theorem replay_answered_from_cache:
  assumes "client_inv b" and "server_ok sv" and "40 \<le> length message" and "request_ok message"
    and "admit_request (diagnosed b) sv message = (admission, sv1)" and "0 \<le> admission"
    and "sv_last sv1 < h_transaction (header_of message)"
    and "run_state (handle_request env fuel sv message) b = (Some (sv', reply), t)"
  shows "run_state (handle_request env' fuel' sv' message) t = (Some (sv', reply), diagnosed (diagnosed t))"
  using assms by (rule replay_same_reply)

theorem replay_answered_from_cache_witness:
  "\<exists>sv' reply t. run_state (handle_request calm 1 initial_server hello_message) idle_client = (Some (sv', reply), t) \<and>
     run_state (handle_request granting 1 sv' hello_message) t = (Some (sv', reply), diagnosed (diagnosed t))"
proof -
  obtain sv' reply t where
    r: "run_state (handle_request calm 1 initial_server hello_message) idle_client = (Some (sv', reply), t)"
    using hello_answered [of 1] by (metis option.exhaust prod.exhaust fst_conv)
  have "40 \<le> length hello_message" "(0 :: int) \<le> 1"
    "sv_last greeted_server < h_transaction (header_of hello_message)"
    by (simp_all add: hello_length hello_header sample_header_def greeted_server_def initial_server_def)
  from replay_answered_from_cache [OF sample_client_inv(1) initial_server_ok this(1) hello_ok hello_admitted(1) this(2,3) r]
  show ?thesis using r by blast
qed

text \<open>
  C12. A request that is not admitted, or whose transaction number is not larger than the last one,
  never reaches the backend: it is answered from the cache if it repeats the last request, and as
  invalid otherwise.
\<close>

theorem stale_request_no_effect:
  assumes "admit_request (diagnosed b) sv message = (admission, sv')"
    and "admission < 0 \<or> h_transaction (header_of message) \<le> sv_last sv'"
  shows "run_state (handle_request env fuel sv message) b =
    (Some (sv', if is_replay admission sv' message then sv_previous_reply sv'
       else finish_reply HYPER_IO_INVALID 48 (blank_reply message)), diagnosed (diagnosed b))"
  by (rule handle_request_undispatched [OF assms(1)]) (use assms(2) in auto)

theorem stale_request_no_effect_witness:
  "events (snd (run_state (handle_request calm 1 (initial_server\<lparr>sv_last := 5, sv_session := sv_session greeted_server\<rparr>)
     hello_message) idle_client)) = []"
proof -
  define sv where "sv = initial_server\<lparr>sv_last := 5, sv_session := sv_session greeted_server\<rparr>"
  have a: "admit_request (diagnosed idle_client) sv hello_message = (0, sv)"
    by (rule readmit)
       (simp_all add: sv_def greeted_server_def hello_ok hello_header sample_header_def request_device_def
         word_le_nat_alt)
  have "h_transaction (header_of hello_message) \<le> sv_last sv"
    by (simp add: sv_def hello_header sample_header_def)
  then show ?thesis
    using stale_request_no_effect [OF a, of calm 1] by (simp add: sv_def [symmetric] sample_defs)
qed

text \<open>
  C13. Ownership changes hands only when nothing is left: a managed client takes up a new binding
  only from a greeting with a larger binding, and only while both devices are closed, no memory is
  mapped and no admitted grant is left unretired.
\<close>

theorem new_binding_when_idle:
  assumes "backend_inv b" and "managed b" and "admit_request b sv message = (admission, sv')"
    and "0 < admission"
  shows "binding (sv_session sv) < h_binding (header_of message) \<and>
     h_operation (header_of message) = hello_operation b \<and>
     monitor_of (events b) = fresh_monitor \<and> closed Disk b \<and> closed Net b \<and> sv_last sv' = 0"
proof -
  have "idle b" "binding (sv_session sv) < h_binding (header_of message)"
    "h_operation (header_of message) = hello_operation b" "sv_last sv' = 0"
    using assms(2-4) by (auto simp: admit_request_def Let_def split: prod.splits if_splits
        elim!: session_admit_cases)
  with idle_monitor [OF assms(1)] show ?thesis by simp
qed

theorem new_binding_when_idle_witness:
  "managed idle_client \<and> admit_request idle_client initial_server hello_message = (1, greeted_server) \<and>
   closed Disk idle_client \<and> h_operation (header_of hello_message) = hello_operation idle_client"
  using new_binding_when_idle [OF sample_inv(1) idle_fields(1) hello_admitted(2)] hello_admitted(2)
  by (simp add: idle_fields)

text \<open>
  C14. After its memory has been released, a session serves nothing but another release: every other
  operation is answered as invalid and changes nothing, until a new binding is admitted.
\<close>

theorem retired_session_serves_nothing:
  assumes "retired session" and "h_operation (header_of response) \<noteq> HYPER_IO_RELEASE_MEMORY"
  shows "run_state (dispatch env fuel session message response n) b =
    (Some (session, HYPER_IO_INVALID, response, n), b)"
  using assms by (simp add: dispatch_def Let_def hyper_io_session_preparable_def)

theorem retired_session_serves_nothing_witness:
  "run_state (dispatch calm 1 (hyper_io_session_retire initial_session) hello_message hello_message 48) idle_client =
    (Some (hyper_io_session_retire initial_session, HYPER_IO_INVALID, hello_message, 48), idle_client)"
  by (rule retired_session_serves_nothing)
     (simp_all add: hyper_io_session_retire_def hello_header sample_header_def)



section \<open>The block owner\<close>

text \<open>
  C16. Binding a sector range to a client: success records exactly the requested range for that
  client, keeps every other binding, and publishes the logical unit exactly once; any other answer
  leaves the owner unchanged and publishes nothing.
\<close>

theorem bind_range_outcome:
  assumes "owner_inv (owner_of b)" and "blocks b \<noteq> None"
  shows "wp (bind_range env fuel m) (\<lambda>r t. owner_inv (owner_of t) \<and>
     (r = Some HYPER_IO_OK \<longrightarrow>
        bo_bindings (owner_of t) = (bo_bindings (owner_of b))[unat (b_client m) := range_of m] \<and>
        published (lun_published (b_client m)) (events t)
          = (published (lun_published (b_client m)) (events b) \<or>
             r_disk (bo_bindings (owner_of b) ! unat (b_client m)) = 0)) \<and>
     (r \<noteq> Some HYPER_IO_OK \<longrightarrow> blocks t = blocks b \<and>
        published (lun_published (b_client m)) (events t) = published (lun_published (b_client m)) (events b))) b"
  by (rule wp_mono [OF bind_range_spec [OF assms]])
     (auto simp: bind_post_def owned_def split: if_splits)

theorem bind_range_outcome_witness:
  "blocks owner_client \<noteq> None \<and>
   owner_inv (owner_of (snd (run_state (bind_range calm 1 sample_bind) owner_client)))"
proof -
  have o: "owner_of owner_client = sample_owner" "blocks owner_client \<noteq> None"
    by (simp_all add: owner_of_def owner_client_def)
  show ?thesis
    using bind_range_outcome [of owner_client calm 1 sample_bind] sample_owner_inv o
    by (simp add: wp_def case_prod_beta)
qed

text \<open>
  C17. Disks belong to at most one writer: whatever control message the owner of the disks serves,
  bindings of different clients never share a sector unless both are read-only, every bound range
  lies inside its disk, disk identifiers never change meaning and a bound range is never rebound.
\<close>

theorem block_dispatch_exclusive:
  assumes "blocks b = Some q" and "owner_inv q" and "length reply = 80"
  shows "wp (block_dispatch env fuel message reply n) (\<lambda>r t. \<exists>q'. blocks t = Some q' \<and>
     owner_extends q q' \<and> owner_inv q' \<and>
     (\<forall>i<HYPER_BLOCK_CLIENTS. \<forall>j<HYPER_BLOCK_CLIENTS. i \<noteq> j \<and> r_disk (bo_bindings q' ! i) \<noteq> 0 \<and>
        r_disk (bo_bindings q' ! i) = r_disk (bo_bindings q' ! j) \<and> r_read_only (bo_bindings q' ! i) = 0 \<longrightarrow>
        range_sectors (bo_bindings q' ! i) \<inter> range_sectors (bo_bindings q' ! j) = {})) b"
proof -
  have "wp (block_dispatch env fuel message reply n) (\<lambda>r t.
      (if blocks b = None then t = b else owned b t) \<and> (\<forall>d. r = Some d \<longrightarrow> reply_kept reply n d)) b"
    by (rule block_dispatch_spec) (use assms in simp_all)
  then show ?thesis
  proof (rule wp_mono)
    fix r t assume "(if blocks b = None then t = b else owned b t) \<and> (\<forall>d. r = Some d \<longrightarrow> reply_kept reply n d)"
    then obtain q' where "blocks t = Some q'" "owner_extends q q'" "owner_inv q'"
      using assms(1) owned_owner [of b t q] by auto
    then show "\<exists>q'. blocks t = Some q' \<and> owner_extends q q' \<and> owner_inv q' \<and>
     (\<forall>i<HYPER_BLOCK_CLIENTS. \<forall>j<HYPER_BLOCK_CLIENTS. i \<noteq> j \<and> r_disk (bo_bindings q' ! i) \<noteq> 0 \<and>
        r_disk (bo_bindings q' ! i) = r_disk (bo_bindings q' ! j) \<and> r_read_only (bo_bindings q' ! i) = 0 \<longrightarrow>
        range_sectors (bo_bindings q' ! i) \<inter> range_sectors (bo_bindings q' ! j) = {})"
      using owner_inv_exclusive [of q'] by blast
  qed
qed

theorem block_dispatch_exclusive_witness:
  "blocks owner_client = Some sample_owner \<and> owner_inv sample_owner \<and>
   blocks (snd (run_state (block_dispatch calm 1 hello_message (replicate 80 0) 48) owner_client)) \<noteq> None"
proof -
  have b: "blocks owner_client = Some sample_owner" and "length (replicate 80 (0 :: u8)) = 80"
    by (simp_all add: owner_client_def)
  from block_dispatch_exclusive [OF b sample_owner_inv this(2), of calm 1 hello_message 48] b sample_owner_inv
  show ?thesis unfolding wp_def case_prod_beta by auto
qed

text \<open>
  C18. Reads on behalf of a client stay in bounds: every read the owner issues goes to the requested
  disk, inside its size, and writes only inside the mapping of the client's memory.
\<close>

theorem block_read_in_bounds:
  assumes "unat (memory b) + unat (mi_length (region b)) < 2 ^ 64"
  shows "wp (block_read env fuel m) (\<lambda>_ t. \<exists>es. events t = events b @ es \<and>
     (\<forall>fd address len at a. (Pread fd address len at, a) \<in> set es \<longrightarrow>
        fd = pd_fd (bo_disks (owner_of b) ! (unat (rd_disk m) - 1)) \<and>
        unat (memory b) \<le> unat address \<and>
        unat address + unat len \<le> unat (memory b) + unat (mi_length (region b)) \<and>
        unat at + unat len \<le> unat (pd_bytes (bo_disks (owner_of b) ! (unat (rd_disk m) - 1))))) b"
  by (rule wp_mono [OF block_read_spec [OF assms]])
     (fastforce simp: block_read_post_def list_all_iff pread_bounds_def)

theorem block_read_in_bounds_witness:
  "unat (memory owner_client) + unat (mi_length (region owner_client)) < 2 ^ 64 \<and>
   (\<exists>es. events (snd (run_state (block_read calm 1 sample_read) owner_client)) = events owner_client @ es)"
proof -
  have "unat (memory owner_client) + unat (mi_length (region owner_client)) < 2 ^ 64"
    by (simp add: sample_defs)
  then show ?thesis
    using block_read_in_bounds [of owner_client calm 1 sample_read] unfolding wp_def case_prod_beta by auto
qed

text \<open>
  C19. The read loop ends: against a kernel that never returns more than it was asked for, a run
  that has used up its fuel has been interrupted at least as often as the fuel exceeds the number
  of bytes left to read. Fuel beyond bytes plus interruptions is never used.
\<close>

theorem read_loop_terminates:
  assumes "honest_reads env"
  shows "wp (read_loop env fuel fd destination len offset 0) (\<lambda>r t. r = None \<longrightarrow>
     (\<exists>es. events t = events b @ es \<and> fuel \<le> length (filter interrupted es) + unat len)) b"
  by (rule wp_mono [OF read_loop_done [OF assms]]) (simp add: read_unfinished_def)

theorem read_loop_terminates_witness:
  "honest_reads interrupting \<and>
   (\<exists>es. events (snd (run_state (read_loop interrupting 3 20 65536 1 0 0) owner_client)) = events owner_client @ es \<and>
      2 \<le> length (filter interrupted es))"
proof -
  have h: "honest_reads interrupting"
    by (auto simp: honest_reads_def interrupting_def intro: order.trans [OF _ unsigned_greater_eq])
  have "fst (run_state (read_loop interrupting 3 20 65536 1 0 0) owner_client) = None"
    using interrupted_read [where fuel = 3 and fd = 20 and destination = 65536 and len = 1 and offset = 0] by (simp add: wp_def case_prod_beta)
  then show ?thesis
    using read_loop_terminates [OF h, of 3 20 65536 1 0 owner_client] h
    unfolding wp_def case_prod_beta by fastforce
qed

text \<open>
  C20. The mapped device of a client is exactly its range: for every valid range the start and length
  handed to the device mapper in 512-byte units are exact (no bits are lost), and the mapping ends
  within the disk.
\<close>

theorem mapping_exact:
  assumes "hyper_block_range_valid extent logical ro r"
  shows "unat (linear_start logical r) * 512 = unat (r_first r) * unat logical \<and>
     unat (linear_length logical r) * 512 = unat (r_count r) * unat logical \<and>
     (unat (linear_start logical r) + unat (linear_length logical r)) * 512 \<le> unat extent"
  using linear_exact [OF assms] by simp

theorem mapping_exact_witness:
  "hyper_block_range_valid 1048576 4096 0 sample_range \<and> unat (linear_start 4096 sample_range) = 64"
proof -
  have v: "hyper_block_range_valid 1048576 4096 0 sample_range" by code_simp
  then show ?thesis using mapping_exact [OF v] by (simp add: sample_range_def)
qed

text \<open>
  Publication is all or nothing: \<open>block_target_publish\<close> reports success exactly when it has
  created the link of the logical unit, and it touches nothing else of the client's state.
\<close>

theorem publication_reported:
  "wp (block_target_publish env fuel client device logical r) (\<lambda>v t.
     published (lun_published client) (events t) = (published (lun_published client) (events b) \<or> v = Some 0) \<and>
     shared t = shared b \<and> blocks t = blocks b \<and> disk t = disk b \<and> net t = net b) b"
  by (rule wp_mono [OF block_target_publish_spec [of env fuel client device logical r b]])
     (auto simp: tracks_def quietly_def)

section \<open>Configuration files\<close>

text \<open>
  C21. Whatever text a client inventory holds, the parser accepts it only as a well-formed inventory:
  exactly one block owner, distinct client identifiers below 128, distinct valid MAC addresses of the
  networked clients, and resources within their limits.
\<close>

theorem client_inventory:
  assumes "clients_of_file contents read_error = Some cs"
  shows "length cs \<le> HYPER_BLOCK_CLIENTS \<and> list_all client_ok cs \<and>
     sorted_wrt clients_distinct cs \<and> length (filter (\<lambda>c. c_id c = 0) cs) = 1"
  using clients_of_file_inventory [OF assms] by (simp add: inventory_def)

theorem client_inventory_witness:
  "\<exists>cs. clients_of_file sample_clients False = Some cs \<and> length cs = 2 \<and> list_all client_ok cs"
proof -
  obtain cs where "clients_of_file sample_clients False = Some cs" "length cs = 2"
    by (rule sample_clients_parsed)
  with client_inventory show ?thesis by blast
qed

text \<open>
  Whatever text a network inventory holds, an accepted one has at most the allowed number of
  networks with valid names, and no interface appears twice, as a bridge or as an uplink.
\<close>

theorem network_inventory:
  assumes "networks_of_file contents read_error = Some ns"
  shows "length ns \<le> HYPER_MAX_NETWORKS \<and> distinct (map nw_name ns) \<and>
     distinct (map nw_bridge ns @ map nw_uplink ns) \<and>
     (\<forall>n\<in>set ns. name_valid (nw_name n) False \<and> name_valid (nw_bridge n) True \<and> name_valid (nw_uplink n) True)"
  using networks_of_file_ok [OF assms] by (auto simp: networks_ok_def)

theorem network_inventory_witness:
  "\<exists>ns. networks_of_file sample_networks False = Some ns \<and> length ns = 1 \<and> distinct (map nw_name ns)"
proof -
  have "(case networks_of_file sample_networks False of Some ns \<Rightarrow> length ns = 1 | None \<Rightarrow> False)" by code_simp
  then obtain ns where "networks_of_file sample_networks False = Some ns" "length ns = 1"
    by (cases "networks_of_file sample_networks False") auto
  with network_inventory show ?thesis by blast
qed

text \<open>
  A MAC address has one spelling: two texts that parse to the same address are equal, so the
  textual comparison of the inventory compares addresses.
\<close>

theorem mac_text_canonical:
  assumes "hyper_mac_parse s = Some m" and "hyper_mac_parse s' = Some m"
  shows "s = s'"
  using assms by (rule mac_parse_inj)

theorem mac_text_canonical_witness:
  "\<exists>m. hyper_mac_parse ''02:00:00:00:00:01'' = Some m \<and>
     (\<forall>s'. hyper_mac_parse s' = Some m \<longrightarrow> s' = ''02:00:00:00:00:01'')"
proof -
  have "hyper_mac_parse ''02:00:00:00:00:01'' \<noteq> None" by code_simp
  then obtain m where "hyper_mac_parse ''02:00:00:00:00:01'' = Some m" by auto
  with mac_text_canonical show ?thesis by blast
qed

text \<open>
  Resource numbers on the command line round-trip: the decimal text the supervisor prints for
  valid network resources is read back as the same resources.
\<close>

theorem network_resources_roundtrip:
  assumes "net_resources_valid r"
  shows "hyper_network_resources_parse (decimal (unat (rx_backlog_packets r)))
     (decimal (unat (tx_buffer_bytes r))) = Some r"
  using assms by (rule network_resources_parse_decimal)

theorem network_resources_roundtrip_witness:
  "net_resources_valid default_net_resources \<and>
   hyper_network_resources_parse (decimal (unat (rx_backlog_packets default_net_resources)))
     (decimal (unat (tx_buffer_bytes default_net_resources))) = Some default_net_resources"
proof -
  have v: "net_resources_valid default_net_resources"
    by (simp add: net_resources_valid_def default_net_resources_def)
  from network_resources_roundtrip [OF v] v show ?thesis by simp
qed

section \<open>Policies shared by service and kernel\<close>

text \<open>
  The range check is exact in spite of wrapping 64-bit arithmetic: a range is valid if and only
  if the sector size is a power of two from 512 to 65536 dividing the disk, the flags are valid, and
  the sectors of the range are a non-empty part of the disk.
\<close>

theorem range_check_exact:
  "hyper_block_range_valid bytes sector disk_read_only r \<longleftrightarrow>
     (\<exists>k. 9 \<le> k \<and> k \<le> 16 \<and> unat sector = 2 ^ k) \<and> 0 < unat bytes \<and> unat sector dvd unat bytes \<and>
     r_disk r \<noteq> 0 \<and> r_read_only r \<le> 1 \<and> (disk_read_only = 0 \<or> r_read_only r \<noteq> 0) \<and>
     range_sectors r \<noteq> {} \<and> range_sectors r \<subseteq> {..<unat bytes div unat sector}"
  by (auto simp: range_valid_nat sector_size_ok_pow2 range_in_disk_iff)

theorem range_check_exact_witness:
  "hyper_block_range_valid 1048576 4096 0 sample_range \<and> range_sectors sample_range \<subseteq> {..<256}"
proof -
  have "hyper_block_range_valid 1048576 4096 0 sample_range" by code_simp
  then show ?thesis using range_check_exact [of 1048576 4096 0 sample_range] by simp
qed

text \<open>
  The read check is exact: it admits a read if and only if it is non-empty, at most one
  mebibyte, sector-aligned, inside the disk and inside the client's memory.
\<close>

theorem read_check_exact:
  "hyper_block_read_valid bytes sector offset len memory_bytes memory_offset \<longleftrightarrow>
     0 < unat sector \<and> 0 < unat len \<and> unat len \<le> 1048576 \<and>
     unat sector dvd unat offset \<and> unat sector dvd unat len \<and>
     unat offset + unat len \<le> unat bytes \<and> unat memory_offset + unat len \<le> unat memory_bytes"
  by (rule read_valid_nat)



end
